(* ===== verification/Prelude.thy ===== *)
theory Prelude
  imports Main "HOL-Library.Word" "HOL-Library.Sublist" "HOL-Library.Product_Lexorder"
begin

text \<open>
  Shared vocabulary of the development: the machine integers of the Rust code as fixed-width
  words, its result type as a sum, saturating arithmetic, decimal printing and parsing of
  unsigned integers (\<^verbatim>\<open>Display\<close> and \<^verbatim>\<open>FromStr\<close> of the standard library), string
  splitting, and the generic facts on lists, maps and words that the components share.

  A Rust string is the list of its UTF-8 bytes: \<^verbatim>\<open>str::len\<close> is the list length, and an
  operation that counts characters goes through \<^verbatim>\<open>utf8_chars\<close>.
\<close>

text \<open>Theorem collections: decoders undone by their encoders, facts that drop out of range
  conditions, and introduction rules of the component invariants.\<close>

named_theorems roundtrip_simps \<open>a decoder applied to an encoder's output\<close>
named_theorems sat_simps \<open>saturating arithmetic as arithmetic on naturals\<close>
named_theorems inv_intros \<open>operations preserve the invariant of their component\<close>

section \<open>Types\<close>

type_synonym u8 = "8 word"
type_synonym u16 = "16 word"
type_synonym u32 = "32 word"
type_synonym u64 = "64 word"
type_synonym u128 = "128 word"
type_synonym bytes = "8 word list"

text \<open>The error type of the data layer and its result type.\<close>

datatype data_error =
    Transport string
  | Rpc string
  | Decode string
  | InvalidPayload string
  | BadRequest string
  | NetworkUnconfigured string
  | Unimplemented string
  | NotSupported string string

type_synonym 'a data_result = "data_error + 'a"

text \<open>The question-mark operator on a result, the mapping of an error and of a value, and the
  conversion of an option into a result.\<close>

fun bind_r :: "'e + 'a \<Rightarrow> ('a \<Rightarrow> 'e + 'b) \<Rightarrow> 'e + 'b" where
  "bind_r (Inl e) f = Inl e"
| "bind_r (Inr a) f = f a"

fun map_err :: "('e \<Rightarrow> 'f) \<Rightarrow> 'e + 'a \<Rightarrow> 'f + 'a" where
  "map_err f (Inl e) = Inl (f e)"
| "map_err f (Inr a) = Inr a"

fun map_ok :: "('a \<Rightarrow> 'b) \<Rightarrow> 'e + 'a \<Rightarrow> 'e + 'b" where
  "map_ok f (Inl e) = Inl e"
| "map_ok f (Inr a) = Inr (f a)"

fun ok_or :: "'a option \<Rightarrow> 'e \<Rightarrow> 'e + 'a" where
  "ok_or None e = Inl e"
| "ok_or (Some a) e = Inr a"

fun ok_opt :: "'e + 'a \<Rightarrow> 'a option" where
  "ok_opt (Inl e) = None"
| "ok_opt (Inr a) = Some a"

lemma bind_r_Inr_iff: "bind_r m f = Inr b \<longleftrightarrow> (\<exists>a. m = Inr a \<and> f a = Inr b)"
  by (cases m) auto

lemma map_err_Inr_iff [simp]: "map_err f m = Inr b \<longleftrightarrow> m = Inr b"
  by (cases m) auto

lemma map_ok_Inr_iff: "map_ok f m = Inr b \<longleftrightarrow> (\<exists>a. m = Inr a \<and> b = f a)"
  by (cases m) auto

lemma ok_or_Inr_iff [simp]: "ok_or x e = Inr b \<longleftrightarrow> x = Some b"
  by (cases x) auto

section \<open>Saturating arithmetic\<close>

definition sat_add :: "'a::len word \<Rightarrow> 'a word \<Rightarrow> 'a word" where
  "sat_add a b = (if unat a + unat b < 2 ^ LENGTH('a) then a + b else - 1)"

definition sat_sub :: "'a::len word \<Rightarrow> 'a word \<Rightarrow> 'a word" where
  "sat_sub a b = (if b \<le> a then a - b else 0)"

definition sat_mul :: "'a::len word \<Rightarrow> 'a word \<Rightarrow> 'a word" where
  "sat_mul a b = (if unat a * unat b < 2 ^ LENGTH('a) then a * b else - 1)"

lemma unat_minus_one_is: "unat (- 1 :: 'a::len word) = 2 ^ LENGTH('a) - 1"
  by (metis unsigned_minus_1_eq_mask mask_eq_exp_minus_1 of_nat_eq_iff)

lemma unat_sat_add [sat_simps]:
  "unat (sat_add a b) = min (unat a + unat b) (2 ^ LENGTH('a) - 1)" for a b :: "'a::len word"
  by (auto simp: sat_add_def unat_word_ariths unat_minus_one_is)

lemma unat_sat_sub [sat_simps]: "unat (sat_sub a b) = unat a - unat b" for a b :: "'a::len word"
  by (auto simp: sat_sub_def unat_sub word_le_nat_alt)

lemma unat_sat_mul [sat_simps]:
  "unat (sat_mul a b) = min (unat a * unat b) (2 ^ LENGTH('a) - 1)" for a b :: "'a::len word"
  by (auto simp: sat_mul_def unat_word_ariths unat_minus_one_is)

section \<open>Decimal numbers\<close>

text \<open>The byte of a decimal digit, and the value of a digit byte.\<close>

definition digit_char :: "nat \<Rightarrow> char" where
  "digit_char d = char_of (48 + d)"

definition digit_val :: "char \<Rightarrow> nat option" where
  "digit_val c = (let n = (of_char c :: nat) in if 48 \<le> n \<and> n \<le> 57 then Some (n - 48) else None)"

text \<open>\<^verbatim>\<open>Display\<close> of an unsigned integer.\<close>

fun show_nat :: "nat \<Rightarrow> string" where
  "show_nat n = (if n < 10 then [digit_char n] else show_nat (n div 10) @ [digit_char (n mod 10)])"

declare show_nat.simps [simp del]

definition show_word :: "'a::len word \<Rightarrow> string" where
  "show_word w = show_nat (unat w)"

text \<open>\<^verbatim>\<open>FromStr\<close> of an unsigned integer type of width \<^verbatim>\<open>LENGTH('a)\<close>: an optional
  leading plus sign, then one or more ASCII digits; a value outside the type is an error, so is
  anything else. The code maps every such error to one of its own, so the kind is not kept.\<close>

fun parse_digits :: "nat \<Rightarrow> string \<Rightarrow> nat option" where
  "parse_digits acc [] = Some acc"
| "parse_digits acc (c # cs) =
     (case digit_val c of None \<Rightarrow> None | Some d \<Rightarrow> parse_digits (acc * 10 + d) cs)"

definition parse_nat :: "string \<Rightarrow> nat option" where
  "parse_nat s =
     (let ds = (case s of [] \<Rightarrow> [] | c # cs \<Rightarrow> if c = CHR ''+'' then cs else s)
      in if ds = [] then None else parse_digits 0 ds)"

definition parse_word :: "string \<Rightarrow> ('a::len word) option" where
  "parse_word s = (case parse_nat s of
       None \<Rightarrow> None
     | Some n \<Rightarrow> if n < 2 ^ LENGTH('a) then Some (word_of_nat n) else None)"

lemma digit_val_digit_char [simp]: "d < 10 \<Longrightarrow> digit_val (digit_char d) = Some d"
  by (simp add: digit_val_def digit_char_def)

lemma digit_char_not_sign [simp]:
  "d < 10 \<Longrightarrow> digit_char d \<noteq> CHR ''-''" "d < 10 \<Longrightarrow> digit_char d \<noteq> CHR ''+''"
  by (auto simp: digit_char_def dest!: arg_cong [where f = "of_char :: char \<Rightarrow> nat"])

lemma parse_digits_append:
  "parse_digits acc (xs @ ys) =
     (case parse_digits acc xs of None \<Rightarrow> None | Some a \<Rightarrow> parse_digits a ys)"
  by (induction xs arbitrary: acc) (auto split: option.splits)

lemma parse_digits_show_nat: "parse_digits 0 (show_nat n) = Some n"
proof (induction n rule: show_nat.induct)
  case (1 n)
  then show ?case
    by (subst show_nat.simps) (auto simp: parse_digits_append)
qed

lemma show_nat_not_Nil [simp]: "show_nat n \<noteq> []"
  by (subst show_nat.simps) simp

lemma set_show_nat: "c \<in> set (show_nat n) \<Longrightarrow> \<exists>d<10. c = digit_char d"
proof (induction n rule: show_nat.induct)
  case (1 n)
  have "n mod 10 < 10" by simp
  from 1(2) have "c = digit_char n \<and> n < 10 \<or> \<not> n < 10 \<and> c \<in> set (show_nat (n div 10))
    \<or> c = digit_char (n mod 10)"
    by (subst (asm) show_nat.simps) (auto split: if_splits)
  with 1(1) \<open>n mod 10 < 10\<close> show ?case by blast
qed

lemma dash_notin_show_nat [simp]: "CHR ''-'' \<notin> set (show_nat n)"
  using set_show_nat digit_char_not_sign(1) by metis

lemma plus_notin_show_nat [simp]: "CHR ''+'' \<notin> set (show_nat n)"
  using set_show_nat digit_char_not_sign(2) by metis

lemma parse_nat_show_nat [roundtrip_simps]: "parse_nat (show_nat n) = Some n"
proof (cases "show_nat n")
  case Nil then show ?thesis by simp
next
  case (Cons c cs)
  then have "c \<noteq> CHR ''+''" using plus_notin_show_nat [of n] by auto
  then show ?thesis using Cons parse_digits_show_nat [of n] by (simp add: parse_nat_def)
qed

lemma parse_word_show_word [roundtrip_simps]: "parse_word (show_word w) = Some w"
  by (simp add: parse_word_def show_word_def parse_nat_show_nat)

lemma dash_notin_show_word [simp]: "CHR ''-'' \<notin> set (show_word w)"
  by (simp add: show_word_def)

lemma show_word_not_Nil [simp]: "show_word w \<noteq> []"
  by (simp add: show_word_def)

section \<open>Strings\<close>

text \<open>\<^verbatim>\<open>str::split_once\<close> on a one-byte separator, and \<^verbatim>\<open>splitn(3, _)\<close> collected.\<close>

fun split_once :: "char \<Rightarrow> string \<Rightarrow> (string \<times> string) option" where
  "split_once sep [] = None"
| "split_once sep (c # cs) = (if c = sep then Some ([], cs)
     else map_option (\<lambda>(a, b). (c # a, b)) (split_once sep cs))"

fun splitn :: "nat \<Rightarrow> char \<Rightarrow> string \<Rightarrow> string list" where
  "splitn 0 sep s = []"
| "splitn (Suc 0) sep s = [s]"
| "splitn (Suc (Suc n)) sep s = (case split_once sep s of
       None \<Rightarrow> [s]
     | Some (a, b) \<Rightarrow> a # splitn (Suc n) sep b)"

lemma split_once_append [simp]:
  "sep \<notin> set a \<Longrightarrow> split_once sep (a @ sep # b) = Some (a, b)"
  by (induction a) auto

lemma split_once_None_iff: "split_once sep s = None \<longleftrightarrow> sep \<notin> set s"
  by (induction s) auto

lemma split_once_Some_iff:
  "split_once sep s = Some (a, b) \<longleftrightarrow> s = a @ sep # b \<and> sep \<notin> set a"
proof
  show "split_once sep s = Some (a, b) \<Longrightarrow> s = a @ sep # b \<and> sep \<notin> set a"
    by (induction s arbitrary: a) (auto split: if_splits)
qed auto

text \<open>\<^verbatim>\<open>str::eq_ignore_ascii_case\<close>.\<close>

definition ascii_lower :: "char \<Rightarrow> char" where
  "ascii_lower c = (let n = (of_char c :: nat) in if 65 \<le> n \<and> n \<le> 90 then char_of (n + 32) else c)"

definition eq_ignore_ascii_case :: "string \<Rightarrow> string \<Rightarrow> bool" where
  "eq_ignore_ascii_case a b = (map ascii_lower a = map ascii_lower b)"

text \<open>The characters of a UTF-8 string: a byte that is not a continuation byte
  (\<^verbatim>\<open>10xxxxxx\<close>) opens a character.\<close>

definition is_cont :: "char \<Rightarrow> bool" where
  "is_cont c = (let n = (of_char c :: nat) in 128 \<le> n \<and> n < 192)"

declare length_dropWhile_le [termination_simp]

fun utf8_chars :: "string \<Rightarrow> string list" where
  "utf8_chars [] = []"
| "utf8_chars (c # cs) = (c # takeWhile is_cont cs) # utf8_chars (dropWhile is_cont cs)"

lemma concat_utf8_chars [simp]: "concat (utf8_chars s) = s"
  by (induction s rule: utf8_chars.induct) auto

section \<open>Lists and maps\<close>

text \<open>The rows of a strictly descending key are distinct, and a prefix of them holds the
  greatest ones.\<close>

lemma sorted_wrt_greater_take_drop:
  "sorted_wrt (\<lambda>x y. k x > (k y :: 'k::linorder)) xs \<Longrightarrow> x \<in> set (take n xs) \<Longrightarrow> y \<in> set (drop n xs)
   \<Longrightarrow> k y < k x"
  by (metis append_take_drop_id sorted_wrt_append)

lemma map_Inr_eq_iff: "map Inr xs = map Inr ys \<longleftrightarrow> xs = ys"
  by (rule inj_map_eq_map) simp

lemma foldl_max_ge: "(a :: 'a::linorder) \<le> foldl max a xs"
  by (induction xs arbitrary: a) (auto intro: order_trans [OF max.cobounded1])

section \<open>Signed columns\<close>

text \<open>Block numbers below two to the power 63 are their own column values.\<close>

lemma sint_small: "unat n < 2 ^ 63 \<Longrightarrow> sint n = int (unat n)" for n :: u64
proof -
  assume "unat n < 2 ^ 63"
  then have "int (unat n) < int (2 ^ 63)" by (simp only: of_nat_less_iff)
  then have u: "uint n < 2 ^ 63" by simp
  have "sint n = signed_take_bit 63 (uint n)" by (simp add: sint_uint)
  also have "\<dots> = uint n"
    using u by (intro signed_take_bit_int_eq_self) (simp_all add: order_trans [of _ 0])
  finally show ?thesis by simp
qed

lemma sint_u32: "unat w < 2 ^ 31 \<Longrightarrow> sint w = int (unat w)" for w :: u32
proof -
  assume "unat w < 2 ^ 31"
  then have "int (unat w) < int (2 ^ 31)" by (simp only: of_nat_less_iff)
  then have "uint w < 2 ^ 31" by simp
  then have "sint w = uint w" by (simp only: sint_uint) (auto intro!: signed_take_bit_int_eq_self intro: order_trans [of _ 0])
  then show ?thesis by simp
qed

lemma unat_wider:
  fixes w :: "'a::len word"
  assumes "LENGTH('a) \<le> LENGTH('b)"
  shows "unat (ucast w :: 'b::len word) = unat w"
proof -
  have "unat w < 2 ^ LENGTH('b)"
    using unsigned_less [of w, where 'a = nat] assms by (rule less_le_trans [OF _ power_increasing]) simp
  then show ?thesis by (simp add: unsigned_ucast_eq take_bit_nat_eq_self)
qed

lemma sint_inj: "sint a = sint b \<longleftrightarrow> a = b" for a b :: "'a::len word"
  by (auto intro: signed_word_eqI)

end
