(* ===== verification/Domain.thy ===== *)
theory Domain
  imports Prelude
begin

text \<open>
  The storage-agnostic domain types of \<^verbatim>\<open>src/domain.rs\<close> and the JSON adapters of
  \<^verbatim>\<open>src/serde_helpers.rs\<close>. Every struct is a record whose field names carry a short prefix
  (HOL field names are global); every enum is a datatype with the source's constructors.
  Timestamps (\<^verbatim>\<open>i64\<close>) are \<^verbatim>\<open>int\<close>; the other integers keep their width.
\<close>

section \<open>Blocks, events and extrinsics\<close>

definition version_deposit :: u128 where
  "version_deposit = 500000000000"

record block =
  bk_number :: u64
  bk_hash :: string
  bk_parent_hash :: string
  bk_state_root :: string
  bk_extrinsics_root :: string
  bk_timestamp_ms :: int
  bk_finalized :: bool
  bk_extrinsic_count :: u32
  bk_event_count :: u32
  bk_author :: string
  bk_author_name :: string
  bk_ref_time :: u64
  bk_ref_time_pct :: u8
  bk_proof_size :: u64
  bk_spec_version :: u32
  bk_size_bytes :: u32

record waveform_block =
  wf_number :: u64
  wf_extrinsic_count :: u32
  wf_event_count :: u32
  wf_ref_time_pct :: u8
  wf_finalized :: bool
  wf_timestamp_ms :: int

definition waveform_of_block :: "block \<Rightarrow> waveform_block" where
  "waveform_of_block b = \<lparr>
     wf_number = bk_number b,
     wf_extrinsic_count = bk_extrinsic_count b,
     wf_event_count = bk_event_count b,
     wf_ref_time_pct = bk_ref_time_pct b,
     wf_finalized = bk_finalized b,
     wf_timestamp_ms = bk_timestamp_ms b \<rparr>"

datatype call_result = Success | Failed

fun call_result_as_str :: "call_result \<Rightarrow> string" where
  "call_result_as_str Success = ''success''"
| "call_result_as_str Failed = ''failed''"

record event_field =
  ef_name :: "string option"
  ef_value :: string

record event_ref =
  er_module :: string
  er_name :: string
  er_fields :: "event_field list"

datatype event_phase = Initialization | ApplyExtrinsic u32 | Finalization

record block_event =
  be_block_number :: u64
  be_index :: u32
  be_phase :: event_phase
  be_module :: string
  be_name :: string
  be_fields :: "event_field list"
  be_timestamp_ms :: int

record call_field =
  cf_name :: "string option"
  cf_type_name :: "string option"
  cf_value :: string

datatype extrinsic_args = Decoded "call_field list" | Raw string

record extrinsic =
  xt_id :: string
  xt_block_number :: u64
  xt_index :: u32
  xt_hash :: string
  xt_module :: string
  xt_call :: string
  xt_signed :: bool
  xt_signer :: "string option"
  xt_args :: extrinsic_args
  xt_result :: call_result
  xt_nonce :: "u32 option"
  xt_tip :: u128
  xt_fee :: u128
  xt_timestamp_ms :: int
  xt_events :: "event_ref list"

text \<open>An extrinsic used as concrete input by the witnesses.\<close>

definition example_extrinsic :: "u64 \<Rightarrow> u32 \<Rightarrow> string \<Rightarrow> extrinsic" where
  "example_extrinsic n i h = \<lparr> xt_id = show_word n @ ''-'' @ show_word i, xt_block_number = n,
     xt_index = i, xt_hash = h, xt_module = ''Balances'', xt_call = ''transfer'', xt_signed = True,
     xt_signer = Some ''alice'', xt_args = Decoded [], xt_result = Success, xt_nonce = Some 0,
     xt_tip = 0, xt_fee = 1, xt_timestamp_ms = 0, xt_events = [] \<rparr>"

section \<open>Accounts, transfers and ATS records\<close>

record balance =
  ba_total :: u128
  ba_transferable :: u128
  ba_reserved :: u128

record account =
  ac_address :: string
  ac_balance :: balance
  ac_nonce :: u32
  ac_first_seen_ms :: int
  ac_last_active_ms :: int

record transfer =
  tr_extrinsic :: extrinsic
  tr_from :: string
  tr_to :: string
  tr_amount :: u128

record ats_version =
  av_version_index :: u32
  av_commitment :: string
  av_protocol_version :: u8
  av_created_at_ms :: int
  av_block_number :: u64
  av_extrinsic_index :: u32
  av_extrinsic_id :: string
  av_fee :: u128
  av_signer :: string

record deposit =
  dp_address :: string
  dp_amount :: u128

record ats_record =
  ar_ats_id :: u32
  ar_owner :: string
  ar_created_at_ms :: int
  ar_created_at_block :: u64
  ar_version_count :: u32
  ar_deposits :: "deposit list"
  ar_total_deposit :: u128
  ar_versions :: "ats_version list"

text \<open>Both accessors panic on a record without versions; the panic is \<^verbatim>\<open>None\<close>.\<close>

definition latest_version :: "ats_record \<Rightarrow> ats_version option" where
  "latest_version r = (case ar_versions r of [] \<Rightarrow> None | v # vs \<Rightarrow> Some (last (v # vs)))"

definition initial_version :: "ats_record \<Rightarrow> ats_version option" where
  "initial_version r = (case ar_versions r of [] \<Rightarrow> None | v # vs \<Rightarrow> Some v)"

record ats_feed_item =
  fi_ats_id :: u32
  fi_owner :: string
  fi_version_index :: u32
  fi_is_initial :: bool
  fi_is_latest :: bool
  fi_version_count :: u32
  fi_commitment :: string
  fi_protocol_version :: u8
  fi_block_number :: u64
  fi_extrinsic_id :: string
  fi_timestamp_ms :: int
  fi_signer :: string

section \<open>Runtime history\<close>

record runtime_identity =
  ri_spec_name :: string
  ri_impl_name :: string
  ri_authoring_version :: u32
  ri_spec_version :: u32
  ri_impl_version :: u32
  ri_transaction_version :: u32
  ri_state_version :: "u8 option"

record runtime_code_info =
  rc_hash :: string
  rc_size_bytes :: u32
  rc_compressed :: bool

record runtime_details =
  rd_identity :: runtime_identity
  rd_code :: runtime_code_info
  rd_genesis_hash :: string
  rd_at_block :: u64
  rd_at_block_hash :: string
  rd_metadata_version :: u8

record runtime_upgrade =
  ru_spec_version :: u32
  ru_first_block :: "u64 option"
  ru_first_block_timestamp_ms :: "int option"
  ru_is_current :: bool

section \<open>Token allocation\<close>

datatype envelope_id =
    Teams | KoL | Private1 | Private2 | Public1 | Public2 | Public3 | Public4
  | Airdrop | CommunityRewards | Listing | ResearchDevelopment | Reserve

fun slug :: "envelope_id \<Rightarrow> string" where
  "slug Teams = ''teams''"
| "slug KoL = ''kol''"
| "slug Private1 = ''private1''"
| "slug Private2 = ''private2''"
| "slug Public1 = ''public1''"
| "slug Public2 = ''public2''"
| "slug Public3 = ''public3''"
| "slug Public4 = ''public4''"
| "slug Airdrop = ''airdrop''"
| "slug CommunityRewards = ''community-rewards''"
| "slug Listing = ''listing''"
| "slug ResearchDevelopment = ''research-development''"
| "slug Reserve = ''reserve''"

definition from_slug :: "string \<Rightarrow> envelope_id option" where
  "from_slug s =
     (if s = ''teams'' then Some Teams
      else if s = ''kol'' then Some KoL
      else if s = ''private1'' then Some Private1
      else if s = ''private2'' then Some Private2
      else if s = ''public1'' then Some Public1
      else if s = ''public2'' then Some Public2
      else if s = ''public3'' then Some Public3
      else if s = ''public4'' then Some Public4
      else if s = ''airdrop'' then Some Airdrop
      else if s = ''community-rewards'' then Some CommunityRewards
      else if s = ''listing'' then Some Listing
      else if s = ''research-development'' then Some ResearchDevelopment
      else if s = ''reserve'' then Some Reserve
      else None)"

fun envelope_label :: "envelope_id \<Rightarrow> string" where
  "envelope_label Teams = ''Teams''"
| "envelope_label KoL = ''KoL''"
| "envelope_label Private1 = ''Private Sale 1''"
| "envelope_label Private2 = ''Private Sale 2''"
| "envelope_label Public1 = ''Public Sale 1''"
| "envelope_label Public2 = ''Public Sale 2''"
| "envelope_label Public3 = ''Public Sale 3''"
| "envelope_label Public4 = ''Public Sale 4''"
| "envelope_label Airdrop = ''Airdrop''"
| "envelope_label CommunityRewards = ''Community Rewards''"
| "envelope_label Listing = ''Listing''"
| "envelope_label ResearchDevelopment = ''Research & Development''"
| "envelope_label Reserve = ''Reserve''"

definition envelope_all :: "envelope_id list" where
  "envelope_all = [Teams, KoL, Private1, Private2, Public1, Public2, Public3, Public4,
     Airdrop, CommunityRewards, Listing, ResearchDevelopment, Reserve]"

fun variant_index :: "envelope_id \<Rightarrow> u8" where
  "variant_index Teams = 0"
| "variant_index KoL = 1"
| "variant_index Private1 = 2"
| "variant_index Private2 = 3"
| "variant_index Public1 = 4"
| "variant_index Public2 = 5"
| "variant_index Public3 = 6"
| "variant_index Public4 = 7"
| "variant_index Airdrop = 8"
| "variant_index CommunityRewards = 9"
| "variant_index Listing = 10"
| "variant_index ResearchDevelopment = 11"
| "variant_index Reserve = 12"

text \<open>Envelopes are ordered by their SCALE variant index.\<close>

lemma variant_index_inj: "variant_index a = variant_index b \<longleftrightarrow> a = b"
  by (cases a; cases b) simp_all

instantiation envelope_id :: linorder
begin

definition less_eq_envelope_id :: "envelope_id \<Rightarrow> envelope_id \<Rightarrow> bool" where
  "a \<le> b \<longleftrightarrow> variant_index a \<le> variant_index b"

definition less_envelope_id :: "envelope_id \<Rightarrow> envelope_id \<Rightarrow> bool" where
  "a < b \<longleftrightarrow> variant_index a < variant_index b"

instance
  by standard
    (auto simp: less_eq_envelope_id_def less_envelope_id_def simp flip: variant_index_inj)

end

record envelope_info =
  ei_id :: envelope_id
  ei_label :: string
  ei_account :: string
  ei_total_cap :: u128
  ei_distributed :: u128
  ei_upfront_pct :: u8
  ei_cliff_blocks :: u64
  ei_vesting_duration_blocks :: u64
  ei_unique_beneficiary :: "string option"
  ei_allocation_count :: u32

record allocation =
  al_id :: u32
  al_envelope :: envelope_id
  al_beneficiary :: string
  al_total :: u128
  al_upfront :: u128
  al_vested_total :: u128
  al_released :: u128
  al_start_block :: u64
  al_claimable_now :: u128
  al_percent_vested :: u8

definition claimable_amount :: "u64 \<Rightarrow> u64 \<Rightarrow> u128 \<Rightarrow> u128 \<Rightarrow> u64 \<Rightarrow> u128" where
  "claimable_amount head_block start_block vested_total released vesting_duration =
     (if head_block \<le> start_block then 0
      else let elapsed = head_block - start_block in
        if vesting_duration = 0 \<or> elapsed \<ge> vesting_duration then sat_sub vested_total released
        else let vested_now = sat_mul vested_total (ucast elapsed) div ucast vesting_duration
             in sat_sub vested_now released)"

record envelope_detail =
  ed_envelope :: envelope_info
  ed_allocations :: "allocation list"

record treasury_info =
  ti_account :: string
  ti_balance :: u128
  ti_locked :: u128

record epoch_info =
  ep_index :: u64
  ep_head_block :: u64
  ep_next_payout_block :: u64
  ep_epoch_duration_blocks :: u64

record token_overview =
  to_symbol :: string
  to_decimals :: u8
  to_total_supply :: u128
  to_circulating :: u128
  to_locked :: u128
  to_envelope_reserves :: u128
  to_treasury :: treasury_info
  to_epoch :: epoch_info
  to_envelopes :: "envelope_info list"

section \<open>Pagination envelope\<close>

record page_info =
  pi_total :: "u64 option"
  pi_next_cursor :: "string option"
  pi_has_more :: bool

record 'a page =
  pg_items :: "'a list"
  pg_info :: page_info

definition empty_page :: "'a page" where
  "empty_page = \<lparr> pg_items = [],
     pg_info = \<lparr> pi_total = None, pi_next_cursor = None, pi_has_more = False \<rparr> \<rparr>"

record page_request =
  pr_count :: u32
  pr_cursor :: "string option"

section \<open>JSON adapters of wide integers\<close>

text \<open>The JSON values that the adapters of \<^verbatim>\<open>serde_helpers.rs\<close> produce and accept: a wide integer
  travels as a string, an absent optional as null. A value of another kind is an error.\<close>

datatype json = JNull | JString string | JNumber int | JBool bool

definition uint_string_serialize :: "'a::len word \<Rightarrow> json" where
  "uint_string_serialize v = JString (show_word v)"

fun uint_string_deserialize :: "json \<Rightarrow> ('a::len word) option" where
  "uint_string_deserialize (JString s) = parse_word s"
| "uint_string_deserialize _ = None"

fun u64_string_opt_serialize :: "u64 option \<Rightarrow> json" where
  "u64_string_opt_serialize (Some v) = JString (show_word v)"
| "u64_string_opt_serialize None = JNull"

fun u64_string_opt_deserialize :: "json \<Rightarrow> u64 option option" where
  "u64_string_opt_deserialize JNull = Some None"
| "u64_string_opt_deserialize (JString s) = map_option Some (parse_word s)"
| "u64_string_opt_deserialize _ = None"

lemma uint_string_roundtrip [roundtrip_simps]:
  "uint_string_deserialize (uint_string_serialize v) = Some v"
  by (simp add: uint_string_serialize_def parse_word_show_word)

lemma u64_string_opt_roundtrip [roundtrip_simps]:
  "u64_string_opt_deserialize (u64_string_opt_serialize v) = Some v"
  by (cases v) (simp_all add: parse_word_show_word)

section \<open>Lemmas\<close>

lemma from_slug_slug [roundtrip_simps]: "from_slug (slug e) = Some e"
  by (cases e) (simp_all add: from_slug_def)

lemma from_slug_Some: "from_slug s = Some e \<Longrightarrow> s = slug e"
  by (auto simp: from_slug_def split: if_splits)

lemma envelope_all_complete: "set envelope_all = UNIV" "distinct envelope_all"
proof -
  show "set envelope_all = UNIV"
  proof (intro equalityI subsetI UNIV_I)
    fix e :: envelope_id
    show "e \<in> set envelope_all" by (cases e) (simp_all add: envelope_all_def)
  qed
qed (simp add: envelope_all_def)

lemma envelope_all_index: "i < length envelope_all \<Longrightarrow> variant_index (envelope_all ! i) = word_of_nat i"
  unfolding envelope_all_def by (simp add: less_Suc_eq numeral_eq_Suc) (elim disjE; simp)

text \<open>The claimable amount on naturals: the linear share, saturated at the width of u128.\<close>

definition vested_nat :: "nat \<Rightarrow> nat \<Rightarrow> nat \<Rightarrow> nat" where
  "vested_nat elapsed amount duration =
     (if duration = 0 \<or> elapsed \<ge> duration then amount
      else min (amount * elapsed) (2 ^ 128 - 1) div duration)"

lemma unat_claimable_amount:
  "unat (claimable_amount h s t r d) =
     (if unat h \<le> unat s then 0 else vested_nat (unat h - unat s) (unat t) (unat d) - unat r)"
proof (cases "unat h \<le> unat s")
  case True
  then show ?thesis by (simp add: claimable_amount_def word_le_nat_alt)
next
  case False
  then have e: "unat (h - s) = unat h - unat s"
    by (simp add: unat_sub word_le_nat_alt)
  have u: "unat (ucast x :: u128) = unat x" for x :: u64
    by transfer simp
  have d0: "d = 0 \<longleftrightarrow> unat d = 0" by (simp add: unat_eq_0)
  show ?thesis using False
    by (simp add: claimable_amount_def vested_nat_def Let_def word_le_nat_alt e d0 u unat_div
        unat_sat_mul unat_sat_sub)
qed

lemma vested_nat_le: "vested_nat e t d \<le> t"
proof (cases "d = 0 \<or> e \<ge> d")
  case False
  then have "min (t * e) (2 ^ 128 - 1) \<le> t * d" by (simp add: min_le_iff_disj)
  then have "min (t * e) (2 ^ 128 - 1) div d \<le> t * d div d" by (rule div_le_mono)
  also have "t * d div d = t" using False by simp
  finally show ?thesis using False by (simp add: vested_nat_def)
qed (simp add: vested_nat_def)

lemma vested_nat_mono: "e \<le> e' \<Longrightarrow> vested_nat e t d \<le> vested_nat e' t d"
proof (cases "d = 0 \<or> e' \<ge> d")
  case True
  then have "vested_nat e' t d = t" by (simp add: vested_nat_def)
  then show ?thesis using vested_nat_le by simp
next
  case False
  assume "e \<le> e'"
  then have "min (t * e) (2 ^ 128 - 1) \<le> min (t * e') (2 ^ 128 - 1)"
    by (intro min.mono mult_le_mono) simp_all
  then show ?thesis using False \<open>e \<le> e'\<close> by (simp add: vested_nat_def div_le_mono)
qed

section \<open>Properties\<close>

text \<open>The slug of an envelope is read back as that envelope, and no other string is accepted:
  \<^verbatim>\<open>from_slug\<close> inverts \<^verbatim>\<open>slug\<close>; the list \<^verbatim>\<open>ALL\<close> holds every envelope once, at the position of
  its SCALE variant index.\<close>

theorem envelope_slug_codec:
  "(from_slug s = Some e \<longleftrightarrow> s = slug e) \<and>
   map variant_index envelope_all = map word_of_nat [0..<13] \<and> set envelope_all = UNIV"
proof (intro conjI)
  show "from_slug s = Some e \<longleftrightarrow> s = slug e" using from_slug_slug from_slug_Some by blast
  show "map variant_index envelope_all = map word_of_nat [0..<13]"
    by (simp add: envelope_all_def upt_rec)
qed (rule envelope_all_complete)

text \<open>The claimable amount never exceeds what is left of the vested total, does not decrease
  as the chain advances, is zero until the start block and is everything left once the vesting
  duration has passed, also where the multiplication saturates.\<close>

theorem claimable_amount_bounds:
  "(h \<le> h' \<longrightarrow> claimable_amount h s t r d \<le> claimable_amount h' s t r d) \<and>
   claimable_amount h s t r d \<le> sat_sub t r \<and>
   (h \<le> s \<longrightarrow> claimable_amount h s t r d = 0) \<and>
   (s < h \<and> unat s + unat d \<le> unat h \<longrightarrow> claimable_amount h s t r d = sat_sub t r)"
proof (intro conjI impI)
  assume "h \<le> h'"
  then have "unat h \<le> unat h'" by (simp add: word_le_nat_alt)
  then show "claimable_amount h s t r d \<le> claimable_amount h' s t r d"
    using vested_nat_mono [of "unat h - unat s" "unat h' - unat s" "unat t" "unat d"]
    by (auto simp: word_le_nat_alt unat_claimable_amount intro: diff_le_mono)
next
  show "claimable_amount h s t r d \<le> sat_sub t r"
    by (simp add: word_le_nat_alt unat_claimable_amount unat_sat_sub vested_nat_le diff_le_mono)
next
  show "h \<le> s \<Longrightarrow> claimable_amount h s t r d = 0" by (simp add: claimable_amount_def)
next
  assume "s < h \<and> unat s + unat d \<le> unat h"
  then have "unat (claimable_amount h s t r d) = unat (sat_sub t r)"
    by (auto simp: unat_claimable_amount unat_sat_sub vested_nat_def word_less_nat_alt)
  then show "claimable_amount h s t r d = sat_sub t r" by (rule unsigned_word_eqI)
qed

lemma claimable_amount_bounds_witness:
  "claimable_amount 150 100 1000 200 100 \<le> claimable_amount 175 100 1000 200 100 \<and>
   claimable_amount 150 100 1000 200 100 = 300 \<and>
   claimable_amount 100 100 1000 200 100 = 0 \<and>
   claimable_amount 200 100 1000 200 100 = sat_sub 1000 200"
  using claimable_amount_bounds [of 150 175 100 1000 200 100]
    claimable_amount_bounds [of 100 175 100 1000 200 100]
    claimable_amount_bounds [of 200 200 100 1000 200 100]
  by (simp add: claimable_amount_def sat_sub_def sat_mul_def)

end
