(* ===== verification/Cursor.thy ===== *)
theory Cursor
  imports Domain
begin

text \<open>
  The transparent pagination cursors of \<^verbatim>\<open>src/data/cursor.rs\<close>: one datatype per resource with
  its printer (\<^verbatim>\<open>Display\<close>), its parser (\<^verbatim>\<open>FromStr\<close>) and the order its documentation gives it,
  and \<^verbatim>\<open>parse_cursor\<close>, which turns a parse failure into \<^verbatim>\<open>BadRequest\<close>. The locale
  \<^verbatim>\<open>cursor_codec\<close> is the contract a list endpoint relies on; each of the six cursors is an
  interpretation of it.
\<close>

section \<open>Parse errors and the request cursor\<close>

record cursor_parse_error =
  ce_input :: string
  ce_expected :: string

definition show_cursor_error :: "cursor_parse_error \<Rightarrow> string" where
  "show_cursor_error e =
     ''invalid cursor '' @ [CHR 0x27] @ ce_input e @ [CHR 0x27] @ '': expected '' @ ce_expected e"

definition cursor_err :: "string \<Rightarrow> string \<Rightarrow> cursor_parse_error" where
  "cursor_err input expected = \<lparr> ce_input = input, ce_expected = expected \<rparr>"

definition parse_cursor ::
  "(string \<Rightarrow> cursor_parse_error + 'c) \<Rightarrow> page_request \<Rightarrow> 'c option data_result" where
  "parse_cursor from_str req = (case pr_cursor req of
       None \<Rightarrow> Inr None
     | Some raw \<Rightarrow> map_err (\<lambda>e. BadRequest (show_cursor_error e)) (map_ok Some (from_str raw)))"

section \<open>The six cursors\<close>

datatype block_cursor = BlockCursor (bc_block: u64)

definition show_block_cursor :: "block_cursor \<Rightarrow> string" where
  "show_block_cursor c = show_word (bc_block c)"

definition block_cursor_from_str :: "string \<Rightarrow> cursor_parse_error + block_cursor" where
  "block_cursor_from_str s =
     map_ok BlockCursor (ok_or (parse_word s) (cursor_err s ''<block_num> (u64)''))"

datatype extrinsic_cursor = ExtrinsicCursor (ec_block: u64) (ec_index: u32)

definition show_extrinsic_cursor :: "extrinsic_cursor \<Rightarrow> string" where
  "show_extrinsic_cursor c = show_word (ec_block c) @ ''-'' @ show_word (ec_index c)"

definition extrinsic_cursor_from_str :: "string \<Rightarrow> cursor_parse_error + extrinsic_cursor" where
  "extrinsic_cursor_from_str s =
     bind_r (ok_or (split_once CHR ''-'' s) (cursor_err s ''<block>-<idx>'')) (\<lambda>(b, i).
     bind_r (ok_or (parse_word b) (cursor_err s ''<block>-<idx> (block must be u64)'')) (\<lambda>block.
     bind_r (ok_or (parse_word i) (cursor_err s ''<block>-<idx> (idx must be u32)'')) (\<lambda>index.
     Inr (ExtrinsicCursor block index))))"

datatype transfer_cursor = TransferCursor (tc_block: u64) (tc_event_idx: u32)

definition show_transfer_cursor :: "transfer_cursor \<Rightarrow> string" where
  "show_transfer_cursor c = show_word (tc_block c) @ ''-'' @ show_word (tc_event_idx c)"

definition transfer_cursor_from_str :: "string \<Rightarrow> cursor_parse_error + transfer_cursor" where
  "transfer_cursor_from_str s =
     bind_r (ok_or (split_once CHR ''-'' s) (cursor_err s ''<block>-<event_idx>'')) (\<lambda>(b, e).
     bind_r (ok_or (parse_word b)
       (cursor_err s ''<block>-<event_idx> (block must be u64)'')) (\<lambda>block.
     bind_r (ok_or (parse_word e)
       (cursor_err s ''<block>-<event_idx> (event_idx must be u32)'')) (\<lambda>event_idx.
     Inr (TransferCursor block event_idx))))"

datatype event_phase_kind = InitializationKind | ApplyExtrinsicKind | FinalizationKind

fun phase_letter :: "event_phase_kind \<Rightarrow> char" where
  "phase_letter InitializationKind = CHR ''I''"
| "phase_letter ApplyExtrinsicKind = CHR ''A''"
| "phase_letter FinalizationKind = CHR ''F''"

definition phase_from_letter :: "char \<Rightarrow> event_phase_kind option" where
  "phase_from_letter c =
     (if c = CHR ''I'' then Some InitializationKind
      else if c = CHR ''A'' then Some ApplyExtrinsicKind
      else if c = CHR ''F'' then Some FinalizationKind
      else None)"

fun phase_kind_of :: "event_phase \<Rightarrow> event_phase_kind" where
  "phase_kind_of Initialization = InitializationKind"
| "phase_kind_of (ApplyExtrinsic _) = ApplyExtrinsicKind"
| "phase_kind_of Finalization = FinalizationKind"

datatype event_cursor =
  EventCursor (vc_block: u64) (vc_phase: event_phase_kind) (vc_index: u32)

definition show_event_cursor :: "event_cursor \<Rightarrow> string" where
  "show_event_cursor c =
     show_word (vc_block c) @ ''-'' @ [phase_letter (vc_phase c)] @ ''-'' @ show_word (vc_index c)"

text \<open>The iterator \<^verbatim>\<open>splitn(3, _)\<close> yields at most three parts; the source's check for a fourth
  one is the last branch below. \<^verbatim>\<open>p.len() == 1\<close> is a byte length.\<close>

definition event_cursor_from_str :: "string \<Rightarrow> cursor_parse_error + event_cursor" where
  "event_cursor_from_str s =
     (let e = cursor_err s ''<block>-<phase>-<idx> with phase in I|A|F'' in
      case splitn 3 CHR ''-'' s of
        [b, p, i] \<Rightarrow>
          bind_r (ok_or (parse_word b) e) (\<lambda>block.
          bind_r (case p of [c] \<Rightarrow> ok_or (phase_from_letter c) e | _ \<Rightarrow> Inl e) (\<lambda>phase.
          bind_r (ok_or (parse_word i) e) (\<lambda>index.
          Inr (EventCursor block phase index))))
      | _ \<Rightarrow> Inl e)"

datatype ats_cursor = AtsCursor (tc_id: u32)

definition show_ats_cursor :: "ats_cursor \<Rightarrow> string" where
  "show_ats_cursor c = show_word (tc_id c)"

definition ats_cursor_from_str :: "string \<Rightarrow> cursor_parse_error + ats_cursor" where
  "ats_cursor_from_str s = map_ok AtsCursor (ok_or (parse_word s) (cursor_err s ''<id> (u32)''))"

datatype ats_feed_cursor =
  AtsFeedCursor (fc_block_num: u64) (fc_ats_id: u32) (fc_version: u32)

definition show_ats_feed_cursor :: "ats_feed_cursor \<Rightarrow> string" where
  "show_ats_feed_cursor c =
     show_word (fc_block_num c) @ ''-'' @ show_word (fc_ats_id c) @ ''-'' @ show_word (fc_version c)"

definition ats_feed_cursor_from_str :: "string \<Rightarrow> cursor_parse_error + ats_feed_cursor" where
  "ats_feed_cursor_from_str s =
     (case splitn 3 CHR ''-'' s of
        [b, a, v] \<Rightarrow>
          bind_r (ok_or (parse_word b)
            (cursor_err s ''<block_num>-<ats_id>-<version> (block_num must be u64)'')) (\<lambda>block_num.
          bind_r (ok_or (parse_word a)
            (cursor_err s ''<block_num>-<ats_id>-<version> (ats_id must be u32)'')) (\<lambda>ats_id.
          bind_r (ok_or (parse_word v)
            (cursor_err s ''<block_num>-<ats_id>-<version> (version must be u32)'')) (\<lambda>version.
          Inr (AtsFeedCursor block_num ats_id version))))
      | _ \<Rightarrow> Inl (cursor_err s ''<block_num>-<ats_id>-<version>''))"

section \<open>Order\<close>

text \<open>Each cursor's documentation gives the order of its resource: lexicographic on its
  components. The event cursor is left unordered: its phase is not part of its key.\<close>

instantiation block_cursor :: linorder
begin

definition less_eq_block_cursor :: "block_cursor \<Rightarrow> block_cursor \<Rightarrow> bool" where
  "a \<le> b \<longleftrightarrow> bc_block a \<le> bc_block b"

definition less_block_cursor :: "block_cursor \<Rightarrow> block_cursor \<Rightarrow> bool" where
  "a < b \<longleftrightarrow> bc_block a < bc_block b"

instance
  by standard (auto simp: less_eq_block_cursor_def less_block_cursor_def block_cursor.expand)

end

instantiation extrinsic_cursor :: linorder
begin

definition less_eq_extrinsic_cursor :: "extrinsic_cursor \<Rightarrow> extrinsic_cursor \<Rightarrow> bool" where
  "a \<le> b \<longleftrightarrow> (ec_block a, ec_index a) \<le> (ec_block b, ec_index b)"

definition less_extrinsic_cursor :: "extrinsic_cursor \<Rightarrow> extrinsic_cursor \<Rightarrow> bool" where
  "a < b \<longleftrightarrow> (ec_block a, ec_index a) < (ec_block b, ec_index b)"

instance
  by standard
    (auto simp: less_eq_extrinsic_cursor_def less_extrinsic_cursor_def extrinsic_cursor.expand)

end

instantiation transfer_cursor :: linorder
begin

definition less_eq_transfer_cursor :: "transfer_cursor \<Rightarrow> transfer_cursor \<Rightarrow> bool" where
  "a \<le> b \<longleftrightarrow> (tc_block a, tc_event_idx a) \<le> (tc_block b, tc_event_idx b)"

definition less_transfer_cursor :: "transfer_cursor \<Rightarrow> transfer_cursor \<Rightarrow> bool" where
  "a < b \<longleftrightarrow> (tc_block a, tc_event_idx a) < (tc_block b, tc_event_idx b)"

instance
  by standard
    (auto simp: less_eq_transfer_cursor_def less_transfer_cursor_def transfer_cursor.expand)

end

instantiation ats_cursor :: linorder
begin

definition less_eq_ats_cursor :: "ats_cursor \<Rightarrow> ats_cursor \<Rightarrow> bool" where
  "a \<le> b \<longleftrightarrow> tc_id a \<le> tc_id b"

definition less_ats_cursor :: "ats_cursor \<Rightarrow> ats_cursor \<Rightarrow> bool" where
  "a < b \<longleftrightarrow> tc_id a < tc_id b"

instance
  by standard (auto simp: less_eq_ats_cursor_def less_ats_cursor_def ats_cursor.expand)

end

instantiation ats_feed_cursor :: linorder
begin

definition less_eq_ats_feed_cursor :: "ats_feed_cursor \<Rightarrow> ats_feed_cursor \<Rightarrow> bool" where
  "a \<le> b \<longleftrightarrow> (fc_block_num a, fc_ats_id a, fc_version a) \<le> (fc_block_num b, fc_ats_id b, fc_version b)"

definition less_ats_feed_cursor :: "ats_feed_cursor \<Rightarrow> ats_feed_cursor \<Rightarrow> bool" where
  "a < b \<longleftrightarrow> (fc_block_num a, fc_ats_id a, fc_version a) < (fc_block_num b, fc_ats_id b, fc_version b)"

instance
  by standard
    (auto simp: less_eq_ats_feed_cursor_def less_ats_feed_cursor_def ats_feed_cursor.expand)

end

section \<open>The contract of a cursor\<close>

locale cursor_codec =
  fixes shw :: "'c \<Rightarrow> string"
    and from_str :: "string \<Rightarrow> cursor_parse_error + 'c"
  assumes roundtrip: "from_str (shw c) = Inr c"
    and error_input: "from_str s = Inl e \<Longrightarrow> ce_input e = s"
begin

lemma shw_inj: "shw a = shw b \<longleftrightarrow> a = b"
  by (metis roundtrip sum.inject(2))

text \<open>A client that sends back the cursor it was given is understood.\<close>

lemma parse_cursor_shw: "parse_cursor from_str \<lparr> pr_count = n, pr_cursor = Some (shw c) \<rparr> = Inr (Some c)"
  by (simp add: parse_cursor_def roundtrip)

lemma parse_cursor_total:
  "parse_cursor from_str req = Inr None \<longleftrightarrow> pr_cursor req = None"
  by (cases "pr_cursor req"; cases "from_str (the (pr_cursor req))") (auto simp: parse_cursor_def)

text \<open>A malformed cursor is a 400 that quotes the input, never the first page.\<close>

lemma parse_cursor_bad:
  assumes "pr_cursor req = Some s" "\<And>c. from_str s \<noteq> Inr c"
  shows "\<exists>expected. parse_cursor from_str req =
    Inl (BadRequest (show_cursor_error (cursor_err s expected)))"
proof -
  obtain e where e: "from_str s = Inl e" using assms(2) by (cases "from_str s") auto
  then have "e = cursor_err s (ce_expected e)"
    using error_input by (simp add: cursor_err_def)
  then have "parse_cursor from_str req =
      Inl (BadRequest (show_cursor_error (cursor_err s (ce_expected e))))"
    using e assms(1) by (simp add: parse_cursor_def)
  then show ?thesis by blast
qed

end

subsection \<open>Interpretations\<close>

lemma ce_input_cursor_err [simp]: "ce_input (cursor_err s x) = s"
  by (simp add: cursor_err_def)

lemma bind_ok_or_Inl_iff:
  "bind_r (ok_or x e) f = Inl e' \<longleftrightarrow> (x = None \<and> e' = e) \<or> (\<exists>a. x = Some a \<and> f a = Inl e')"
  by (cases x) auto

lemma map_ok_Inl_iff: "map_ok f m = Inl e \<longleftrightarrow> m = Inl e"
  by (cases m) auto

lemma ok_or_Inl_iff: "ok_or x e = Inl e' \<longleftrightarrow> x = None \<and> e' = e"
  by (cases x) auto

lemmas codec_simps = bind_ok_or_Inl_iff map_ok_Inl_iff ok_or_Inl_iff roundtrip_simps

lemma phase_roundtrip [roundtrip_simps]: "phase_from_letter (phase_letter k) = Some k"
  by (cases k) (simp_all add: phase_from_letter_def)

lemma phase_letter_not_dash [simp]: "phase_letter k \<noteq> CHR ''-''" "CHR ''-'' \<noteq> phase_letter k"
  by (cases k; simp)+

lemma splitn_3: "splitn 3 sep s = (case split_once sep s of None \<Rightarrow> [s]
    | Some (a, b) \<Rightarrow> a # (case split_once sep b of None \<Rightarrow> [b] | Some (c, d) \<Rightarrow> [c, d]))"
  by (simp add: numeral_3_eq_3 split: option.splits)

lemma splitn_3_show:
  assumes "sep \<notin> set a" "sep \<notin> set b"
  shows "splitn 3 sep (a @ sep # b @ sep # c) = [a, b, c]"
  using assms by (simp add: splitn_3)

interpretation block_codec: cursor_codec show_block_cursor block_cursor_from_str
  by unfold_locales
    (auto simp: show_block_cursor_def block_cursor_from_str_def codec_simps)

interpretation extrinsic_codec: cursor_codec show_extrinsic_cursor extrinsic_cursor_from_str
  by unfold_locales
    (auto simp: show_extrinsic_cursor_def extrinsic_cursor_from_str_def codec_simps)

interpretation transfer_codec: cursor_codec show_transfer_cursor transfer_cursor_from_str
  by unfold_locales
    (auto simp: show_transfer_cursor_def transfer_cursor_from_str_def codec_simps)

interpretation event_codec: cursor_codec show_event_cursor event_cursor_from_str
proof
  fix c
  show "event_cursor_from_str (show_event_cursor c) = Inr c"
    using splitn_3_show [of "CHR ''-''" "show_word (vc_block c)" "[phase_letter (vc_phase c)]"
        "show_word (vc_index c)"]
    by (simp add: event_cursor_from_str_def show_event_cursor_def roundtrip_simps)
next
  fix s e
  show "event_cursor_from_str s = Inl e \<Longrightarrow> ce_input e = s"
    by (auto simp: event_cursor_from_str_def Let_def codec_simps
        split: list.splits elim!: bind_r.elims)
qed

interpretation ats_codec: cursor_codec show_ats_cursor ats_cursor_from_str
  by unfold_locales (auto simp: show_ats_cursor_def ats_cursor_from_str_def codec_simps)

interpretation ats_feed_codec: cursor_codec show_ats_feed_cursor ats_feed_cursor_from_str
proof
  fix c
  show "ats_feed_cursor_from_str (show_ats_feed_cursor c) = Inr c"
    using splitn_3_show [of "CHR ''-''" "show_word (fc_block_num c)" "show_word (fc_ats_id c)"
        "show_word (fc_version c)"]
    by (simp add: ats_feed_cursor_from_str_def show_ats_feed_cursor_def roundtrip_simps)
next
  fix s e
  show "ats_feed_cursor_from_str s = Inl e \<Longrightarrow> ce_input e = s"
    by (auto simp: ats_feed_cursor_from_str_def codec_simps split: list.splits)
qed

section \<open>Properties\<close>

text \<open>C29: The cursor a page hands out is understood when the client sends it back, for each of the
  six paginated resources: parsing the printed cursor gives the cursor.\<close>

theorem cursors_roundtrip:
  "parse_cursor block_cursor_from_str \<lparr> pr_count = n, pr_cursor = Some (show_block_cursor c1) \<rparr> = Inr (Some c1) \<and>
   parse_cursor extrinsic_cursor_from_str \<lparr> pr_count = n, pr_cursor = Some (show_extrinsic_cursor c2) \<rparr> = Inr (Some c2) \<and>
   parse_cursor transfer_cursor_from_str \<lparr> pr_count = n, pr_cursor = Some (show_transfer_cursor c3) \<rparr> = Inr (Some c3) \<and>
   parse_cursor event_cursor_from_str \<lparr> pr_count = n, pr_cursor = Some (show_event_cursor c4) \<rparr> = Inr (Some c4) \<and>
   parse_cursor ats_cursor_from_str \<lparr> pr_count = n, pr_cursor = Some (show_ats_cursor c5) \<rparr> = Inr (Some c5) \<and>
   parse_cursor ats_feed_cursor_from_str \<lparr> pr_count = n, pr_cursor = Some (show_ats_feed_cursor c6) \<rparr> = Inr (Some c6)"
  by (intro conjI) (rule block_codec.parse_cursor_shw extrinsic_codec.parse_cursor_shw
      transfer_codec.parse_cursor_shw event_codec.parse_cursor_shw ats_codec.parse_cursor_shw
      ats_feed_codec.parse_cursor_shw)+

lemma extrinsic_cursor_from_str_iff:
  "extrinsic_cursor_from_str s = Inr c \<longleftrightarrow> (\<exists>b i. s = b @ ''-'' @ i \<and> CHR ''-'' \<notin> set b \<and>
     parse_word b = Some (ec_block c) \<and> parse_word i = Some (ec_index c))"
  by (cases c) (auto simp: extrinsic_cursor_from_str_def bind_r_Inr_iff split_once_Some_iff
      split: prod.splits)

lemma splitn_3_iff:
  "splitn 3 sep s = [a, b, c] \<longleftrightarrow> s = a @ sep # b @ sep # c \<and> sep \<notin> set a \<and> sep \<notin> set b"
proof
  show "splitn 3 sep s = [a, b, c] \<Longrightarrow> s = a @ sep # b @ sep # c \<and> sep \<notin> set a \<and> sep \<notin> set b"
    unfolding splitn_3
    by (cases "split_once sep s") (auto simp: split_once_Some_iff split: option.splits)
qed (auto simp: splitn_3_show)

lemma event_cursor_from_str_iff:
  "event_cursor_from_str s = Inr c \<longleftrightarrow>
     (\<exists>b i. s = b @ ''-'' @ [phase_letter (vc_phase c)] @ ''-'' @ i \<and> CHR ''-'' \<notin> set b \<and>
     parse_word b = Some (vc_block c) \<and> parse_word i = Some (vc_index c))"
  (is "?l \<longleftrightarrow> ?r")
proof
  assume ?l
  then obtain b p i where sp: "splitn 3 CHR ''-'' s = [b, [p], i]" and
    r: "parse_word b = Some (vc_block c)" "phase_from_letter p = Some (vc_phase c)"
       "parse_word i = Some (vc_index c)"
    by (cases c)
      (auto simp: event_cursor_from_str_def Let_def bind_r_Inr_iff split: list.splits)
  moreover have "p = phase_letter (vc_phase c)"
    using r(2) by (auto simp: phase_from_letter_def split: if_splits)
  ultimately show ?r by (auto simp: splitn_3_iff)
next
  assume ?r
  then obtain b i where s: "s = b @ CHR ''-'' # [phase_letter (vc_phase c)] @ CHR ''-'' # i"
    and "CHR ''-'' \<notin> set b" "parse_word b = Some (vc_block c)" "parse_word i = Some (vc_index c)"
    by auto
  moreover from this have "splitn 3 CHR ''-'' s = [b, [phase_letter (vc_phase c)], i]"
    unfolding splitn_3_iff by simp
  ultimately show ?l by (simp add: event_cursor_from_str_def phase_roundtrip)
qed

lemma event_cursor_from_str_Inl:
  "event_cursor_from_str s = Inl e \<Longrightarrow> e = cursor_err s ''<block>-<phase>-<idx> with phase in I|A|F''"
  by (auto simp: event_cursor_from_str_def Let_def codec_simps
      split: list.splits elim!: bind_r.elims)


end
