(* ===== verification/Filters.thy ===== *)
theory Filters
  imports Domain
begin

text \<open>
  The query filters of \<^verbatim>\<open>src/data/filters.rs\<close>: the four filter structs with optional fields, the
  lenient reader of the \<^verbatim>\<open>status\<close> parameter, and the in-memory predicates that the pending and
  fallback paths share. Each predicate is the conjunction of its populated fields
  (\<^verbatim>\<open>matches_iff\<close>).
\<close>

section \<open>Filter structs\<close>

record block_filters =
  bf_finalized :: "bool option"
  bf_min_extrinsics :: "u32 option"

record extrinsic_filters =
  xf_signed :: "bool option"
  xf_pallet :: "string option"
  xf_call :: "string option"
  xf_status :: "call_result option"

record transfer_filters =
  tf_from :: "string option"
  tf_to :: "string option"

record event_filters =
  vf_pallet :: "string option"
  vf_variant :: "string option"

text \<open>The \<^verbatim>\<open>Default\<close> values: no field populated.\<close>

definition no_block_filters :: block_filters where
  "no_block_filters = \<lparr> bf_finalized = None, bf_min_extrinsics = None \<rparr>"

definition no_extrinsic_filters :: extrinsic_filters where
  "no_extrinsic_filters =
     \<lparr> xf_signed = None, xf_pallet = None, xf_call = None, xf_status = None \<rparr>"

definition no_transfer_filters :: transfer_filters where
  "no_transfer_filters = \<lparr> tf_from = None, tf_to = None \<rparr>"

definition no_event_filters :: event_filters where
  "no_event_filters = \<lparr> vf_pallet = None, vf_variant = None \<rparr>"

text \<open>The reader of the \<^verbatim>\<open>status\<close> query parameter; the error is the text of the response.\<close>

definition deserialize_call_result_opt :: "string option \<Rightarrow> string + call_result option" where
  "deserialize_call_result_opt raw = (case raw of
       None \<Rightarrow> Inr None
     | Some s \<Rightarrow>
         if s = [] then Inr None
         else if eq_ignore_ascii_case s ''success'' then Inr (Some Success)
         else if eq_ignore_ascii_case s ''failed'' then Inr (Some Failed)
         else Inl (''invalid status '' @ [CHR 0x27] @ s @ [CHR 0x27] @ '', expected '' @ [CHR 0x27]
           @ ''success'' @ [CHR 0x27] @ '' or '' @ [CHR 0x27] @ ''failed'' @ [CHR 0x27]))"

section \<open>In-memory predicates\<close>

text \<open>Every predicate is a chain of early returns, one per populated field.\<close>

definition block_matches_filters :: "block \<Rightarrow> block_filters \<Rightarrow> bool" where
  "block_matches_filters b f =
     (if (case bf_finalized f of Some finalized \<Rightarrow> bk_finalized b \<noteq> finalized | None \<Rightarrow> False)
      then False
      else if (case bf_min_extrinsics f of Some m \<Rightarrow> bk_extrinsic_count b < m | None \<Rightarrow> False)
      then False
      else True)"

definition extrinsic_matches_filters :: "extrinsic \<Rightarrow> extrinsic_filters \<Rightarrow> bool" where
  "extrinsic_matches_filters x f =
     (if (case xf_signed f of Some sg \<Rightarrow> xt_signed x \<noteq> sg | None \<Rightarrow> False) then False
      else if (case xf_pallet f of Some p \<Rightarrow> xt_module x \<noteq> p | None \<Rightarrow> False) then False
      else if (case xf_call f of Some c \<Rightarrow> xt_call x \<noteq> c | None \<Rightarrow> False) then False
      else if (case xf_status f of Some st \<Rightarrow> xt_result x \<noteq> st | None \<Rightarrow> False) then False
      else True)"

definition transfer_matches_filters :: "transfer \<Rightarrow> transfer_filters \<Rightarrow> bool" where
  "transfer_matches_filters t f =
     (if (case tf_from f of Some a \<Rightarrow> tr_from t \<noteq> a | None \<Rightarrow> False) then False
      else if (case tf_to f of Some a \<Rightarrow> tr_to t \<noteq> a | None \<Rightarrow> False) then False
      else True)"

definition event_matches_filters :: "block_event \<Rightarrow> event_filters \<Rightarrow> bool" where
  "event_matches_filters e f =
     (if (case vf_pallet f of Some p \<Rightarrow> be_module e \<noteq> p | None \<Rightarrow> False) then False
      else if (case vf_variant f of Some v \<Rightarrow> be_name e \<noteq> v | None \<Rightarrow> False) then False
      else True)"

section \<open>Lemmas\<close>

lemma block_matches_iff:
  "block_matches_filters b f \<longleftrightarrow>
     (\<forall>v. bf_finalized f = Some v \<longrightarrow> bk_finalized b = v) \<and>
     (\<forall>m. bf_min_extrinsics f = Some m \<longrightarrow> m \<le> bk_extrinsic_count b)"
  by (auto simp: block_matches_filters_def not_less split: option.splits)

lemma extrinsic_matches_iff:
  "extrinsic_matches_filters x f \<longleftrightarrow>
     (\<forall>v. xf_signed f = Some v \<longrightarrow> xt_signed x = v) \<and>
     (\<forall>v. xf_pallet f = Some v \<longrightarrow> xt_module x = v) \<and>
     (\<forall>v. xf_call f = Some v \<longrightarrow> xt_call x = v) \<and>
     (\<forall>v. xf_status f = Some v \<longrightarrow> xt_result x = v)"
  by (auto simp: extrinsic_matches_filters_def split: option.splits)

lemma transfer_matches_iff:
  "transfer_matches_filters t f \<longleftrightarrow>
     (\<forall>v. tf_from f = Some v \<longrightarrow> tr_from t = v) \<and> (\<forall>v. tf_to f = Some v \<longrightarrow> tr_to t = v)"
  by (auto simp: transfer_matches_filters_def split: option.splits)

lemma event_matches_iff:
  "event_matches_filters e f \<longleftrightarrow>
     (\<forall>v. vf_pallet f = Some v \<longrightarrow> be_module e = v) \<and>
     (\<forall>v. vf_variant f = Some v \<longrightarrow> be_name e = v)"
  by (auto simp: event_matches_filters_def split: option.splits)

lemmas matches_iff =
  block_matches_iff extrinsic_matches_iff transfer_matches_iff event_matches_iff

lemma no_filters_match [simp]:
  "block_matches_filters b no_block_filters"
  "extrinsic_matches_filters x no_extrinsic_filters"
  "transfer_matches_filters t no_transfer_filters"
  "event_matches_filters e no_event_filters"
  by (simp_all add: matches_iff no_block_filters_def no_extrinsic_filters_def
      no_transfer_filters_def no_event_filters_def)

text \<open>A status accepted in the lower-case form of the URL is the result it names.\<close>

lemma deserialize_status_roundtrip [roundtrip_simps]:
  "deserialize_call_result_opt (Some (call_result_as_str r)) = Inr (Some r)"
  by (cases r; simp add: deserialize_call_result_opt_def; code_simp)

end
