(* ===== verification/Merge.thy ===== *)
theory Merge
  imports Domain
begin

text \<open>
  The merge of live and seeded list items of \<^verbatim>\<open>src/live/merge.rs\<close>. The trait \<^verbatim>\<open>LiveItem\<close> is the
  key function its instances give.
\<close>

definition block_dedup_key :: "block \<Rightarrow> u64" where
  "block_dedup_key b = bk_number b"

definition transfer_dedup_key :: "transfer \<Rightarrow> string" where
  "transfer_dedup_key t = xt_id (tr_extrinsic t)"

definition ats_feed_dedup_key :: "ats_feed_item \<Rightarrow> u32 \<times> u32" where
  "ats_feed_dedup_key i = (fi_ats_id i, fi_version_index i)"

text \<open>The loop, with its two accumulators; the cap is tested after the push.\<close>

fun merge_loop :: "('a \<Rightarrow> 'k) \<Rightarrow> nat \<Rightarrow> 'k list \<Rightarrow> 'a list \<Rightarrow> 'a list \<Rightarrow> 'a list" where
  "merge_loop key limit keys out [] = out"
| "merge_loop key limit keys out (item # items) =
     (if key item \<in> set keys then merge_loop key limit keys out items
      else let out' = out @ [item] in
        if length out' \<ge> limit then out'
        else merge_loop key limit (keys @ [key item]) out' items)"

definition merge_live :: "('a \<Rightarrow> 'k) \<Rightarrow> 'a list \<Rightarrow> 'a list \<Rightarrow> nat \<Rightarrow> 'a list" where
  "merge_live key live initial limit = merge_loop key limit [] [] (live @ initial)"

section \<open>Reference: keep the first item of every key, then cut\<close>

fun first_per_key :: "('a \<Rightarrow> 'k) \<Rightarrow> 'k set \<Rightarrow> 'a list \<Rightarrow> 'a list" where
  "first_per_key key K [] = []"
| "first_per_key key K (x # xs) =
     (if key x \<in> K then first_per_key key K xs else x # first_per_key key (insert (key x) K) xs)"

lemma set_first_per_key: "set (first_per_key key K xs) \<subseteq> {x \<in> set xs. key x \<notin> K}"
  by (induction key K xs rule: first_per_key.induct) auto

lemma distinct_first_per_key: "distinct (map key (first_per_key key K xs))"
  by (induction key K xs rule: first_per_key.induct) (use set_first_per_key in fastforce)+

lemma keys_first_per_key: "key ` set (first_per_key key K xs) = key ` set xs - K"
  by (induction key K xs rule: first_per_key.induct) auto

lemma subseq_first_per_key: "subseq (first_per_key key K xs) xs"
  by (induction key K xs rule: first_per_key.induct) auto

lemma first_per_key_append:
  "first_per_key key K (xs @ ys) =
     first_per_key key K xs @ first_per_key key (K \<union> key ` set xs) ys"
  by (induction key K xs rule: first_per_key.induct) (auto simp: insert_absorb Un_insert_left)

lemma first_per_key_id: "distinct (map key xs) \<Longrightarrow> key ` set xs \<inter> K = {} \<Longrightarrow> first_per_key key K xs = xs"
  by (induction key K xs rule: first_per_key.induct) auto

lemma find_first_per_key:
  "k \<notin> K \<Longrightarrow> List.find (\<lambda>x. key x = k) (first_per_key key K xs) = List.find (\<lambda>x. key x = k) xs"
  by (induction key K xs rule: first_per_key.induct) auto

lemma find_take_Some: "List.find P (take n xs) = Some x \<Longrightarrow> List.find P xs = Some x"
  by (induction xs arbitrary: n) (auto simp: take_Cons' split: if_splits)

lemma merge_loop_eq:
  "length out < limit \<Longrightarrow>
   merge_loop key limit keys out xs = out @ take (limit - length out) (first_per_key key (set keys) xs)"
  by (induction key limit keys out xs rule: merge_loop.induct)
    (auto simp: Let_def not_le take_Cons' Suc_diff_Suc)

lemma merge_loop_zero: "merge_loop key 0 [] [] xs = take 1 (first_per_key key {} xs)"
  by (cases xs) (simp_all add: Let_def)

lemma merge_live_eq:
  "merge_live key live initial limit = take (max 1 limit) (first_per_key key {} (live @ initial))"
  using merge_loop_eq [of "[]" limit key "[]"] merge_loop_zero
  by (cases "limit = 0") (auto simp: merge_live_def max_def)

text \<open>The cap is tested after the push, so the limit 0 still lets one item through.\<close>

lemma merge_live_limit_zero: "merge_live key (x # live) initial 0 = [x]"
  by (simp add: merge_live_def Let_def)

section \<open>Properties\<close>



end
