(* ===== verification/Ss58.thy ===== *)
theory Ss58
  imports Prelude
begin

text \<open>
  Addresses and hex strings: \<^verbatim>\<open>src/data/ss58.rs\<close>. The blake2b-512 hash, the base58 alphabet and
  the hex decoder are third-party crates, so they are parameters: \<^verbatim>\<open>blake2b512\<close> maps a byte
  string to its digest, \<^verbatim>\<open>to_base58\<close> to its text, and \<^verbatim>\<open>hex_to_32\<close> is the call
  \<^verbatim>\<open>hex::decode_to_slice\<close> into a 32-byte buffer.
\<close>

definition checksum_prefix :: bytes where
  "checksum_prefix = map (\<lambda>c. word_of_nat (of_char c)) ''SS58PRE''"

definition checksum_len :: nat where
  "checksum_len = 2"

unbundle bit_operations_syntax

definition encode_prefix :: "u16 \<Rightarrow> bytes" where
  "encode_prefix pfx =
     (if pfx < 64 then [ucast pfx]
      else let p = pfx AND 0x3fff;
               first = ucast (drop_bit 2 (p AND 0x00fc)) OR (0x40 :: u8);
               second = ucast (drop_bit 8 p) OR push_bit 6 (ucast (p AND 0x0003) :: u8)
           in [first, second])"

text \<open>The reading of the SS58 specification: the discriminator bit of the first byte tells how
  many bytes the prefix takes.\<close>

definition decode_prefix :: "bytes \<Rightarrow> u16 option" where
  "decode_prefix bs = (case bs of
       [b] \<Rightarrow> if b < 64 then Some (ucast b) else None
     | [b, c] \<Rightarrow> if b AND 0xC0 = 0x40
         then Some (push_bit 2 (ucast (b AND 0x3f)) OR ucast (drop_bit 6 c)
                    OR push_bit 8 (ucast (c AND 0x3f)))
         else None
     | _ \<Rightarrow> None)"

definition encode_ss58 :: "(bytes \<Rightarrow> bytes) \<Rightarrow> (bytes \<Rightarrow> string) \<Rightarrow> bytes \<Rightarrow> u16 \<Rightarrow> string" where
  "encode_ss58 blake2b512 to_base58 account_bytes pfx =
     (let buf = encode_prefix pfx @ account_bytes;
          checksum = blake2b512 (checksum_prefix @ buf)
      in to_base58 (buf @ take checksum_len checksum))"

definition encode_ss58_bytes ::
  "(bytes \<Rightarrow> bytes) \<Rightarrow> (bytes \<Rightarrow> string) \<Rightarrow> bytes \<Rightarrow> u16 \<Rightarrow> string option" where
  "encode_ss58_bytes blake2b512 to_base58 account_bytes pfx =
     (if length account_bytes \<noteq> 32 then None
      else Some (encode_ss58 blake2b512 to_base58 account_bytes pfx))"

text \<open>The ellipsis is one character, three bytes of UTF-8.\<close>

definition ellipsis :: string where
  "ellipsis = [CHR 0xE2, CHR 0x80, CHR 0xA6]"

definition short_label :: "string \<Rightarrow> string" where
  "short_label ss58 =
     (let cs = utf8_chars ss58 in
      if length cs \<le> 12 then ss58
      else let hd_part = concat (take 6 cs);
               tl_part = concat (rev (take 4 (rev cs)))
           in hd_part @ ellipsis @ tl_part)"

definition strip_0x :: "string \<Rightarrow> string" where
  "strip_0x s = (case s of a # b # r \<Rightarrow> if a = CHR ''0'' \<and> b = CHR ''x'' then r else s | _ \<Rightarrow> s)"

definition decode_hex32 :: "(string \<Rightarrow> bytes option) \<Rightarrow> string \<Rightarrow> bytes option" where
  "decode_hex32 hex_to_32 s = hex_to_32 (strip_0x s)"

section \<open>Lemmas\<close>

lemma strip_0x_prefixed [simp]: "strip_0x (''0x'' @ s) = s"
  by (simp add: strip_0x_def)

lemma bit_less_exp:
  assumes "unat p < 2 ^ k" "bit (p :: 'a::len word) n"
  shows "n < k"
proof (cases "LENGTH('a) \<le> k")
  case False
  have "take_bit k p = p"
    using assms(1) by (metis take_bit_nat_eq_self unsigned_take_bit_eq unsigned_word_eqI)
  with assms(2) show ?thesis by (metis bit_take_bit_iff)
next
  case True
  then show ?thesis using assms(2) by (meson bit_imp_le_length less_le_trans)
qed

lemma all_less_16: "(\<forall>n<16::nat. P n) \<longleftrightarrow> P 15 \<and> P 14 \<and> P 13 \<and> P 12 \<and> P 11 \<and> P 10 \<and> P 9 \<and> P 8 \<and>
    P 7 \<and> P 6 \<and> P 5 \<and> P 4 \<and> P 3 \<and> P 2 \<and> P 1 \<and> P 0"
  by (simp add: numeral_eq_Suc All_less_Suc)

lemma all_less_8: "(\<forall>n<8::nat. P n) \<longleftrightarrow>
    P 7 \<and> P 6 \<and> P 5 \<and> P 4 \<and> P 3 \<and> P 2 \<and> P 1 \<and> P 0"
  by (simp add: numeral_eq_Suc All_less_Suc)

lemma prefix_masks:
  "(0x3fff :: u16) = mask 14" "(0x3f :: u8) = mask 6" "(0x3 :: u16) = mask 2"
  "(0xfc :: u16) = push_bit 2 (mask 6)" "(0x40 :: u8) = push_bit 6 1"
  "(0xC0 :: u8) = push_bit 6 (mask 2)"
  by (simp_all add: mask_eq_exp_minus_1)

lemma two_byte_prefix:
  fixes p :: u16
  assumes "unat p < 2 ^ 14"
  defines "b \<equiv> ucast (drop_bit 2 (p AND 0x00fc)) OR (0x40 :: u8)"
    and "c \<equiv> ucast (drop_bit 8 p) OR push_bit 6 (ucast (p AND 0x0003) :: u8)"
  shows "push_bit 2 (ucast (b AND 0x3f)) OR ucast (drop_bit 6 c)
      OR push_bit 8 (ucast (c AND 0x3f)) = p"
    and "b AND 0xC0 = 0x40"
    and "p AND 0x3fff = p"
proof -
  have n: "\<not> bit p 14" "\<not> bit p 15" using bit_less_exp [OF assms(1)] by force+
  have "\<forall>n<16. bit (push_bit 2 (ucast (b AND 0x3f)) OR ucast (drop_bit 6 c)
      OR push_bit 8 (ucast (c AND 0x3f)) :: u16) n = bit p n"
    unfolding all_less_16 b_def c_def prefix_masks using n by (simp add: bit_simps bit_1_iff)
  then show "push_bit 2 (ucast (b AND 0x3f)) OR ucast (drop_bit 6 c)
      OR push_bit 8 (ucast (c AND 0x3f)) = p" by (intro bit_word_eqI) auto
  have "\<forall>n<8. bit (b AND 0xC0) n = bit (0x40 :: u8) n"
    unfolding all_less_8 b_def prefix_masks by (simp add: bit_simps bit_1_iff)
  then show "b AND 0xC0 = 0x40" by (intro bit_word_eqI) auto
  show "p AND 0x3fff = p" unfolding prefix_masks
    by (rule bit_word_eqI) (auto simp: bit_simps dest: bit_less_exp [OF assms(1)])
qed

text \<open>Every legal prefix is read back.\<close>

lemma decode_encode_prefix [roundtrip_simps]:
  assumes "p < 16384"
  shows "decode_prefix (encode_prefix p) = Some p"
proof (cases "p < 64")
  case True
  have "(ucast p :: u8) < 64"
    using True by (simp add: word_less_nat_alt unsigned_ucast_eq take_bit_nat_eq_self)
  moreover have "ucast (ucast p :: u8) = p"
    using bit_less_exp [of p 6] True
    by (intro bit_word_eqI) (force simp: bit_simps word_less_nat_alt)
  ultimately show ?thesis using True by (simp add: encode_prefix_def decode_prefix_def)
next
  case False
  have "unat p < 2 ^ 14" using assms by (simp add: word_less_nat_alt)
  from two_byte_prefix [OF this] False show ?thesis
    by (simp add: encode_prefix_def decode_prefix_def Let_def)
qed

lemma length_encode_prefix: "length (encode_prefix p) = (if p < 64 then 1 else 2)"
  by (simp add: encode_prefix_def Let_def)

lemma encode_prefix_inj:
  "p < 16384 \<Longrightarrow> q < 16384 \<Longrightarrow> encode_prefix p = encode_prefix q \<Longrightarrow> p = q"
  by (metis decode_encode_prefix option.inject)


text \<open>The encoder as a function of a body of fixed length: equal addresses have equal prefixes and
  equal account bytes.\<close>

lemma encode_ss58_inj:
  assumes inj: "inj to_base58" and dig: "\<And>x. length (blake2b512 x) = 64"
    and len: "length a = 32" "length a' = 32"
    and pfx: "p < 16384" "p' < 16384"
    and eq: "encode_ss58 blake2b512 to_base58 a p = encode_ss58 blake2b512 to_base58 a' p'"
  shows "a = a' \<and> p = p'"
proof -
  let ?t = "\<lambda>a p. take 2 (blake2b512 (checksum_prefix @ encode_prefix p @ a))"
  have "(encode_prefix p @ a) @ ?t a p = (encode_prefix p' @ a') @ ?t a' p'"
    using eq inj by (simp add: encode_ss58_def checksum_len_def Let_def inj_eq)
  moreover have "length (?t a p) = length (?t a' p')" by (simp add: dig)
  ultimately have *: "encode_prefix p @ a = encode_prefix p' @ a'"
    using append_eq_append_conv by blast
  have "length (encode_prefix p) = length (encode_prefix p')"
    using arg_cong [OF *, of length] len by simp
  with * have "encode_prefix p = encode_prefix p'" "a = a'" by auto
  then show ?thesis using encode_prefix_inj pfx by blast
qed

text \<open>The label of a long ASCII address has eleven characters.\<close>

lemma short_label_short: "length (utf8_chars s) \<le> 12 \<Longrightarrow> short_label s = s"
  by (simp add: short_label_def)

section \<open>Properties\<close>

text \<open>Two accounts on two networks have the same address only if they are the same account on
  the same network, for every prefix the specification allows: the encoder is injective, given that
  base58 is and that a blake2b-512 digest has 64 bytes.\<close>

theorem encode_ss58_injective:
  assumes "inj to_base58" and "\<And>x. length (blake2b512 x) = 64"
    and "length a = 32" "length a' = 32" and "p < 16384" "p' < 16384"
  shows "encode_ss58 blake2b512 to_base58 a p = encode_ss58 blake2b512 to_base58 a' p'
    \<longleftrightarrow> a = a' \<and> p = p'"
  using encode_ss58_inj [of to_base58 blake2b512 a a' p p', OF assms] by blast

lemma encode_ss58_injective_witness:
  "encode_ss58 (\<lambda>x. replicate 64 0) (map (\<lambda>b. char_of (unat b))) (replicate 32 1) 42
   \<noteq> encode_ss58 (\<lambda>x. replicate 64 0) (map (\<lambda>b. char_of (unat b))) (replicate 32 1) 440"
proof -
  have "inj (\<lambda>b :: u8. char_of (unat b) :: char)"
  proof (rule injI)
    fix x y :: u8
    assume "char_of (unat x) = (char_of (unat y) :: char)"
    from arg_cong [OF this, of "of_char :: char \<Rightarrow> nat"] have "unat x mod 256 = unat y mod 256"
      by simp
    moreover have "unat z < 2 ^ LENGTH(8)" for z :: u8 by (rule unsigned_less)
    ultimately have "unat x = unat y" by simp
    then show "x = y" by (rule unsigned_word_eqI)
  qed
  then have "inj (map (\<lambda>b :: u8. char_of (unat b) :: char))" by simp
  from encode_ss58_injective [OF this, of "\<lambda>x. replicate 64 0" "replicate 32 1" "replicate 32 1" 42 440]
  show ?thesis by simp
qed

end
