(* ===== verification/Buffer.thy ===== *)
theory Buffer
  imports Domain Ss58
begin

text \<open>
  The ring buffer of not yet finalized blocks: \<^verbatim>\<open>src/indexer/buffer.rs\<close>. The state keeps the
  blocks oldest first and two derived indexes, exactly as the struct does; what the broadcast
  channel was given is the list \<^verbatim>\<open>pb_sent\<close>. Metrics are not modelled. The hex decoder is the
  parameter \<^verbatim>\<open>hx\<close> of \<^verbatim>\<open>Ss58\<close>.
\<close>

definition buffer_capacity :: nat where
  "buffer_capacity = 64"

record buffered_block =
  bb_number :: u64
  bb_hash :: bytes
  bb_extrinsics :: "extrinsic list"
  bb_transfers :: "transfer list"

record pending_buffer =
  pb_network_id :: string
  pb_blocks :: "buffered_block list"
  pb_by_number :: "u64 \<rightharpoonup> nat"
  pb_by_xt_hash :: "bytes \<rightharpoonup> u64 \<times> u32"
  pb_finalized_head :: u64
  pb_sent :: "transfer list"

text \<open>\<^verbatim>\<open>with_capacity\<close> uses its capacity for the allocation only.\<close>

definition buffer_with_capacity :: "string \<Rightarrow> nat \<Rightarrow> pending_buffer" where
  "buffer_with_capacity network_id cap = \<lparr> pb_network_id = network_id, pb_blocks = [],
     pb_by_number = Map.empty, pb_by_xt_hash = Map.empty, pb_finalized_head = 0, pb_sent = [] \<rparr>"

definition buffer_new :: "string \<Rightarrow> pending_buffer" where
  "buffer_new network_id = buffer_with_capacity network_id buffer_capacity"

definition best_head :: "pending_buffer \<Rightarrow> u64 option" where
  "best_head b = (case rev (pb_blocks b) of [] \<Rightarrow> None | x # _ \<Rightarrow> Some (bb_number x))"

text \<open>The two loops that fill an index from the blocks.\<close>

fun index_positions :: "nat \<Rightarrow> (u64 \<rightharpoonup> nat) \<Rightarrow> buffered_block list \<Rightarrow> (u64 \<rightharpoonup> nat)" where
  "index_positions i m [] = m"
| "index_positions i m (b # bs) = index_positions (Suc i) (m(bb_number b \<mapsto> i)) bs"

fun insert_xts ::
  "(string \<Rightarrow> bytes option) \<Rightarrow> u64 \<Rightarrow> (bytes \<rightharpoonup> u64 \<times> u32) \<Rightarrow> extrinsic list \<Rightarrow> (bytes \<rightharpoonup> u64 \<times> u32)"
where
  "insert_xts hx num m [] = m"
| "insert_xts hx num m (x # xs) = insert_xts hx num
     (case decode_hex32 hx (xt_hash x) of None \<Rightarrow> m | Some h \<Rightarrow> m(h \<mapsto> (num, xt_index x))) xs"

definition reindex_positions :: "pending_buffer \<Rightarrow> pending_buffer" where
  "reindex_positions b = b\<lparr> pb_by_number := index_positions 0 Map.empty (pb_blocks b) \<rparr>"

definition rebuild_xt_index :: "(string \<Rightarrow> bytes option) \<Rightarrow> pending_buffer \<Rightarrow> pending_buffer" where
  "rebuild_xt_index hx b = b\<lparr> pb_by_xt_hash :=
     foldl (\<lambda>m bl. insert_xts hx (bb_number bl) m (bb_extrinsics bl)) Map.empty (pb_blocks b) \<rparr>"

definition append_block ::
  "(string \<Rightarrow> bytes option) \<Rightarrow> buffered_block \<Rightarrow> pending_buffer \<Rightarrow> pending_buffer" where
  "append_block hx bl b0 =
     (let b = (if length (pb_blocks b0) = buffer_capacity then
                 (case pb_blocks b0 of [] \<Rightarrow> b0
                  | evicted # rest \<Rightarrow> rebuild_xt_index hx (reindex_positions
                      (b0\<lparr> pb_blocks := rest,
                           pb_by_number := (pb_by_number b0)(bb_number evicted := None) \<rparr>)))
               else b0);
          pos = length (pb_blocks b)
      in b\<lparr> pb_by_xt_hash := insert_xts hx (bb_number bl) (pb_by_xt_hash b) (bb_extrinsics bl),
            pb_sent := pb_sent b @ bb_transfers bl,
            pb_by_number := (pb_by_number b)(bb_number bl \<mapsto> pos),
            pb_blocks := pb_blocks b @ [bl] \<rparr>)"

fun pop_finalized ::
  "u64 \<Rightarrow> buffered_block list \<Rightarrow> (u64 \<rightharpoonup> nat) \<Rightarrow> buffered_block list \<times> (u64 \<rightharpoonup> nat)" where
  "pop_finalized up_to [] m = ([], m)"
| "pop_finalized up_to (front # bs) m =
     (if bb_number front \<le> up_to then pop_finalized up_to bs (m(bb_number front := None))
      else (front # bs, m))"

definition advance_finalized ::
  "(string \<Rightarrow> bytes option) \<Rightarrow> u64 \<Rightarrow> pending_buffer \<Rightarrow> pending_buffer" where
  "advance_finalized hx up_to b =
     (let (bs, m) = pop_finalized up_to (pb_blocks b) (pb_by_number b)
      in rebuild_xt_index hx (reindex_positions
        (b\<lparr> pb_finalized_head := max (pb_finalized_head b) up_to,
            pb_blocks := bs, pb_by_number := m \<rparr>)))"

definition extrinsic_by_block_idx :: "pending_buffer \<Rightarrow> u64 \<Rightarrow> u32 \<Rightarrow> extrinsic option" where
  "extrinsic_by_block_idx b block_num idx =
     Option.bind (pb_by_number b block_num) (\<lambda>pos.
       if pos < length (pb_blocks b)
       then List.find (\<lambda>e. xt_index e = idx) (bb_extrinsics (pb_blocks b ! pos)) else None)"

definition extrinsic_by_hash :: "pending_buffer \<Rightarrow> bytes \<Rightarrow> extrinsic option" where
  "extrinsic_by_hash b h =
     Option.bind (pb_by_xt_hash b h) (\<lambda>(block_num, idx). extrinsic_by_block_idx b block_num idx)"

definition iter_blocks_newest_first :: "pending_buffer \<Rightarrow> buffered_block list" where
  "iter_blocks_newest_first b = rev (pb_blocks b)"

definition buffer_len :: "pending_buffer \<Rightarrow> nat" where
  "buffer_len b = length (pb_blocks b)"

definition buffer_is_empty :: "pending_buffer \<Rightarrow> bool" where
  "buffer_is_empty b = (pb_blocks b = [])"

section \<open>The indexes as functions of the blocks\<close>

definition number_index :: "buffered_block list \<Rightarrow> (u64 \<rightharpoonup> nat)" where
  "number_index bs = index_positions 0 Map.empty bs"

definition xt_hash_index :: "(string \<Rightarrow> bytes option) \<Rightarrow> buffered_block list \<Rightarrow> (bytes \<rightharpoonup> u64 \<times> u32)" where
  "xt_hash_index hx bs =
     foldl (\<lambda>m bl. insert_xts hx (bb_number bl) m (bb_extrinsics bl)) Map.empty bs"

text \<open>The invariant: both indexes are those of the blocks, which fit the capacity.\<close>

definition buffer_inv :: "(string \<Rightarrow> bytes option) \<Rightarrow> pending_buffer \<Rightarrow> bool" where
  "buffer_inv hx b \<longleftrightarrow> pb_by_number b = number_index (pb_blocks b) \<and>
     pb_by_xt_hash b = xt_hash_index hx (pb_blocks b) \<and> length (pb_blocks b) \<le> buffer_capacity"

lemma index_positions_append:
  "index_positions i m (xs @ ys) = index_positions (i + length xs) (index_positions i m xs) ys"
  by (induction xs arbitrary: i m) auto

lemma number_index_snoc: "number_index (bs @ [b]) = (number_index bs)(bb_number b \<mapsto> length bs)"
  by (simp add: number_index_def index_positions_append)

lemma number_index_single: "(number_index [])(bb_number b \<mapsto> 0) = number_index [b]"
  by (simp add: number_index_def)

lemma xt_hash_index_snoc:
  "xt_hash_index hx (bs @ [b]) = insert_xts hx (bb_number b) (xt_hash_index hx bs) (bb_extrinsics b)"
  by (simp add: xt_hash_index_def)

lemma xt_hash_index_single:
  "insert_xts hx (bb_number b) (xt_hash_index hx []) (bb_extrinsics b) = xt_hash_index hx [b]"
  by (simp add: xt_hash_index_def)

lemma pop_finalized_blocks:
  "fst (pop_finalized u bs m) = dropWhile (\<lambda>b. bb_number b \<le> u) bs"
  by (induction bs arbitrary: m) auto

text \<open>The two operations on the abstract buffer, the list of blocks.\<close>

definition push_capped :: "buffered_block \<Rightarrow> buffered_block list \<Rightarrow> buffered_block list" where
  "push_capped bl bs = (if length bs = buffer_capacity then tl bs else bs) @ [bl]"

lemma append_block_blocks [simp]: "pb_blocks (append_block hx bl b) = push_capped bl (pb_blocks b)"
  by (auto simp: append_block_def push_capped_def Let_def rebuild_xt_index_def
      reindex_positions_def split: list.splits)

lemma advance_finalized_blocks [simp]:
  "pb_blocks (advance_finalized hx u b) = dropWhile (\<lambda>x. bb_number x \<le> u) (pb_blocks b)"
  using pop_finalized_blocks [of u "pb_blocks b" "pb_by_number b"]
  by (cases "pop_finalized u (pb_blocks b) (pb_by_number b)")
    (simp add: advance_finalized_def rebuild_xt_index_def reindex_positions_def)

lemma append_block_inv [inv_intros]: "buffer_inv hx b \<Longrightarrow> buffer_inv hx (append_block hx bl b)"
  by (cases "pb_blocks b")
    (auto simp: buffer_inv_def append_block_def Let_def rebuild_xt_index_def reindex_positions_def
      number_index_snoc xt_hash_index_snoc number_index_single xt_hash_index_single
      buffer_capacity_def
      simp flip: number_index_def xt_hash_index_def)

lemma advance_finalized_inv [inv_intros]:
  "buffer_inv hx b \<Longrightarrow> buffer_inv hx (advance_finalized hx u b)"
proof -
  assume inv: "buffer_inv hx b"
  have "length (dropWhile (\<lambda>x. bb_number x \<le> u) (pb_blocks b)) \<le> length (pb_blocks b)"
    by (rule length_dropWhile_le)
  moreover have "pb_by_number (advance_finalized hx u b) = number_index (pb_blocks (advance_finalized hx u b))"
    "pb_by_xt_hash (advance_finalized hx u b) = xt_hash_index hx (pb_blocks (advance_finalized hx u b))"
    by (simp_all add: advance_finalized_def rebuild_xt_index_def reindex_positions_def
        number_index_def xt_hash_index_def split: prod.splits)
  ultimately show ?thesis using inv by (simp add: buffer_inv_def)
qed

lemma buffer_new_inv [inv_intros]: "buffer_inv hx (buffer_new n)"
  by (simp add: buffer_inv_def buffer_new_def buffer_with_capacity_def number_index_def xt_hash_index_def)

text \<open>The buffers that the producers can build.\<close>

inductive buffer_reach :: "(string \<Rightarrow> bytes option) \<Rightarrow> pending_buffer \<Rightarrow> bool" for hx where
  reach_new: "buffer_reach hx (buffer_new n)"
| reach_append: "buffer_reach hx b \<Longrightarrow> buffer_reach hx (append_block hx bl b)"
| reach_advance: "buffer_reach hx b \<Longrightarrow> buffer_reach hx (advance_finalized hx u b)"

lemma buffer_reach_inv: "buffer_reach hx b \<Longrightarrow> buffer_inv hx b"
  by (induction rule: buffer_reach.induct) (auto intro: inv_intros)

section \<open>What the lookups return\<close>

text \<open>The reference lookup: the last block with the number, then its first extrinsic with the
  index.\<close>

definition block_numbered :: "u64 \<Rightarrow> buffered_block list \<Rightarrow> buffered_block option" where
  "block_numbered n bs = List.find (\<lambda>b. bb_number b = n) (rev bs)"

lemma number_index_Some:
  "number_index bs n = Some i \<Longrightarrow> i < length bs \<and> block_numbered n bs = Some (bs ! i)"
proof (induction bs rule: rev_induct)
  case Nil
  then show ?case by (simp add: number_index_def)
next
  case (snoc x xs)
  then show ?case
    by (auto simp: number_index_snoc block_numbered_def nth_append split: if_splits)
qed

lemma number_index_None: "number_index bs n = None \<longleftrightarrow> block_numbered n bs = None"
  by (induction bs rule: rev_induct) (auto simp: number_index_snoc block_numbered_def, simp add: number_index_def)

lemma extrinsic_by_block_idx_eq:
  assumes "buffer_inv hx b"
  shows "extrinsic_by_block_idx b n i =
    Option.bind (block_numbered n (pb_blocks b)) (\<lambda>bl. List.find (\<lambda>e. xt_index e = i) (bb_extrinsics bl))"
proof (cases "number_index (pb_blocks b) n")
  case None
  then have "block_numbered n (pb_blocks b) = None" using number_index_None by blast
  with None show ?thesis using assms by (simp add: extrinsic_by_block_idx_def buffer_inv_def)
next
  case (Some p)
  then show ?thesis using assms number_index_Some [OF Some]
    by (simp add: extrinsic_by_block_idx_def buffer_inv_def)
qed

lemma insert_xts_Some:
  "insert_xts hx n m xs h = Some (k, i) \<Longrightarrow>
     m h = Some (k, i) \<or> (k = n \<and> (\<exists>x\<in>set xs. xt_index x = i \<and> decode_hex32 hx (xt_hash x) = Some h))"
proof (induction xs arbitrary: m)
  case (Cons x xs)
  let ?m = "case decode_hex32 hx (xt_hash x) of None \<Rightarrow> m | Some g \<Rightarrow> m(g \<mapsto> (n, xt_index x))"
  have "insert_xts hx n ?m xs h = Some (k, i)" using Cons.prems by simp
  note Cons.IH [OF this]
  moreover have "?m h = Some (k, i) \<Longrightarrow> m h = Some (k, i) \<or>
      (k = n \<and> xt_index x = i \<and> decode_hex32 hx (xt_hash x) = Some h)"
    by (auto split: option.splits if_splits)
  ultimately show ?case by auto
qed simp

lemma insert_xts_dom:
  "m h \<noteq> None \<or> (\<exists>x\<in>set xs. decode_hex32 hx (xt_hash x) = Some h) \<Longrightarrow> insert_xts hx n m xs h \<noteq> None"
proof (induction xs arbitrary: m)
  case (Cons x xs)
  let ?m = "case decode_hex32 hx (xt_hash x) of None \<Rightarrow> m | Some g \<Rightarrow> m(g \<mapsto> (n, xt_index x))"
  have "?m h \<noteq> None \<or> (\<exists>x\<in>set xs. decode_hex32 hx (xt_hash x) = Some h)"
    using Cons.prems by (auto split: option.splits)
  then have "insert_xts hx n ?m xs h \<noteq> None" by (rule Cons.IH)
  then show ?case by simp
qed simp

lemma xt_hash_index_Some:
  "xt_hash_index hx bs h = Some (k, i) \<Longrightarrow>
     \<exists>b\<in>set bs. bb_number b = k \<and> (\<exists>x\<in>set (bb_extrinsics b). xt_index x = i \<and> decode_hex32 hx (xt_hash x) = Some h)"
proof (induction bs rule: rev_induct)
  case Nil
  then show ?case by (simp add: xt_hash_index_def)
next
  case (snoc b bs)
  from insert_xts_Some [OF snoc.prems [unfolded xt_hash_index_snoc]] snoc.IH show ?case by fastforce
qed

lemma xt_hash_index_dom:
  "b \<in> set bs \<Longrightarrow> x \<in> set (bb_extrinsics b) \<Longrightarrow> decode_hex32 hx (xt_hash x) = Some h
   \<Longrightarrow> xt_hash_index hx bs h \<noteq> None"
  by (induction bs rule: rev_induct) (auto simp del: not_None_eq simp: xt_hash_index_snoc intro!: insert_xts_dom)

text \<open>Blocks of one chain: no number twice, no extrinsic index twice in a block.\<close>

definition one_chain :: "buffered_block list \<Rightarrow> bool" where
  "one_chain bs \<longleftrightarrow> distinct (map bb_number bs) \<and>
     list_all (\<lambda>b. distinct (map xt_index (bb_extrinsics b))) bs"

lemma find_distinct:
  "distinct (map f xs) \<Longrightarrow> x \<in> set xs \<Longrightarrow> List.find (\<lambda>y. f y = f x) xs = Some x"
  by (induction xs) (auto simp: image_iff)

lemma block_numbered_one_chain:
  "one_chain bs \<Longrightarrow> b \<in> set bs \<Longrightarrow> block_numbered (bb_number b) bs = Some b"
  using find_distinct [of bb_number "rev bs" b]
  by (simp add: one_chain_def block_numbered_def flip: rev_map)

lemma extrinsic_by_hash_sound:
  assumes inv: "buffer_inv hx b" and oc: "one_chain (pb_blocks b)"
    and res: "extrinsic_by_hash b h = Some x"
  shows "decode_hex32 hx (xt_hash x) = Some h \<and>
    (\<exists>bl\<in>set (pb_blocks b). x \<in> set (bb_extrinsics bl))"
proof -
  obtain k i where ki: "xt_hash_index hx (pb_blocks b) h = Some (k, i)"
    and e: "extrinsic_by_block_idx b k i = Some x"
    using res inv by (auto simp: extrinsic_by_hash_def buffer_inv_def bind_eq_Some_conv)
  from xt_hash_index_Some [OF ki] obtain bl y where
    bl: "bl \<in> set (pb_blocks b)" "bb_number bl = k" and
    y: "y \<in> set (bb_extrinsics bl)" "xt_index y = i" "decode_hex32 hx (xt_hash y) = Some h"
    by blast
  have "List.find (\<lambda>e. xt_index e = i) (bb_extrinsics bl) = Some y"
    using find_distinct [of xt_index "bb_extrinsics bl" y] oc bl y
    by (auto simp: one_chain_def list_all_iff)
  then have "x = y"
    using e block_numbered_one_chain [OF oc bl(1)] bl(2)
    by (simp add: extrinsic_by_block_idx_eq [OF inv])
  with bl y show ?thesis by blast
qed

lemma extrinsic_by_hash_complete:
  assumes inv: "buffer_inv hx b" and oc: "one_chain (pb_blocks b)"
    and x: "bl \<in> set (pb_blocks b)" "x \<in> set (bb_extrinsics bl)"
    and h: "decode_hex32 hx (xt_hash x) = Some h"
  shows "\<exists>y. extrinsic_by_hash b h = Some y"
proof -
  obtain k i where ki: "xt_hash_index hx (pb_blocks b) h = Some (k, i)"
    using xt_hash_index_dom [OF x h] by auto
  from xt_hash_index_Some [OF ki] obtain c y where
    c: "c \<in> set (pb_blocks b)" "bb_number c = k" and y: "y \<in> set (bb_extrinsics c)" "xt_index y = i"
    by blast
  have "List.find (\<lambda>e. xt_index e = i) (bb_extrinsics c) = Some y"
    using find_distinct [of xt_index "bb_extrinsics c" y] oc c y
    by (auto simp: one_chain_def list_all_iff)
  then have "extrinsic_by_block_idx b k i = Some y"
    using block_numbered_one_chain [OF oc c(1)] c(2)
    by (simp add: extrinsic_by_block_idx_eq [OF inv])
  then show ?thesis using inv ki by (simp add: extrinsic_by_hash_def buffer_inv_def)
qed

section \<open>Properties\<close>

text \<open>C8: In every buffer the producers can build, the hash lookup is sound and complete as long as
  the buffered blocks are of one chain: what it returns is a buffered extrinsic with that hash, and
  it returns one for the hash of every buffered extrinsic.\<close>

theorem buffer_hash_lookup:
  assumes "buffer_reach hx b" and "one_chain (pb_blocks b)"
  shows "((\<exists>x. extrinsic_by_hash b h = Some x) \<longleftrightarrow>
      (\<exists>bl\<in>set (pb_blocks b). \<exists>x\<in>set (bb_extrinsics bl). decode_hex32 hx (xt_hash x) = Some h)) \<and>
    (extrinsic_by_hash b h = Some y \<longrightarrow> decode_hex32 hx (xt_hash y) = Some h)"
  using extrinsic_by_hash_sound [OF buffer_reach_inv [OF assms(1)] assms(2)]
    extrinsic_by_hash_complete [OF buffer_reach_inv [OF assms(1)] assms(2)]
  by blast

text \<open>A buffer with one block, and a hex decoder that reads one digit, for the witnesses.\<close>

definition example_hex :: "string \<Rightarrow> bytes option" where
  "example_hex s = (if s = ''a'' then Some [10] else if s = ''b'' then Some [11] else None)"

definition example_block :: "u64 \<Rightarrow> string \<Rightarrow> buffered_block" where
  "example_block n h = \<lparr> bb_number = n, bb_hash = [], bb_extrinsics = [example_extrinsic n 0 h],
     bb_transfers = [] \<rparr>"

definition example_buffer :: pending_buffer where
  "example_buffer = append_block example_hex (example_block 8 ''0xb'')
     (append_block example_hex (example_block 7 ''0xa'') (buffer_new ''allfeat''))"

lemma example_buffer_reach: "buffer_reach example_hex example_buffer"
  by (simp add: example_buffer_def reach_new reach_append)

lemma example_buffer_blocks: "pb_blocks example_buffer = [example_block 7 ''0xa'', example_block 8 ''0xb'']"
  by (simp add: example_buffer_def push_capped_def buffer_new_def buffer_with_capacity_def
      buffer_capacity_def)

lemma buffer_hash_lookup_witness:
  "(\<exists>x. extrinsic_by_hash example_buffer [10] = Some x \<and>
     decode_hex32 example_hex (xt_hash x) = Some [10]) \<and> extrinsic_by_hash example_buffer [12] = None"
proof -
  have oc: "one_chain (pb_blocks example_buffer)"
    by (simp add: one_chain_def example_buffer_blocks example_block_def)
  note look = buffer_hash_lookup [OF example_buffer_reach oc]
  have "\<exists>x. extrinsic_by_hash example_buffer [10] = Some x"
    using look [of "[10]"] by (simp add: example_buffer_blocks example_block_def
        example_extrinsic_def decode_hex32_def strip_0x_def example_hex_def)
  then obtain x where x: "extrinsic_by_hash example_buffer [10] = Some x" ..
  moreover have "decode_hex32 example_hex (xt_hash x) = Some [10]" using look [of "[10]" x] x by blast
  moreover have "extrinsic_by_hash example_buffer [12] = None"
    using look [of "[12]"] by (simp add: example_buffer_blocks example_block_def
        example_extrinsic_def decode_hex32_def strip_0x_def example_hex_def)
  ultimately show ?thesis by blast
qed

text \<open>C12: The two derived indexes of a reachable buffer are those of its blocks, of which there are
  at most 64; appending drops the oldest block exactly when the buffer is full, and advancing the
  finalized head drops the blocks up to the first one above it.\<close>

theorem buffer_refines_block_list:
  assumes "buffer_reach hx b"
  shows "length (pb_blocks b) \<le> 64 \<and>
    pb_by_number b = number_index (pb_blocks b) \<and> pb_by_xt_hash b = xt_hash_index hx (pb_blocks b) \<and>
    pb_blocks (append_block hx bl b) =
      (if length (pb_blocks b) = 64 then tl (pb_blocks b) else pb_blocks b) @ [bl] \<and>
    pb_blocks (advance_finalized hx u b) = dropWhile (\<lambda>x. bb_number x \<le> u) (pb_blocks b) \<and>
    extrinsic_by_block_idx b n i = Option.bind (block_numbered n (pb_blocks b))
      (\<lambda>bl. List.find (\<lambda>e. xt_index e = i) (bb_extrinsics bl))"
  using buffer_reach_inv [OF assms]
  by (auto simp: extrinsic_by_block_idx_eq buffer_inv_def push_capped_def buffer_capacity_def)


lemma buffer_refines_block_list_witness:
  "length (pb_blocks example_buffer) \<le> 64 \<and>
   pb_blocks (advance_finalized example_hex 7 example_buffer) = [example_block 8 ''0xb''] \<and>
   extrinsic_by_block_idx example_buffer 8 0 = Some (example_extrinsic 8 0 ''0xb'')"
  using buffer_refines_block_list [OF example_buffer_reach, where u = 7 and n = 8 and i = 0]
  by (simp add: example_buffer_blocks block_numbered_def) (simp add: example_block_def example_extrinsic_def)


text \<open>The capacity given to \<^verbatim>\<open>with_capacity\<close> does not bound the buffer.\<close>

lemma buffer_with_capacity_ignored: "buffer_with_capacity n c = buffer_with_capacity n c'"
  by (simp add: buffer_with_capacity_def)

end
