(* ===== verification/Chain.thy ===== *)
theory Chain
  imports Domain Ss58
begin

text \<open>
  The node as the code sees it through the RPC client library, and the mappers that read one block
  of it: \<^verbatim>\<open>src/data/rpc/mappers/common.rs\<close>, \<^verbatim>\<open>mappers/blocks.rs\<close>, the snapshot part of
  \<^verbatim>\<open>mappers/accounts.rs\<close> and the timeouts of \<^verbatim>\<open>data/rpc/client.rs\<close>.

  The client library is not part of the repository: the record \<^verbatim>\<open>pinned_block\<close> holds what it
  answers for one block (each request may time out, fail, find nothing or fail to decode), and the
  definitions take it as an argument. Answers that are decoded with the types of one runtime are
  functions of the runtime kind.
\<close>

section \<open>Answers of the client library\<close>

datatype runtime_kind = Allfeat | Melodie

text \<open>One awaited request, raced against its timeout, and what a storage read found.\<close>

datatype 'a rpc = RpcTimeout | RpcErr string | RpcOk 'a

datatype 'a stored = Absent | Undecodable string | Value 'a

text \<open>The fields of a decoded event, read by name; \<^verbatim>\<open>df_module_error\<close> is the pair of indexes of a
  dispatch error that is a module error.\<close>

record decoded_fields =
  df_bytes :: "string \<Rightarrow> bytes"
  df_u128 :: "string \<Rightarrow> u128"
  df_u64 :: "string \<Rightarrow> u64"
  df_u32 :: "string \<Rightarrow> u32"
  df_u8 :: "string \<Rightarrow> u8"
  df_module_error :: "(u8 \<times> u8) option"

record chain_event =
  ev_pallet :: string
  ev_name :: string
  ev_phase :: event_phase
  ev_field_bytes :: bytes
  ev_decode :: "runtime_kind \<Rightarrow> string + decoded_fields"
  ev_index :: u32

text \<open>The signer bytes of an extrinsic, decoded as a \<^verbatim>\<open>MultiAddress\<close>.\<close>

datatype multi_address = AddrId bytes | AddrOther | AddrUndecodable

record chain_extrinsic =
  cx_index :: nat
  cx_pallet :: string
  cx_call :: string
  cx_hash :: bytes
  cx_address :: "multi_address option"
  cx_extensions :: "(u64 option \<times> u128 option) option"
  cx_call_data :: bytes
  cx_len :: nat

datatype digest_item = PreRuntime bytes bytes | ConsensusItem bytes bytes | Seal bytes bytes | OtherItem bytes

record header =
  hd_parent_hash :: bytes
  hd_state_root :: bytes
  hd_extrinsics_root :: bytes
  hd_digest :: "digest_item list"
  hd_encoded_size :: nat

record weight =
  wt_ref_time :: u64
  wt_proof_size :: u64

record per_dispatch_class =
  pd_normal :: weight
  pd_operational :: weight
  pd_mandatory :: weight

record account_info =
  ai_free :: u128
  ai_reserved :: u128
  ai_frozen :: u128
  ai_nonce :: u32

text \<open>An entry of a storage iteration: the item itself, its key and its value may fail.\<close>

datatype 'a iter_item = IterErr string | KeyErr string | KeyDecodeErr string
  | ValueDecodeErr string | IterOk 'a

record pinned_block =
  at_number :: u64
  at_hash :: bytes
  at_spec_version :: u32
  at_header :: "header rpc"
  at_events :: "(string + chain_event) list rpc"
  at_extrinsics :: "(string + chain_extrinsic) list rpc"
  at_timestamp :: "runtime_kind \<Rightarrow> u64 stored rpc"
  at_validators :: "runtime_kind \<Rightarrow> bytes list stored rpc"
  at_block_weight :: "runtime_kind \<Rightarrow> per_dispatch_class stored rpc"
  at_max_block :: "runtime_kind \<Rightarrow> u64 option"
  at_account :: "runtime_kind \<Rightarrow> bytes \<Rightarrow> string + account_info stored"
  at_iter_accounts :: "runtime_kind \<Rightarrow> (bytes \<times> account_info) iter_item list rpc"
  at_pallet_by_error_index :: "u8 \<Rightarrow> (string \<times> (u8 \<Rightarrow> string option)) option"
  at_decode_u64 :: "bytes \<Rightarrow> u64 option"

section \<open>Timeouts\<close>

definition with_timeout :: "string \<Rightarrow> (string \<Rightarrow> data_error) \<Rightarrow> 'a rpc \<Rightarrow> 'a data_result" where
  "with_timeout opn on_err r = (case r of
       RpcTimeout \<Rightarrow> Inl (Transport (opn @ '' timed out after 15s''))
     | RpcErr e \<Rightarrow> Inl (on_err e)
     | RpcOk a \<Rightarrow> Inr a)"

definition with_iter_timeout :: "string \<Rightarrow> (string \<Rightarrow> data_error) \<Rightarrow> 'a rpc \<Rightarrow> 'a data_result" where
  "with_iter_timeout opn on_err r = (case r of
       RpcTimeout \<Rightarrow> Inl (Transport (opn @ '' timed out after 60s''))
     | RpcErr e \<Rightarrow> Inl (on_err e)
     | RpcOk a \<Rightarrow> Inr a)"

text \<open>A storage read under a timeout, then the decoding of the value found.\<close>

definition fetch_storage ::
  "string \<Rightarrow> (string \<Rightarrow> data_error) \<Rightarrow> (string \<Rightarrow> data_error) \<Rightarrow> 'a stored rpc \<Rightarrow> 'a option data_result" where
  "fetch_storage opn on_err on_decode r = bind_r (with_timeout opn on_err r) (\<lambda>v. case v of
       Absent \<Rightarrow> Inr None
     | Undecodable e \<Rightarrow> Inl (on_decode e)
     | Value a \<Rightarrow> Inr (Some a))"

text \<open>A loop that stops at the first item that is an error.\<close>

fun collect_ok :: "(string \<Rightarrow> data_error) \<Rightarrow> (string + 'a) list \<Rightarrow> 'a list data_result" where
  "collect_ok on_err [] = Inr []"
| "collect_ok on_err (x # xs) =
     bind_r (map_err on_err x) (\<lambda>a. bind_r (collect_ok on_err xs) (\<lambda>as. Inr (a # as)))"

section \<open>Shared mappers\<close>

text \<open>\<^verbatim>\<open>phase_to_domain\<close> relabels a phase; the model has one type for both.\<close>

fun phase_to_domain :: "event_phase \<Rightarrow> event_phase" where
  "phase_to_domain Initialization = Initialization"
| "phase_to_domain (ApplyExtrinsic i) = ApplyExtrinsic i"
| "phase_to_domain Finalization = Finalization"

definition hex_digits :: string where
  "hex_digits = ''0123456789abcdef''"

definition hex_bytes :: "bytes \<Rightarrow> string" where
  "hex_bytes bs = ''0x'' @
     concat (map (\<lambda>b. [hex_digits ! unat (drop_bit 4 b), hex_digits ! unat (b AND 0x0f)]) bs)"

definition hash_string :: "bytes \<Rightarrow> string" where
  "hash_string h = hex_bytes h"

definition decode_event_err :: "string \<Rightarrow> data_error" where
  "decode_event_err e = Decode (''decode event: '' @ e)"

definition fetch_block_events :: "pinned_block \<Rightarrow> (string + chain_event) list data_result" where
  "fetch_block_events at =
     with_timeout ''fetch_block_events'' (\<lambda>e. Rpc (''fetch events: '' @ e)) (at_events at)"

text \<open>The map from extrinsic index to its events, in their order.\<close>

fun index_events :: "(u32 \<Rightarrow> chain_event list) \<Rightarrow> (string + chain_event) list
    \<Rightarrow> (u32 \<Rightarrow> chain_event list) data_result" where
  "index_events m [] = Inr m"
| "index_events m (x # xs) = bind_r (map_err decode_event_err x) (\<lambda>evt.
     index_events (case ev_phase evt of ApplyExtrinsic idx \<Rightarrow> m(idx := m idx @ [evt]) | _ \<Rightarrow> m) xs)"

definition index_events_by_phase ::
  "(string + chain_event) list \<Rightarrow> (u32 \<Rightarrow> chain_event list) data_result" where
  "index_events_by_phase events = index_events (\<lambda>_. []) events"

text \<open>\<^verbatim>\<open>map_block_events\<close>; the decoding of the fields against the bundled metadata is the
  parameter \<^verbatim>\<open>decode_fields\<close>.\<close>

definition map_block_events ::
  "(string \<Rightarrow> string \<Rightarrow> bytes \<Rightarrow> event_field list) \<Rightarrow> u64 \<Rightarrow> int \<Rightarrow> (string + chain_event) list
   \<Rightarrow> block_event list data_result" where
  "map_block_events decode_fields block_number timestamp_ms events =
     bind_r (collect_ok decode_event_err events) (\<lambda>evts.
       Inr (map (\<lambda>(idx, evt). \<lparr> be_block_number = block_number, be_index = word_of_nat idx,
           be_phase = phase_to_domain (ev_phase evt), be_module = ev_pallet evt,
           be_name = ev_name evt,
           be_fields = decode_fields (ev_pallet evt) (ev_name evt) (ev_field_bytes evt),
           be_timestamp_ms = timestamp_ms \<rparr>) (enumerate 0 evts)))"

section \<open>Block header data\<close>

definition aura_engine_id :: bytes where
  "aura_engine_id = map (\<lambda>c. word_of_nat (of_char c)) ''aura''"

fun find_map :: "('a \<Rightarrow> 'b option) \<Rightarrow> 'a list \<Rightarrow> 'b option" where
  "find_map f [] = None"
| "find_map f (x # xs) = (case f x of None \<Rightarrow> find_map f xs | Some b \<Rightarrow> Some b)"

definition aura_slot :: "(bytes \<Rightarrow> u64 option) \<Rightarrow> digest_item list \<Rightarrow> u64 option" where
  "aura_slot decode_u64 logs = find_map (\<lambda>item. case item of
       PreRuntime engine data \<Rightarrow> if engine = aura_engine_id then decode_u64 data else None
     | _ \<Rightarrow> None) logs"

definition author_from_slot :: "u64 \<Rightarrow> bytes list \<Rightarrow> bytes option" where
  "author_from_slot slot validators =
     (if validators = [] then None
      else Some (validators ! (unat slot mod length validators)))"

definition fetch_timestamp :: "pinned_block \<Rightarrow> runtime_kind \<Rightarrow> int data_result" where
  "fetch_timestamp at rk =
     map_ok (\<lambda>v. case v of None \<Rightarrow> 0 | Some now \<Rightarrow> sint now)
       (fetch_storage ''fetch_timestamp'' (\<lambda>e. Rpc (''fetch timestamp: '' @ e))
          (\<lambda>e. Decode (''decode timestamp: '' @ e)) (at_timestamp at rk))"

definition fetch_extrinsics_summary :: "pinned_block \<Rightarrow> (u32 \<times> nat) data_result" where
  "fetch_extrinsics_summary at =
     bind_r (with_timeout ''fetch_extrinsics_summary'' (\<lambda>e. Rpc (''fetch extrinsics: '' @ e))
       (at_extrinsics at)) (\<lambda>xs.
     bind_r (collect_ok (\<lambda>e. Decode (''decode extrinsic: '' @ e)) xs) (\<lambda>exts.
     Inr (word_of_nat (length exts), sum_list (map cx_len exts))))"

definition fetch_validators :: "pinned_block \<Rightarrow> runtime_kind \<Rightarrow> bytes list option data_result" where
  "fetch_validators at rk =
     fetch_storage ''fetch_session_validators'' (\<lambda>e. Rpc (''fetch session validators: '' @ e))
       (\<lambda>e. Decode (''decode session validators: '' @ e)) (at_validators at rk)"

definition resolve_author ::
  "(bytes \<Rightarrow> u16 \<Rightarrow> string) \<Rightarrow> pinned_block \<Rightarrow> digest_item list \<Rightarrow> runtime_kind \<Rightarrow> u16
   \<Rightarrow> (string \<times> string) data_result" where
  "resolve_author encode at digest rk ss58 =
     (case aura_slot (at_decode_u64 at) digest of
        None \<Rightarrow> Inr (''unknown'', ''unknown'')
      | Some slot \<Rightarrow> bind_r (fetch_validators at rk) (\<lambda>vs. case vs of
            None \<Rightarrow> Inr (''unknown'', ''unknown'')
          | Some validators \<Rightarrow> (case author_from_slot slot validators of
                None \<Rightarrow> Inr (''unknown'', ''unknown'')
              | Some author_id \<Rightarrow>
                  (let address = encode author_id ss58 in Inr (address, short_label address)))))"

definition weight_total :: "per_dispatch_class \<Rightarrow> u64 \<times> u64" where
  "weight_total c =
     (sat_add (sat_add (wt_ref_time (pd_normal c)) (wt_ref_time (pd_operational c)))
        (wt_ref_time (pd_mandatory c)),
      sat_add (sat_add (wt_proof_size (pd_normal c)) (wt_proof_size (pd_operational c)))
        (wt_proof_size (pd_mandatory c)))"

definition ref_time_percent :: "u64 \<Rightarrow> u64 \<Rightarrow> u8" where
  "ref_time_percent ref_time max_block =
     (if max_block = 0 then 0 else ucast (min (sat_mul ref_time 100 div max_block) 100))"

definition fetch_weights :: "pinned_block \<Rightarrow> runtime_kind \<Rightarrow> (u64 \<times> u64 \<times> u8) data_result" where
  "fetch_weights at rk =
     map_ok (\<lambda>v. case v of
         None \<Rightarrow> (0, 0, 0)
       | Some consumed \<Rightarrow>
           (let (ref_time, proof_size) = weight_total consumed;
                max_block = (case at_max_block at rk of None \<Rightarrow> 0 | Some m \<Rightarrow> m)
            in (ref_time, proof_size, ref_time_percent ref_time max_block)))
       (fetch_storage ''fetch_block_weight'' (\<lambda>e. Rpc (''fetch block weight: '' @ e))
          (\<lambda>e. Decode (''decode block weight: '' @ e)) (at_block_weight at rk))"

definition fetch_header :: "pinned_block \<Rightarrow> header data_result" where
  "fetch_header at = with_timeout ''block_header'' (\<lambda>e. Rpc (''fetch header: '' @ e)) (at_header at)"

text \<open>The domain block of the RPC path.\<close>

definition map_block ::
  "(bytes \<Rightarrow> u16 \<Rightarrow> string) \<Rightarrow> pinned_block \<Rightarrow> u64 \<Rightarrow> runtime_kind \<Rightarrow> u16 \<Rightarrow> block data_result" where
  "map_block encode at finalized_head rk ss58 =
     bind_r (fetch_header at) (\<lambda>hdr.
     bind_r (fetch_timestamp at rk) (\<lambda>timestamp_ms.
     bind_r (fetch_extrinsics_summary at) (\<lambda>(extrinsic_count, size_extrinsics).
     bind_r (fetch_block_events at) (\<lambda>events.
     bind_r (resolve_author encode at (hd_digest hdr) rk ss58) (\<lambda>(author, author_name).
     bind_r (fetch_weights at rk) (\<lambda>(ref_time, proof_size, ref_time_pct).
     Inr \<lparr> bk_number = at_number at, bk_hash = hash_string (at_hash at),
       bk_parent_hash = hash_string (hd_parent_hash hdr),
       bk_state_root = hash_string (hd_state_root hdr),
       bk_extrinsics_root = hash_string (hd_extrinsics_root hdr),
       bk_timestamp_ms = timestamp_ms, bk_finalized = (at_number at \<le> finalized_head),
       bk_extrinsic_count = extrinsic_count, bk_event_count = word_of_nat (length events),
       bk_author = author, bk_author_name = author_name, bk_ref_time = ref_time,
       bk_ref_time_pct = ref_time_pct, bk_proof_size = proof_size,
       bk_spec_version = at_spec_version at,
       bk_size_bytes = word_of_nat (hd_encoded_size hdr + size_extrinsics) \<rparr>))))))"

section \<open>Account snapshots\<close>

record account_snapshot =
  sn_free :: u128
  sn_reserved :: u128
  sn_frozen :: u128
  sn_nonce :: u32

definition default_snapshot :: account_snapshot where
  "default_snapshot = \<lparr> sn_free = 0, sn_reserved = 0, sn_frozen = 0, sn_nonce = 0 \<rparr>"

definition snapshot_of_info :: "account_info \<Rightarrow> account_snapshot" where
  "snapshot_of_info i =
     \<lparr> sn_free = ai_free i, sn_reserved = ai_reserved i, sn_frozen = ai_frozen i, sn_nonce = ai_nonce i \<rparr>"

definition map_account_info ::
  "(bytes \<Rightarrow> u16 \<Rightarrow> string) \<Rightarrow> bytes \<Rightarrow> account_info \<Rightarrow> u16 \<Rightarrow> account" where
  "map_account_info encode acct info ss58 =
     \<lparr> ac_address = encode acct ss58,
       ac_balance = \<lparr> ba_total = sat_add (ai_free info) (ai_reserved info),
         ba_transferable = ai_free info, ba_reserved = ai_reserved info \<rparr>,
       ac_nonce = ai_nonce info, ac_first_seen_ms = 0, ac_last_active_ms = 0 \<rparr>"

definition hex_short :: "bytes \<Rightarrow> string" where
  "hex_short bs = drop 2 (hex_bytes (take 4 bs)) @ ellipsis"

text \<open>The read of one account, which has no timeout of its own.\<close>

definition fetch_account_at :: "pinned_block \<Rightarrow> runtime_kind \<Rightarrow> bytes \<Rightarrow> (bytes \<times> account_snapshot) data_result" where
  "fetch_account_at at rk acct =
     bind_r (map_err (\<lambda>e. Rpc (''fetch system.account('' @ hex_short acct @ ''): '' @ e)) (at_account at rk acct))
     (\<lambda>v. case v of
       Absent \<Rightarrow> Inr (acct, default_snapshot)
     | Undecodable e \<Rightarrow> Inl (Decode (''decode AccountInfo for '' @ hex_short acct @ '': '' @ e))
     | Value info \<Rightarrow> Inr (acct, snapshot_of_info info))"

text \<open>\<^verbatim>\<open>buffered\<close> keeps the order of the input and \<^verbatim>\<open>try_collect\<close> stops at the first error.\<close>

fun fetch_accounts_at ::
  "pinned_block \<Rightarrow> runtime_kind \<Rightarrow> bytes list \<Rightarrow> (bytes \<times> account_snapshot) list data_result" where
  "fetch_accounts_at at rk [] = Inr []"
| "fetch_accounts_at at rk (a # as) = bind_r (fetch_account_at at rk a) (\<lambda>s.
     bind_r (fetch_accounts_at at rk as) (\<lambda>rest. Inr (s # rest)))"

text \<open>The whole storage map at genesis.\<close>

fun genesis_item :: "(bytes \<times> account_info) iter_item \<Rightarrow> (bytes \<times> account_snapshot) data_result" where
  "genesis_item (IterErr e) = Inl (Rpc (''iter system.account (genesis) next: '' @ e))"
| "genesis_item (KeyErr e) = Inl (Decode (''system.account key (genesis): '' @ e))"
| "genesis_item (KeyDecodeErr e) = Inl (Decode (''decode system.account key (genesis): '' @ e))"
| "genesis_item (ValueDecodeErr e) = Inl (Decode (''decode AccountInfo (genesis): '' @ e))"
| "genesis_item (IterOk (acct, info)) = Inr (acct, snapshot_of_info info)"

fun collect_genesis ::
  "(bytes \<times> account_info) iter_item list \<Rightarrow> (bytes \<times> account_snapshot) list data_result" where
  "collect_genesis [] = Inr []"
| "collect_genesis (x # xs) =
     bind_r (genesis_item x) (\<lambda>s. bind_r (collect_genesis xs) (\<lambda>rest. Inr (s # rest)))"

definition project_genesis_accounts ::
  "pinned_block \<Rightarrow> runtime_kind \<Rightarrow> (bytes \<times> account_snapshot) list data_result" where
  "project_genesis_accounts at rk =
     bind_r (with_iter_timeout ''project_genesis_accounts''
       (\<lambda>e. Rpc (''iter system.account (genesis): '' @ e)) (at_iter_accounts at rk)) collect_genesis"

section \<open>Example data for the witnesses\<close>

definition example_fields :: "bytes \<Rightarrow> bytes \<Rightarrow> u128 \<Rightarrow> decoded_fields" where
  "example_fields a b n = \<lparr> df_bytes = (\<lambda>f. if f = ''to'' then b else a), df_u128 = (\<lambda>_. n),
     df_u64 = (\<lambda>_. 7), df_u32 = (\<lambda>_. 1), df_u8 = (\<lambda>_. 1), df_module_error = None \<rparr>"

definition example_event :: "string \<Rightarrow> string \<Rightarrow> event_phase \<Rightarrow> decoded_fields \<Rightarrow> chain_event" where
  "example_event pallet name phase d = \<lparr> ev_pallet = pallet, ev_name = name, ev_phase = phase,
     ev_field_bytes = [1, 2], ev_decode = (\<lambda>_. Inr d), ev_index = 0 \<rparr>"

definition example_info :: account_info where
  "example_info = \<lparr> ai_free = 100, ai_reserved = 10, ai_frozen = 0, ai_nonce = 3 \<rparr>"

definition example_at :: "u64 \<Rightarrow> chain_event list \<Rightarrow> chain_extrinsic list \<Rightarrow> pinned_block" where
  "example_at n evts xts = \<lparr> at_number = n, at_hash = replicate 32 (ucast n), at_spec_version = 1,
     at_header = RpcOk \<lparr> hd_parent_hash = [], hd_state_root = [], hd_extrinsics_root = [],
       hd_digest = [], hd_encoded_size = 100 \<rparr>,
     at_events = RpcOk (map Inr evts), at_extrinsics = RpcOk (map Inr xts),
     at_timestamp = (\<lambda>_. RpcOk (Value 6000)), at_validators = (\<lambda>_. RpcOk Absent),
     at_block_weight = (\<lambda>_. RpcOk Absent), at_max_block = (\<lambda>_. None),
     at_account = (\<lambda>_ _. Inr (Value example_info)), at_iter_accounts = (\<lambda>_. RpcOk []),
     at_pallet_by_error_index = (\<lambda>_. None), at_decode_u64 = (\<lambda>_. None) \<rparr>"

section \<open>Lemmas\<close>

lemma collect_ok_Inr_iff: "collect_ok f xs = Inr as \<longleftrightarrow> xs = map Inr as"
proof (induction xs arbitrary: as)
  case (Cons x xs)
  then show ?case by (cases x; cases as) (auto simp: bind_r_Inr_iff)
qed auto

lemma fetch_account_at_key: "fetch_account_at at rk a = Inr s \<Longrightarrow> fst s = a"
  unfolding fetch_account_at_def bind_r_Inr_iff
  by (elim exE conjE) (auto split: stored.splits)

lemma fetch_accounts_at_keys: "fetch_accounts_at at rk as = Inr ss \<Longrightarrow> map fst ss = as"
proof (induction as arbitrary: ss)
  case (Cons a as)
  then show ?case
    by (auto simp: bind_r_Inr_iff dest: fetch_account_at_key)
qed simp

lemma ref_time_percent_le: "unat (ref_time_percent r m) \<le> 100"
proof -
  have "min (sat_mul r 100 div m) 100 \<le> (100 :: u64)" by simp
  then have "unat (min (sat_mul r 100 div m) 100) \<le> 100" by (simp add: word_le_nat_alt)
  then show ?thesis
    by (simp add: ref_time_percent_def unsigned_ucast_eq take_bit_nat_eq_self)
qed

lemma author_from_slot_mem: "author_from_slot s vs = Some a \<Longrightarrow> a \<in> set vs"
  by (auto simp: author_from_slot_def split: if_splits)

lemma index_events_spec:
  "index_events m xs = Inr m' \<Longrightarrow> \<exists>evts. xs = map Inr evts \<and>
     m' i = m i @ filter (\<lambda>e. ev_phase e = ApplyExtrinsic i) evts"
proof (induction xs arbitrary: m)
  case Nil
  then show ?case by simp
next
  case (Cons x xs)
  then obtain evt where x: "x = Inr evt" by (cases x) auto
  let ?m = "case ev_phase evt of ApplyExtrinsic idx \<Rightarrow> m(idx := m idx @ [evt]) | _ \<Rightarrow> m"
  from Cons.prems x have "index_events ?m xs = Inr m'" by simp
  from Cons.IH [OF this] obtain evts where "xs = map Inr evts"
    "m' i = ?m i @ filter (\<lambda>e. ev_phase e = ApplyExtrinsic i) evts" by blast
  with x show ?case
    by (intro exI [of _ "evt # evts"]) (auto split: event_phase.splits)
qed

end
