(* ===== verification/Projections.thy ===== *)
theory Projections
  imports Chain
begin

text \<open>
  From a block of the chain to the rows of the database:
  \<^verbatim>\<open>src/indexer/projections/blocks.rs\<close>, \<^verbatim>\<open>extrinsics.rs\<close>, \<^verbatim>\<open>events.rs\<close> and \<^verbatim>\<open>accounts.rs\<close>.
\<close>

section \<open>Blocks\<close>

record block_row =
  br_num :: u64
  br_hash :: bytes
  br_parent_hash :: bytes
  br_state_root :: bytes
  br_extrinsics_root :: bytes
  br_author :: "bytes option"
  br_timestamp_ms :: int
  br_spec_version :: u32
  br_extrinsic_count :: u32
  br_event_count :: u32
  br_ref_time :: u64
  br_proof_size :: u64
  br_ref_time_pct :: u8
  br_size_bytes :: u32

definition resolve_author_bytes ::
  "pinned_block \<Rightarrow> digest_item list \<Rightarrow> runtime_kind \<Rightarrow> bytes option data_result" where
  "resolve_author_bytes at digest rk =
     (case aura_slot (at_decode_u64 at) digest of
        None \<Rightarrow> Inr None
      | Some slot \<Rightarrow> bind_r (fetch_validators at rk) (\<lambda>vs. case vs of
            None \<Rightarrow> Inr None
          | Some validators \<Rightarrow> Inr (author_from_slot slot validators)))"

definition blocks_map :: "pinned_block \<Rightarrow> u64 \<Rightarrow> runtime_kind \<Rightarrow> block_row data_result" where
  "blocks_map at block_num rk =
     bind_r (fetch_header at) (\<lambda>hdr.
     bind_r (fetch_timestamp at rk) (\<lambda>timestamp_ms.
     bind_r (resolve_author_bytes at (hd_digest hdr) rk) (\<lambda>author.
     bind_r (fetch_extrinsics_summary at) (\<lambda>(extrinsic_count, size_extrinsics).
     bind_r (fetch_weights at rk) (\<lambda>(ref_time, proof_size, ref_time_pct).
     bind_r (fetch_block_events at) (\<lambda>events.
     bind_r (collect_ok decode_event_err events) (\<lambda>evts.
     Inr \<lparr> br_num = block_num, br_hash = at_hash at, br_parent_hash = hd_parent_hash hdr,
       br_state_root = hd_state_root hdr, br_extrinsics_root = hd_extrinsics_root hdr,
       br_author = author, br_timestamp_ms = timestamp_ms,
       br_spec_version = at_spec_version at, br_extrinsic_count = extrinsic_count,
       br_event_count = word_of_nat (length evts), br_ref_time = ref_time,
       br_proof_size = proof_size, br_ref_time_pct = ref_time_pct,
       br_size_bytes = word_of_nat (hd_encoded_size hdr + size_extrinsics) \<rparr>)))))))"

section \<open>Extrinsics\<close>

record extrinsic_row =
  xr_block_num :: u64
  xr_idx :: u32
  xr_hash :: bytes
  xr_pallet :: string
  xr_call :: string
  xr_signer :: "bytes option"
  xr_tip :: "u128 option"
  xr_fee :: u128
  xr_nonce :: "u64 option"
  xr_success :: bool
  xr_error_module :: "string option"
  xr_error_name :: "string option"
  xr_args_scale :: bytes

text \<open>The signer: only the \<^verbatim>\<open>Id\<close> variant of an address that decodes.\<close>

definition decode_signer_bytes :: "multi_address option \<Rightarrow> bytes option" where
  "decode_signer_bytes addr_bytes = (case addr_bytes of
       None \<Rightarrow> None
     | Some addr \<Rightarrow> (case addr of AddrId i \<Rightarrow> Some i | AddrOther \<Rightarrow> None | AddrUndecodable \<Rightarrow> None))"

definition resolve_module_error ::
  "u8 \<Rightarrow> u8 \<Rightarrow> (u8 \<Rightarrow> (string \<times> (u8 \<Rightarrow> string option)) option) \<Rightarrow> string option \<times> string option" where
  "resolve_module_error pallet_index error_index pallet_by_error_index =
     (case pallet_by_error_index pallet_index of
        None \<Rightarrow> (None, None)
      | Some (pallet_name, error_variant) \<Rightarrow> (case error_variant error_index of
            None \<Rightarrow> (Some pallet_name, None)
          | Some variant_name \<Rightarrow> (Some pallet_name, Some variant_name)))"

text \<open>One round of the loop over the events of an extrinsic; the state is (success, error module,
  error name, fee).\<close>

definition outcome_step ::
  "(u8 \<Rightarrow> (string \<times> (u8 \<Rightarrow> string option)) option) \<Rightarrow> runtime_kind \<Rightarrow> chain_event
   \<Rightarrow> bool \<times> string option \<times> string option \<times> u128 \<Rightarrow> bool \<times> string option \<times> string option \<times> u128" where
  "outcome_step metadata rk evt st = (case st of (success, error_module, error_name, fee) \<Rightarrow>
     (if ev_pallet evt = ''System'' \<and> ev_name evt = ''ExtrinsicFailed'' then
        (case Option.bind (ok_opt (ev_decode evt rk)) df_module_error of
           None \<Rightarrow> (False, error_module, error_name, fee)
         | Some (pallet_idx, variant_idx) \<Rightarrow>
             (let (m, n) = resolve_module_error pallet_idx variant_idx metadata
              in (False, m, n, fee)))
      else if ev_pallet evt = ''TransactionPayment'' \<and> ev_name evt = ''TransactionFeePaid'' then
        (case ok_opt (ev_decode evt rk) of
           None \<Rightarrow> st
         | Some paid \<Rightarrow> (success, error_module, error_name, df_u128 paid ''actual_fee''))
      else st))"

definition resolve_outcome ::
  "chain_event list \<Rightarrow> (u8 \<Rightarrow> (string \<times> (u8 \<Rightarrow> string option)) option) \<Rightarrow> runtime_kind
   \<Rightarrow> bool \<times> string option \<times> string option \<times> u128" where
  "resolve_outcome evts metadata rk =
     foldl (\<lambda>st evt. outcome_step metadata rk evt st) (True, None, None, 0) evts"

definition extrinsic_row_of ::
  "pinned_block \<Rightarrow> u64 \<Rightarrow> runtime_kind \<Rightarrow> (u32 \<Rightarrow> chain_event list) \<Rightarrow> chain_extrinsic \<Rightarrow> extrinsic_row" where
  "extrinsic_row_of at block_num rk events_by_phase ext =
     (let idx = word_of_nat (cx_index ext);
          (nonce, tip) = (case cx_extensions ext of None \<Rightarrow> (None, None) | Some e \<Rightarrow> e);
          (success, error_module, error_name, fee) =
            resolve_outcome (events_by_phase idx) (at_pallet_by_error_index at) rk
      in \<lparr> xr_block_num = block_num, xr_idx = idx, xr_hash = cx_hash ext,
           xr_pallet = cx_pallet ext, xr_call = cx_call ext,
           xr_signer = decode_signer_bytes (cx_address ext), xr_tip = tip, xr_fee = fee,
           xr_nonce = nonce, xr_success = success, xr_error_module = error_module,
           xr_error_name = error_name, xr_args_scale = cx_call_data ext \<rparr>)"

text \<open>An extrinsic without events takes the default outcome, which is the outcome of no events.\<close>

definition extrinsics_map :: "pinned_block \<Rightarrow> u64 \<Rightarrow> runtime_kind \<Rightarrow> extrinsic_row list data_result" where
  "extrinsics_map at block_num rk =
     bind_r (with_timeout ''map_extrinsics_fetch'' (\<lambda>e. Rpc (''fetch extrinsics: '' @ e)) (at_extrinsics at)) (\<lambda>xs.
     bind_r (fetch_block_events at) (\<lambda>events.
     bind_r (index_events_by_phase events) (\<lambda>events_by_phase.
     bind_r (collect_ok (\<lambda>e. Decode (''decode extrinsic: '' @ e)) xs) (\<lambda>exts.
     Inr (map (extrinsic_row_of at block_num rk events_by_phase) exts)))))"

section \<open>Events\<close>

definition phase_apply_extrinsic :: int where "phase_apply_extrinsic = 0"
definition phase_finalization :: int where "phase_finalization = 1"
definition phase_initialization :: int where "phase_initialization = 2"

record event_row =
  ew_block_num :: u64
  ew_idx :: u32
  ew_phase_kind :: int
  ew_phase_idx :: "u32 option"
  ew_pallet :: string
  ew_variant :: string
  ew_data_scale :: bytes

fun encode_phase :: "event_phase \<Rightarrow> int \<times> u32 option" where
  "encode_phase (ApplyExtrinsic i) = (phase_apply_extrinsic, Some i)"
| "encode_phase Finalization = (phase_finalization, None)"
| "encode_phase Initialization = (phase_initialization, None)"

definition event_row_of :: "u64 \<Rightarrow> nat \<times> chain_event \<Rightarrow> event_row" where
  "event_row_of block_num = (\<lambda>(idx, evt).
     (let (phase_kind, phase_idx) = encode_phase (ev_phase evt) in
      \<lparr> ew_block_num = block_num, ew_idx = word_of_nat idx, ew_phase_kind = phase_kind,
        ew_phase_idx = phase_idx, ew_pallet = ev_pallet evt, ew_variant = ev_name evt,
        ew_data_scale = ev_field_bytes evt \<rparr>))"

definition events_map :: "pinned_block \<Rightarrow> u64 \<Rightarrow> event_row list data_result" where
  "events_map at block_num =
     bind_r (fetch_block_events at) (\<lambda>events.
     bind_r (collect_ok decode_event_err events) (\<lambda>evts.
     Inr (map (event_row_of block_num) (enumerate 0 evts))))"

section \<open>Touched accounts\<close>

text \<open>The closure \<^verbatim>\<open>push\<close> with its two captured accumulators.\<close>

definition push_touched :: "bytes \<Rightarrow> bytes set \<times> bytes list \<Rightarrow> bytes set \<times> bytes list" where
  "push_touched acct st = (case st of (seen, out) \<Rightarrow>
     (if acct \<in> seen then (seen, out) else (insert acct seen, out @ [acct])))"

definition collect_touched :: "bytes list \<Rightarrow> extrinsic_row list \<Rightarrow> bytes list" where
  "collect_touched from_events extrinsics =
     (let st1 = foldl (\<lambda>st acct. push_touched acct st) ({}, []) from_events;
          st2 = foldl (\<lambda>st x. case xr_signer x of None \<Rightarrow> st | Some signer \<Rightarrow> push_touched signer st)
                  st1 extrinsics
      in snd st2)"

section \<open>Lemmas\<close>

lemma push_touched_fold:
  assumes "seen = set out" "distinct out"
  shows "\<exists>out'. foldl (\<lambda>st acct. push_touched acct st) (seen, out) as = (set out', out') \<and>
    distinct out' \<and> set out' = set out \<union> set as \<and> prefix out out'"
  using assms
proof (induction as arbitrary: seen out)
  case (Cons a as)
  show ?case
  proof (cases "a \<in> set out")
    case True
    with Cons.IH [of seen out] Cons.prems show ?thesis by (auto simp: push_touched_def)
  next
    case False
    from Cons.IH [of "insert a seen" "out @ [a]"] Cons.prems False obtain out' where
      o: "foldl (\<lambda>st acct. push_touched acct st) (insert a seen, out @ [a]) as = (set out', out')"
      "distinct out'" "set out' = set (out @ [a]) \<union> set as" "prefix (out @ [a]) out'" by auto
    from o(4) have "prefix out out'" using append_prefixD by blast
    with o False Cons.prems show ?thesis by (auto simp: push_touched_def)
  qed
qed auto

lemma signers_fold:
  "foldl (\<lambda>st x. case xr_signer x of None \<Rightarrow> st | Some signer \<Rightarrow> push_touched signer st) st xs =
   foldl (\<lambda>st acct. push_touched acct st) st (List.map_filter xr_signer xs)"
  by (induction xs arbitrary: st) (auto simp: map_filter_simps split: option.splits)

lemma set_map_filter: "set (List.map_filter f xs) = {s. \<exists>x\<in>set xs. f x = Some s}"
  by (induction xs) (auto simp: map_filter_simps split: option.splits)

lemma collect_touched_props:
  "distinct (collect_touched as xs) \<and> set (collect_touched as xs) = set as \<union> {s. \<exists>x\<in>set xs. xr_signer x = Some s}"
proof -
  have "collect_touched as xs =
      snd (foldl (\<lambda>st acct. push_touched acct st) ({}, []) (as @ List.map_filter xr_signer xs))"
    by (simp add: collect_touched_def signers_fold)
  moreover obtain out where
    "foldl (\<lambda>st acct. push_touched acct st) ({}, []) (as @ List.map_filter xr_signer xs) = (set out, out)"
    "distinct out" "set out = set (as @ List.map_filter xr_signer xs)"
    using push_touched_fold [of "{}" "[]" "as @ List.map_filter xr_signer xs"] by auto
  ultimately show ?thesis by (simp add: set_map_filter)
qed

lemma distinct_collect_touched [simp]: "distinct (collect_touched as xs)"
  using collect_touched_props by blast

lemma events_map_Inr:
  assumes "events_map at n = Inr rows"
  obtains evts where "at_events at = RpcOk (map Inr evts)"
    "rows = map (event_row_of n) (enumerate 0 evts)"
  using assms by (auto simp: events_map_def fetch_block_events_def with_timeout_def bind_r_Inr_iff
      collect_ok_Inr_iff split: rpc.splits)

lemma encode_phase_inj: "encode_phase p = encode_phase q \<Longrightarrow> p = q"
  by (cases p; cases q)
    (auto simp: phase_apply_extrinsic_def phase_finalization_def phase_initialization_def)

text \<open>The outcome of an extrinsic succeeds unless a failure event is among its events.\<close>

lemma resolve_outcome_success:
  "fst (resolve_outcome evts md rk) \<longleftrightarrow>
     (\<forall>e\<in>set evts. \<not> (ev_pallet e = ''System'' \<and> ev_name e = ''ExtrinsicFailed''))"
proof -
  have "fst (foldl (\<lambda>st evt. outcome_step md rk evt st) st evts) \<longleftrightarrow> fst st \<and>
      (\<forall>e\<in>set evts. \<not> (ev_pallet e = ''System'' \<and> ev_name e = ''ExtrinsicFailed''))" for st
  proof (induction evts arbitrary: st)
    case (Cons e es)
    have "fst (outcome_step md rk e st) \<longleftrightarrow>
        fst st \<and> \<not> (ev_pallet e = ''System'' \<and> ev_name e = ''ExtrinsicFailed'')"
      by (cases st) (auto simp: outcome_step_def split: option.splits prod.splits)
    then show ?case using Cons.IH by simp
  qed simp
  then show ?thesis by (simp add: resolve_outcome_def)
qed

section \<open>Properties\<close>

text \<open>The accounts of a block are collected without repetition, and they are exactly the
  accounts its events named and the signers of its extrinsics: none is lost, none is written twice
  by the snapshot statement.\<close>

theorem collect_touched_exact:
  "distinct (collect_touched as xs) \<and>
   set (collect_touched as xs) = set as \<union> {s. \<exists>x\<in>set xs. xr_signer x = Some s}"
  by (rule collect_touched_props)

text \<open>Indexing the events of a block keeps every event, in order, at consecutive indexes from
  zero, and its phase can be read back from the two columns it is stored in.\<close>

theorem events_map_faithful:
  assumes "events_map at n = Inr rows"
  shows "\<exists>evts. at_events at = RpcOk (map Inr evts) \<and> length rows = length evts \<and>
    (\<forall>i<length evts. ew_idx (rows ! i) = word_of_nat i \<and> ew_block_num (rows ! i) = n \<and>
       ew_pallet (rows ! i) = ev_pallet (evts ! i) \<and> ew_data_scale (rows ! i) = ev_field_bytes (evts ! i) \<and>
       (\<forall>p. encode_phase p = (ew_phase_kind (rows ! i), ew_phase_idx (rows ! i))
          \<longleftrightarrow> p = ev_phase (evts ! i)))"
proof -
  from assms obtain evts where e: "at_events at = RpcOk (map Inr evts)"
    "rows = map (event_row_of n) (enumerate 0 evts)" by (rule events_map_Inr)
  have row: "rows ! i = event_row_of n (i, evts ! i)" if "i < length evts" for i
    using that e(2) by (simp add: nth_enumerate_eq)
  have "(ew_phase_kind (event_row_of n (i, x)), ew_phase_idx (event_row_of n (i, x))) =
      encode_phase (ev_phase x)" for i x
    by (simp add: event_row_of_def split: prod.splits)
  moreover have "length rows = length evts" using e(2) by simp
  ultimately show ?thesis using e(1) row encode_phase_inj
    by (intro exI [of _ evts]) (auto simp: event_row_of_def split: prod.splits)
qed


lemma events_map_faithful_witness:
  "\<exists>rows. events_map (example_at 5 [example_event ''System'' ''NewAccount'' (ApplyExtrinsic 3) (example_fields [] [] 0),
       example_event ''Session'' ''NewSession'' Initialization (example_fields [] [] 0)] []) 5 = Inr rows \<and>
     length rows = 2 \<and> ew_idx (rows ! 1) = 1 \<and>
     encode_phase Initialization = (ew_phase_kind (rows ! 1), ew_phase_idx (rows ! 1))"
proof -
  let ?evts = "[example_event ''System'' ''NewAccount'' (ApplyExtrinsic 3) (example_fields [] [] 0),
       example_event ''Session'' ''NewSession'' Initialization (example_fields [] [] 0)]"
  have "collect_ok decode_event_err (map Inr ?evts) = Inr ?evts" by (simp only: collect_ok_Inr_iff)
  then obtain rows where r: "events_map (example_at 5 ?evts []) 5 = Inr rows"
    by (simp add: events_map_def fetch_block_events_def with_timeout_def example_at_def)
  from events_map_faithful [OF r] obtain evts where
    e: "at_events (example_at 5 ?evts []) = RpcOk (map Inr evts)" "length rows = length evts" and
    f: "\<forall>i<length evts. ew_idx (rows ! i) = word_of_nat i \<and> ew_block_num (rows ! i) = 5 \<and>
       ew_pallet (rows ! i) = ev_pallet (evts ! i) \<and> ew_data_scale (rows ! i) = ev_field_bytes (evts ! i) \<and>
       (\<forall>p. encode_phase p = (ew_phase_kind (rows ! i), ew_phase_idx (rows ! i))
          \<longleftrightarrow> p = ev_phase (evts ! i))" by blast
  have "?evts = evts"
    using e(1) unfolding example_at_def by (simp only: pinned_block.simps rpc.inject map_Inr_eq_iff)
  then have l: "length evts = 2" and ph: "ev_phase (evts ! 1) = Initialization"
    by (auto simp: example_event_def)
  from f l have "ew_idx (rows ! 1) = 1 \<and>
      (\<forall>p. encode_phase p = (ew_phase_kind (rows ! 1), ew_phase_idx (rows ! 1)) \<longleftrightarrow> p = ev_phase (evts ! 1))"
    by simp
  with r e(2) l ph show ?thesis by metis
qed

end
