(* ===== verification/Balances.thy ===== *)
theory Balances
  imports Projections
begin

text \<open>
  Balance movements: \<^verbatim>\<open>src/indexer/projections/balances.rs\<close>. A delta is an \<^verbatim>\<open>i128\<close>, modelled by its
  bits (a 128-bit word read with \<^verbatim>\<open>sint\<close>), so the cast of an amount is the identity on bits and the
  negation wraps as in a release build.
\<close>

section \<open>Rows and decoded events\<close>

datatype movement_kind =
    MTransfer | MDeposit | MWithdraw | MFee | MSlash | MReserve | MUnreserve | MReserveRepatriated
  | MBurn | MMinted | MFrozen | MThawed | MLocked | MUnlocked | MHeld | MReleased | MBurnedHeld
  | MTransferAndHold | MTransferOnHold | MEndowed | MDustLost | MRestored | MSuspended

fun as_i16 :: "movement_kind \<Rightarrow> int" where
  "as_i16 MTransfer = 0"
| "as_i16 MDeposit = 1"
| "as_i16 MWithdraw = 2"
| "as_i16 MFee = 3"
| "as_i16 MSlash = 4"
| "as_i16 MReserve = 5"
| "as_i16 MUnreserve = 6"
| "as_i16 MReserveRepatriated = 7"
| "as_i16 MBurn = 8"
| "as_i16 MMinted = 9"
| "as_i16 MFrozen = 10"
| "as_i16 MThawed = 11"
| "as_i16 MLocked = 12"
| "as_i16 MUnlocked = 13"
| "as_i16 MHeld = 14"
| "as_i16 MReleased = 15"
| "as_i16 MBurnedHeld = 16"
| "as_i16 MTransferAndHold = 17"
| "as_i16 MTransferOnHold = 18"
| "as_i16 MEndowed = 19"
| "as_i16 MDustLost = 20"
| "as_i16 MRestored = 21"
| "as_i16 MSuspended = 22"

record balance_movement_row =
  mv_block_num :: u64
  mv_event_idx :: u32
  mv_account :: bytes
  mv_kind :: movement_kind
  mv_delta :: u128
  mv_counterparty :: "bytes option"

datatype decoded_balance_event =
    EvTransfer bytes bytes u128
  | EvDeposit bytes u128
  | EvWithdraw bytes u128
  | EvSlash bytes u128
  | EvReserve bytes u128
  | EvUnreserve bytes u128
  | EvReserveRepatriated bytes u128
  | EvBurn bytes u128
  | EvMint bytes u128
  | EvFrozen bytes u128
  | EvThawed bytes u128
  | EvLocked bytes u128
  | EvUnlocked bytes u128
  | EvFee bytes u128
  | EvHeld bytes u128
  | EvReleased bytes u128
  | EvBurnedHeld bytes u128
  | EvTransferAndHold bytes bytes u128
  | EvTransferOnHold bytes bytes u128
  | EvEndowed bytes u128
  | EvDustLost bytes u128
  | EvRestored bytes u128
  | EvSuspended bytes u128

section \<open>Projection\<close>

definition single :: "u64 \<Rightarrow> u32 \<Rightarrow> bytes \<Rightarrow> movement_kind \<Rightarrow> u128 \<Rightarrow> balance_movement_row" where
  "single block_num event_idx acct kind delta =
     \<lparr> mv_block_num = block_num, mv_event_idx = event_idx, mv_account = acct, mv_kind = kind,
       mv_delta = delta, mv_counterparty = None \<rparr>"

text \<open>The two symmetric rows of an event with two parties.\<close>

definition two_rows ::
  "u64 \<Rightarrow> u32 \<Rightarrow> bytes \<Rightarrow> bytes \<Rightarrow> movement_kind \<Rightarrow> u128 \<Rightarrow> balance_movement_row list" where
  "two_rows block_num event_idx source dest kind amount =
     [\<lparr> mv_block_num = block_num, mv_event_idx = event_idx, mv_account = source, mv_kind = kind,
        mv_delta = - amount, mv_counterparty = Some dest \<rparr>,
      \<lparr> mv_block_num = block_num, mv_event_idx = event_idx, mv_account = dest, mv_kind = kind,
        mv_delta = amount, mv_counterparty = Some source \<rparr>]"

fun rows_of_event :: "u64 \<Rightarrow> u32 \<Rightarrow> decoded_balance_event \<Rightarrow> balance_movement_row list" where
  "rows_of_event b i (EvTransfer frm dest amount) = two_rows b i frm dest MTransfer amount"
| "rows_of_event b i (EvDeposit who amount) = [single b i who MDeposit amount]"
| "rows_of_event b i (EvWithdraw who amount) = [single b i who MWithdraw (- amount)]"
| "rows_of_event b i (EvSlash who amount) = [single b i who MSlash (- amount)]"
| "rows_of_event b i (EvReserve who amount) = [single b i who MReserve amount]"
| "rows_of_event b i (EvUnreserve who amount) = [single b i who MUnreserve (- amount)]"
| "rows_of_event b i (EvReserveRepatriated frm amount) = [single b i frm MReserveRepatriated (- amount)]"
| "rows_of_event b i (EvBurn who amount) = [single b i who MBurn (- amount)]"
| "rows_of_event b i (EvMint who amount) = [single b i who MMinted amount]"
| "rows_of_event b i (EvFrozen who amount) = [single b i who MFrozen amount]"
| "rows_of_event b i (EvThawed who amount) = [single b i who MThawed (- amount)]"
| "rows_of_event b i (EvLocked who amount) = [single b i who MLocked amount]"
| "rows_of_event b i (EvUnlocked who amount) = [single b i who MUnlocked (- amount)]"
| "rows_of_event b i (EvFee who amount) = [single b i who MFee (- amount)]"
| "rows_of_event b i (EvHeld who amount) = [single b i who MHeld amount]"
| "rows_of_event b i (EvReleased who amount) = [single b i who MReleased (- amount)]"
| "rows_of_event b i (EvBurnedHeld who amount) = [single b i who MBurnedHeld (- amount)]"
| "rows_of_event b i (EvTransferAndHold src dest amount) = two_rows b i src dest MTransferAndHold amount"
| "rows_of_event b i (EvTransferOnHold src dest amount) = two_rows b i src dest MTransferOnHold amount"
| "rows_of_event b i (EvEndowed acct amount) = [single b i acct MEndowed amount]"
| "rows_of_event b i (EvDustLost acct amount) = [single b i acct MDustLost (- amount)]"
| "rows_of_event b i (EvRestored who amount) = [single b i who MRestored amount]"
| "rows_of_event b i (EvSuspended who amount) = [single b i who MSuspended (- amount)]"

fun balances_project ::
  "(u32 \<times> decoded_balance_event) list \<Rightarrow> extrinsic_row list \<Rightarrow> u64 \<Rightarrow> balance_movement_row list" where
  "balances_project [] extrinsics block_num = []"
| "balances_project ((event_idx, evt) # rest) extrinsics block_num =
     rows_of_event block_num event_idx evt @ balances_project rest extrinsics block_num"

record block_balance_projection =
  bp_movements :: "balance_movement_row list"
  bp_touched_accounts :: "bytes list"

section \<open>Decoding\<close>

text \<open>The macro \<^verbatim>\<open>decode_event!\<close>: decode with the types of the runtime, then run the body.\<close>

definition decode_event ::
  "chain_event \<Rightarrow> runtime_kind \<Rightarrow> string \<Rightarrow> (decoded_fields \<Rightarrow> 'a) \<Rightarrow> 'a data_result" where
  "decode_event evt rk err body =
     map_ok body (map_err (\<lambda>e. Decode (err @ '': '' @ e)) (ev_decode evt rk))"

text \<open>The body of an arm with one account: it is pushed onto \<^verbatim>\<open>touched\<close> and becomes the event's.\<close>

definition one_party ::
  "string \<Rightarrow> string \<Rightarrow> (bytes \<Rightarrow> u128 \<Rightarrow> decoded_balance_event) \<Rightarrow> bytes list \<Rightarrow> decoded_fields
   \<Rightarrow> bytes list \<times> decoded_balance_event option" where
  "one_party who amount mk touched d =
     (let w = df_bytes d who in (touched @ [w], Some (mk w (df_u128 d amount))))"

definition two_party ::
  "string \<Rightarrow> string \<Rightarrow> string \<Rightarrow> (bytes \<Rightarrow> bytes \<Rightarrow> u128 \<Rightarrow> decoded_balance_event) \<Rightarrow> bytes list
   \<Rightarrow> decoded_fields \<Rightarrow> bytes list \<times> decoded_balance_event option" where
  "two_party frm dest amount mk touched d =
     (let f = df_bytes d frm; t = df_bytes d dest in (touched @ [f, t], Some (mk f t (df_u128 d amount))))"

definition touch_only :: "bytes list \<Rightarrow> decoded_fields \<Rightarrow> bytes list \<times> decoded_balance_event option" where
  "touch_only touched d = (touched @ [df_bytes d ''who''], None)"

text \<open>The arms of the pallet \<^verbatim>\<open>Balances\<close>, in the source's order, in two halves; a name that no arm
  knows is skipped.\<close>

definition decode_hold_event ::
  "chain_event \<Rightarrow> bytes list \<Rightarrow> runtime_kind \<Rightarrow> (bytes list \<times> decoded_balance_event option) data_result" where
  "decode_hold_event evt touched rk = (let n = ev_name evt in
     if n = ''Held'' then decode_event evt rk ''Balances.Held'' (one_party ''who'' ''amount'' EvHeld touched)
     else if n = ''Released'' then decode_event evt rk ''Balances.Released'' (one_party ''who'' ''amount'' EvReleased touched)
     else if n = ''BurnedHeld'' then decode_event evt rk ''Balances.BurnedHeld'' (one_party ''who'' ''amount'' EvBurnedHeld touched)
     else if n = ''TransferAndHold'' then
       decode_event evt rk ''Balances.TransferAndHold'' (two_party ''source'' ''dest'' ''transferred'' EvTransferAndHold touched)
     else if n = ''TransferOnHold'' then
       decode_event evt rk ''Balances.TransferOnHold'' (two_party ''source'' ''dest'' ''amount'' EvTransferOnHold touched)
     else if n = ''Endowed'' then decode_event evt rk ''Balances.Endowed'' (one_party ''account'' ''free_balance'' EvEndowed touched)
     else if n = ''DustLost'' then decode_event evt rk ''Balances.DustLost'' (one_party ''account'' ''amount'' EvDustLost touched)
     else if n = ''Restored'' then decode_event evt rk ''Balances.Restored'' (one_party ''who'' ''amount'' EvRestored touched)
     else if n = ''Suspended'' then decode_event evt rk ''Balances.Suspended'' (one_party ''who'' ''amount'' EvSuspended touched)
     else if n = ''BalanceSet'' then decode_event evt rk ''Balances.BalanceSet'' (touch_only touched)
     else if n = ''Upgraded'' then decode_event evt rk ''Balances.Upgraded'' (touch_only touched)
     else Inr (touched, None))"

definition decode_balance_event ::
  "chain_event \<Rightarrow> bytes list \<Rightarrow> runtime_kind \<Rightarrow> (bytes list \<times> decoded_balance_event option) data_result" where
  "decode_balance_event evt touched rk = (let p = ev_pallet evt; n = ev_name evt in
     if p = ''Balances'' then
       (if n = ''Transfer'' then decode_event evt rk ''Balances.Transfer'' (two_party ''from'' ''to'' ''amount'' EvTransfer touched)
        else if n = ''Deposit'' then decode_event evt rk ''Balances.Deposit'' (one_party ''who'' ''amount'' EvDeposit touched)
        else if n = ''Withdraw'' then decode_event evt rk ''Balances.Withdraw'' (one_party ''who'' ''amount'' EvWithdraw touched)
        else if n = ''Slashed'' then decode_event evt rk ''Balances.Slashed'' (one_party ''who'' ''amount'' EvSlash touched)
        else if n = ''Reserved'' then decode_event evt rk ''Balances.Reserved'' (one_party ''who'' ''amount'' EvReserve touched)
        else if n = ''Unreserved'' then decode_event evt rk ''Balances.Unreserved'' (one_party ''who'' ''amount'' EvUnreserve touched)
        else if n = ''ReserveRepatriated'' then
          decode_event evt rk ''Balances.ReserveRepatriated'' (one_party ''from'' ''amount'' EvReserveRepatriated touched)
        else if n = ''Burned'' then decode_event evt rk ''Balances.Burned'' (one_party ''who'' ''amount'' EvBurn touched)
        else if n = ''Minted'' then decode_event evt rk ''Balances.Minted'' (one_party ''who'' ''amount'' EvMint touched)
        else if n = ''Frozen'' then decode_event evt rk ''Balances.Frozen'' (one_party ''who'' ''amount'' EvFrozen touched)
        else if n = ''Thawed'' then decode_event evt rk ''Balances.Thawed'' (one_party ''who'' ''amount'' EvThawed touched)
        else if n = ''Locked'' then decode_event evt rk ''Balances.Locked'' (one_party ''who'' ''amount'' EvLocked touched)
        else if n = ''Unlocked'' then decode_event evt rk ''Balances.Unlocked'' (one_party ''who'' ''amount'' EvUnlocked touched)
        else decode_hold_event evt touched rk)
     else if p = ''TransactionPayment'' \<and> n = ''TransactionFeePaid'' then
       decode_event evt rk ''TransactionPayment.TransactionFeePaid'' (one_party ''who'' ''actual_fee'' EvFee touched)
     else Inr (touched, None))"

text \<open>The loop over the events of the block, with its index and its two accumulators.\<close>

fun decode_block_events ::
  "runtime_kind \<Rightarrow> nat \<Rightarrow> (string + chain_event) list \<Rightarrow> bytes list \<Rightarrow> (u32 \<times> decoded_balance_event) list
   \<Rightarrow> (bytes list \<times> (u32 \<times> decoded_balance_event) list) data_result" where
  "decode_block_events rk idx [] touched decoded = Inr (touched, decoded)"
| "decode_block_events rk idx (x # xs) touched decoded =
     bind_r (map_err decode_event_err x) (\<lambda>evt.
     bind_r (decode_balance_event evt touched rk) (\<lambda>(touched', d).
     decode_block_events rk (Suc idx) xs touched'
       (case d of None \<Rightarrow> decoded | Some e \<Rightarrow> decoded @ [(word_of_nat idx, e)])))"

definition balances_project_block ::
  "pinned_block \<Rightarrow> extrinsic_row list \<Rightarrow> u64 \<Rightarrow> runtime_kind \<Rightarrow> block_balance_projection data_result" where
  "balances_project_block at extrinsics block_num rk =
     bind_r (fetch_block_events at) (\<lambda>events.
     bind_r (decode_block_events rk 0 events [] []) (\<lambda>(touched, decoded).
     Inr \<lparr> bp_movements = balances_project decoded extrinsics block_num,
           bp_touched_accounts = touched \<rparr>))"


section \<open>Lemmas\<close>

text \<open>The accounts an event names, and the amount it carries.\<close>

fun parties :: "decoded_balance_event \<Rightarrow> bytes list" where
  "parties (EvTransfer a b _) = [a, b]"
| "parties (EvTransferAndHold a b _) = [a, b]"
| "parties (EvTransferOnHold a b _) = [a, b]"
| "parties (EvDeposit a _) = [a]"
| "parties (EvWithdraw a _) = [a]"
| "parties (EvSlash a _) = [a]"
| "parties (EvReserve a _) = [a]"
| "parties (EvUnreserve a _) = [a]"
| "parties (EvReserveRepatriated a _) = [a]"
| "parties (EvBurn a _) = [a]"
| "parties (EvMint a _) = [a]"
| "parties (EvFrozen a _) = [a]"
| "parties (EvThawed a _) = [a]"
| "parties (EvLocked a _) = [a]"
| "parties (EvUnlocked a _) = [a]"
| "parties (EvFee a _) = [a]"
| "parties (EvHeld a _) = [a]"
| "parties (EvReleased a _) = [a]"
| "parties (EvBurnedHeld a _) = [a]"
| "parties (EvEndowed a _) = [a]"
| "parties (EvDustLost a _) = [a]"
| "parties (EvRestored a _) = [a]"
| "parties (EvSuspended a _) = [a]"

definition row_accounts :: "balance_movement_row \<Rightarrow> bytes set" where
  "row_accounts r = insert (mv_account r) (set_option (mv_counterparty r))"

lemma rows_of_event_parties:
  "r \<in> set (rows_of_event b i e) \<Longrightarrow> row_accounts r \<subseteq> set (parties e) \<and> mv_event_idx r = i \<and> mv_block_num r = b"
  by (cases e) (auto simp: row_accounts_def single_def two_rows_def)

lemma decode_event_Inr_iff:
  "decode_event evt rk err body = Inr r \<longleftrightarrow> (\<exists>d. ev_decode evt rk = Inr d \<and> r = body d)"
  by (auto simp: decode_event_def map_ok_Inr_iff)

lemmas party_defs = one_party_def two_party_def touch_only_def Let_def

lemma decode_hold_event_touched:
  "decode_hold_event evt touched rk = Inr (touched', d) \<Longrightarrow>
     \<exists>accts. touched' = touched @ accts \<and> (\<forall>e. d = Some e \<longrightarrow> set (parties e) \<subseteq> set accts)"
  by (auto simp: decode_hold_event_def decode_event_Inr_iff party_defs split: if_splits)

lemma decode_balance_event_touched:
  "decode_balance_event evt touched rk = Inr (touched', d) \<Longrightarrow>
     \<exists>accts. touched' = touched @ accts \<and> (\<forall>e. d = Some e \<longrightarrow> set (parties e) \<subseteq> set accts)"
  by (auto simp: decode_balance_event_def decode_event_Inr_iff party_defs
      dest: decode_hold_event_touched split: if_splits)

lemma decode_block_events_inv:
  assumes "decode_block_events rk idx xs touched decoded = Inr (touched', decoded')"
    and "\<forall>(i, e)\<in>set decoded. set (parties e) \<subseteq> set touched"
  shows "prefix touched touched' \<and> (\<forall>(i, e)\<in>set decoded'. set (parties e) \<subseteq> set touched')"
  using assms
proof (induction rk idx xs touched decoded rule: decode_block_events.induct)
  case (2 rk idx x xs touched decoded)
  from "2.prems"(1) obtain evt t d where x: "map_err decode_event_err x = Inr evt"
    and d: "decode_balance_event evt touched rk = Inr (t, d)"
    and rest: "decode_block_events rk (Suc idx) xs t
        (case d of None \<Rightarrow> decoded | Some e \<Rightarrow> decoded @ [(word_of_nat idx, e)]) = Inr (touched', decoded')"
    by (auto simp: bind_r_Inr_iff)
  from decode_balance_event_touched [OF d] obtain accts where
    a: "t = touched @ accts" "\<forall>e. d = Some e \<longrightarrow> set (parties e) \<subseteq> set accts" by blast
  have "\<forall>(i, e)\<in>set (case d of None \<Rightarrow> decoded | Some e \<Rightarrow> decoded @ [(word_of_nat idx, e)]).
      set (parties e) \<subseteq> set t"
    using "2.prems"(2) a by (auto split: option.splits)
  from "2.IH" [OF rest this] a show ?case
    using append_prefixD by blast
qed auto

lemma balances_project_rows:
  "r \<in> set (balances_project dec xts b) \<longleftrightarrow> (\<exists>(i, e)\<in>set dec. r \<in> set (rows_of_event b i e))"
  by (induction dec) auto


text \<open>The indexes under which the events of a block are decoded: strictly ascending positions.\<close>

lemma decode_block_events_idx:
  assumes "decode_block_events rk idx xs touched decoded = Inr (touched', decoded')"
    and "sorted_wrt (<) (map (\<lambda>p. unat (fst p)) decoded)" "\<forall>(i, e)\<in>set decoded. unat i < idx"
    and "idx + length xs < 2 ^ 32"
  shows "sorted_wrt (<) (map (\<lambda>p. unat (fst p)) decoded')"
  using assms
proof (induction rk idx xs touched decoded rule: decode_block_events.induct)
  case (2 rk idx x xs touched decoded)
  from "2.prems"(1) obtain evt t d where
    rest: "decode_block_events rk (Suc idx) xs t
        (case d of None \<Rightarrow> decoded | Some e \<Rightarrow> decoded @ [(word_of_nat idx, e)]) = Inr (touched', decoded')"
    by (auto simp: bind_r_Inr_iff)
  have u: "unat (word_of_nat idx :: u32) = idx"
    using "2.prems"(4) by (simp add: unsigned_of_nat take_bit_nat_eq_self)
  let ?d = "case d of None \<Rightarrow> decoded | Some e \<Rightarrow> decoded @ [(word_of_nat idx, e)]"
  have "sorted_wrt (<) (map (\<lambda>p. unat (fst p)) ?d)" "\<forall>(i, e)\<in>set ?d. unat i < Suc idx"
    using "2.prems"(2,3) u by (auto simp: sorted_wrt_append less_SucI split: option.splits)
  from "2.IH" [OF rest this] "2.prems"(4) show ?case by simp
qed auto

definition movement_key :: "balance_movement_row \<Rightarrow> u32 \<times> bytes" where
  "movement_key r = (mv_event_idx r, mv_account r)"

lemma rows_of_event_keys:
  "\<forall>r\<in>set (rows_of_event b i e). mv_counterparty r \<noteq> Some (mv_account r) \<Longrightarrow>
   distinct (map movement_key (rows_of_event b i e))"
  by (cases e) (auto simp: single_def two_rows_def movement_key_def)

lemma balances_project_keys:
  assumes "sorted_wrt (<) (map (\<lambda>p. unat (fst p)) dec)"
    and "\<forall>r\<in>set (balances_project dec xts b). mv_counterparty r \<noteq> Some (mv_account r)"
  shows "distinct (map movement_key (balances_project dec xts b))"
  using assms
proof (induction dec xts b rule: balances_project.induct)
  case (2 i e rest xts b)
  have "movement_key r \<noteq> movement_key r'"
    if r: "r \<in> set (rows_of_event b i e)" "r' \<in> set (balances_project rest xts b)" for r r'
  proof -
    from r(2) obtain j e' where "(j, e') \<in> set rest" "r' \<in> set (rows_of_event b j e')"
      by (auto simp: balances_project_rows)
    moreover have "unat i < unat j" using "2.prems"(1) calculation(1) by force
    ultimately show ?thesis using rows_of_event_parties [OF r(1)] rows_of_event_parties
      by (auto simp: movement_key_def)
  qed
  moreover have "distinct (map movement_key (rows_of_event b i e))"
    using "2.prems"(2) by (intro rows_of_event_keys) auto
  moreover have "distinct (map movement_key (balances_project rest xts b))"
    using "2.IH" "2.prems" by simp
  ultimately show ?case by fastforce
qed simp

text \<open>The kinds that the documentation of \<^verbatim>\<open>delta\<close> and the arms count as a gain.\<close>

definition gain_kinds :: "movement_kind set" where
  "gain_kinds = {MDeposit, MMinted, MReserve, MFrozen, MLocked, MHeld, MEndowed, MRestored}"

fun event_amount :: "decoded_balance_event \<Rightarrow> u128" where
  "event_amount (EvTransfer _ _ n) = n"
| "event_amount (EvTransferAndHold _ _ n) = n"
| "event_amount (EvTransferOnHold _ _ n) = n"
| "event_amount (EvDeposit _ n) = n"
| "event_amount (EvWithdraw _ n) = n"
| "event_amount (EvSlash _ n) = n"
| "event_amount (EvReserve _ n) = n"
| "event_amount (EvUnreserve _ n) = n"
| "event_amount (EvReserveRepatriated _ n) = n"
| "event_amount (EvBurn _ n) = n"
| "event_amount (EvMint _ n) = n"
| "event_amount (EvFrozen _ n) = n"
| "event_amount (EvThawed _ n) = n"
| "event_amount (EvLocked _ n) = n"
| "event_amount (EvUnlocked _ n) = n"
| "event_amount (EvFee _ n) = n"
| "event_amount (EvHeld _ n) = n"
| "event_amount (EvReleased _ n) = n"
| "event_amount (EvBurnedHeld _ n) = n"
| "event_amount (EvEndowed _ n) = n"
| "event_amount (EvDustLost _ n) = n"
| "event_amount (EvRestored _ n) = n"
| "event_amount (EvSuspended _ n) = n"

lemma uint_small: "unat n < 2 ^ 127 \<Longrightarrow> uint n < 2 ^ 127" for n :: u128
proof -
  assume "unat n < 2 ^ 127"
  then have "int (unat n) < int (2 ^ 127)" by (simp only: of_nat_less_iff)
  then show ?thesis by simp
qed

lemma sint_amount: "unat n < 2 ^ 127 \<Longrightarrow> sint n = int (unat n)" for n :: u128
proof -
  assume "unat n < 2 ^ 127"
  then have "uint n < 2 ^ 127" by (rule uint_small)
  moreover have "sint n = signed_take_bit 127 (uint n)" by (simp add: sint_uint)
  moreover have "signed_take_bit 127 (uint n) = uint n"
    using calculation(1) by (intro signed_take_bit_int_eq_self) (simp_all add: order_trans [of _ 0])
  ultimately show ?thesis by simp
qed

lemma sint_neg_amount: "unat n < 2 ^ 127 \<Longrightarrow> sint (- n) = - int (unat n)" for n :: u128
proof -
  assume a: "unat n < 2 ^ 127"
  have u: "uint n < 2 ^ 127" using a by (rule uint_small)
  have "sint (- n) = signed_take_bit 127 (- sint n)" by (simp add: sint_word_minus)
  also have "- sint n = - uint n" using sint_amount [OF a] by simp
  also have "signed_take_bit 127 (- uint n) = - uint n"
  proof (rule signed_take_bit_int_eq_self)
    show "- (2 ^ 127) \<le> - uint n" using u by linarith
    have "- uint n \<le> 0" by simp
    then show "- uint n < 2 ^ 127" by (rule order.strict_trans1) simp
  qed
  finally show ?thesis by simp
qed

lemma rows_of_event_cases:
  "(\<exists>a c k. rows_of_event b i e = two_rows b i a c k (event_amount e)) \<or>
   (\<exists>a k. rows_of_event b i e = [single b i a k (if k \<in> gain_kinds then event_amount e else - event_amount e)])"
  by (cases e) (auto simp: gain_kinds_def)

lemma balances_project_block_rows:
  assumes "balances_project_block at xts n rk = Inr p" and "r \<in> set (bp_movements p)"
  shows "row_accounts r \<subseteq> set (bp_touched_accounts p) \<and> mv_block_num r = n"
proof -
  from assms(1) obtain events dec where
    d: "decode_block_events rk 0 events [] [] = Inr (bp_touched_accounts p, dec)"
    and m: "bp_movements p = balances_project dec xts n"
    by (auto simp: balances_project_block_def bind_r_Inr_iff)
  from assms(2) m obtain i e where ie: "(i, e) \<in> set dec" "r \<in> set (rows_of_event n i e)"
    by (auto simp: balances_project_rows)
  have "set (parties e) \<subseteq> set (bp_touched_accounts p)"
    using decode_block_events_inv [OF d] ie(1) by fastforce
  with rows_of_event_parties [OF ie(2)] show ?thesis by auto
qed

section \<open>Properties\<close>

text \<open>Every account that a movement row of a block names, as its account or as its counterparty,
  is among the accounts whose on-chain balance will be fetched: no row is written for an account
  whose snapshot is forgotten.\<close>

theorem movements_touch_accounts:
  assumes "balances_project_block at xts n rk = Inr p" and "r \<in> set (bp_movements p)"
  shows "mv_account r \<in> set (bp_touched_accounts p) \<and>
    set_option (mv_counterparty r) \<subseteq> set (bp_touched_accounts p) \<and> mv_block_num r = n"
  using balances_project_block_rows [OF assms] by (simp add: row_accounts_def)



text \<open>The rows of a block have pairwise different keys (event index and account), so that none
  is dropped by the insert, unless an event moves funds from an account to itself.\<close>

theorem movement_keys_distinct:
  assumes "balances_project_block at xts n rk = Inr p"
    and "at_events at = RpcOk events" "length events < 2 ^ 32"
    and "\<forall>r\<in>set (bp_movements p). mv_counterparty r \<noteq> Some (mv_account r)"
  shows "distinct (map movement_key (bp_movements p))"
proof -
  from assms(1,2) obtain dec where
    d: "decode_block_events rk 0 events [] [] = Inr (bp_touched_accounts p, dec)"
    and m: "bp_movements p = balances_project dec xts n"
    by (auto simp: balances_project_block_def fetch_block_events_def with_timeout_def bind_r_Inr_iff)
  have "sorted_wrt (<) (map (\<lambda>p. unat (fst p)) dec)"
    using decode_block_events_idx [OF d] assms(3) by simp
  then show ?thesis using balances_project_keys assms(4) m by metis
qed

text \<open>The block used by the witnesses: one transfer.\<close>

definition example_transfer_block :: pinned_block where
  "example_transfer_block = example_at 5 [example_event ''Balances'' ''Transfer'' (ApplyExtrinsic 1)
     (example_fields [1] [2] 500)] []"

lemma example_transfer_block_project:
  "balances_project_block example_transfer_block [] 5 Allfeat =
     Inr \<lparr> bp_movements = two_rows 5 0 [1] [2] MTransfer 500, bp_touched_accounts = [[1], [2]] \<rparr>"
  by (simp add: balances_project_block_def example_transfer_block_def example_at_def
      fetch_block_events_def with_timeout_def decode_balance_event_def decode_event_def
      example_event_def example_fields_def two_party_def Let_def)

lemma movements_touch_accounts_witness:
  "\<exists>p. balances_project_block example_transfer_block [] 5 Allfeat = Inr p \<and>
     (\<forall>r\<in>set (bp_movements p). mv_account r \<in> set (bp_touched_accounts p))"
  using movements_touch_accounts [OF example_transfer_block_project] example_transfer_block_project
  by blast

lemma movement_keys_distinct_witness:
  "\<exists>p. balances_project_block example_transfer_block [] 5 Allfeat = Inr p \<and>
     distinct (map movement_key (bp_movements p))"
proof -
  have "at_events example_transfer_block = RpcOk [Inr (example_event ''Balances'' ''Transfer''
      (ApplyExtrinsic 1) (example_fields [1] [2] 500))]"
    by (simp add: example_transfer_block_def example_at_def)
  from movement_keys_distinct [OF example_transfer_block_project this]
  show ?thesis using example_transfer_block_project by (auto simp: two_rows_def)
qed

end
