(* ===== verification/Ats.thy ===== *)
theory Ats
  imports Projections
begin

text \<open>
  The ATS registry side of a block: \<^verbatim>\<open>src/indexer/projections/ats.rs\<close>. Three events drive it; the
  operations they yield are applied by the sink.
\<close>

section \<open>Operations of a block\<close>

record ats_registry_row =
  rg_id :: u64
  rg_owner :: bytes
  rg_created_block :: u64
  rg_created_ext_idx :: u32
  rg_version_count :: u32

record ats_version_row =
  vr_ats_id :: u64
  vr_version :: u32
  vr_block_num :: u64
  vr_ext_idx :: u32
  vr_commitment :: bytes
  vr_protocol_version :: u8

record ats_version_count_bump =
  vb_ats_id :: u64
  vb_version_count :: u32

record ats_ops =
  registry_inserts :: "ats_registry_row list"
  version_inserts :: "ats_version_row list"
  version_count_bumps :: "ats_version_count_bump list"
  revocations :: "u64 list"

definition ats_ops_default :: ats_ops where
  "ats_ops_default = \<lparr> registry_inserts = [], version_inserts = [], version_count_bumps = [],
     revocations = [] \<rparr>"

definition ats_ops_is_empty :: "ats_ops \<Rightarrow> bool" where
  "ats_ops_is_empty ops \<longleftrightarrow> registry_inserts ops = [] \<and> version_inserts ops = [] \<and>
     version_count_bumps ops = [] \<and> revocations ops = []"

datatype decoded_ats_event =
    AtsCreated u64 bytes bytes u8
  | AtsUpdated u64 u32 bytes u8
  | AtsRevoked u64

section \<open>Projection\<close>

fun ats_project_event :: "u64 \<Rightarrow> u32 \<Rightarrow> decoded_ats_event \<Rightarrow> ats_ops \<Rightarrow> ats_ops" where
  "ats_project_event block_num ext_idx (AtsCreated ats_id owner commitment protocol_version) ops =
     ops\<lparr> registry_inserts := registry_inserts ops @ [\<lparr> rg_id = ats_id, rg_owner = owner,
            rg_created_block = block_num, rg_created_ext_idx = ext_idx, rg_version_count = 1 \<rparr>],
          version_inserts := version_inserts ops @ [\<lparr> vr_ats_id = ats_id, vr_version = 0,
            vr_block_num = block_num, vr_ext_idx = ext_idx, vr_commitment = commitment,
            vr_protocol_version = protocol_version \<rparr>] \<rparr>"
| "ats_project_event block_num ext_idx (AtsUpdated ats_id version commitment protocol_version) ops =
     ops\<lparr> version_inserts := version_inserts ops @ [\<lparr> vr_ats_id = ats_id, vr_version = version,
            vr_block_num = block_num, vr_ext_idx = ext_idx, vr_commitment = commitment,
            vr_protocol_version = protocol_version \<rparr>],
          version_count_bumps := version_count_bumps ops @
            [\<lparr> vb_ats_id = ats_id, vb_version_count = sat_add version 1 \<rparr>] \<rparr>"
| "ats_project_event block_num ext_idx (AtsRevoked ats_id) ops =
     ops\<lparr> revocations := revocations ops @ [ats_id] \<rparr>"

definition ats_project ::
  "(u32 \<times> decoded_ats_event) list \<Rightarrow> extrinsic_row list \<Rightarrow> u64 \<Rightarrow> ats_ops" where
  "ats_project decoded extrinsics block_num =
     foldl (\<lambda>ops (ext_idx, evt). ats_project_event block_num ext_idx evt ops) ats_ops_default decoded"

definition decode_ats_event :: "chain_event \<Rightarrow> runtime_kind \<Rightarrow> decoded_ats_event option data_result" where
  "decode_ats_event evt rk = (let p = ev_pallet evt; n = ev_name evt in
     if p = ''Ats'' \<and> n = ''AtsCreated'' then
       map_ok (\<lambda>d. Some (AtsCreated (df_u64 d ''ats_id'') (df_bytes d ''owner'')
           (df_bytes d ''commitment'') (df_u8 d ''protocol_version'')))
         (map_err (\<lambda>e. Decode (''Ats.AtsCreated: '' @ e)) (ev_decode evt rk))
     else if p = ''Ats'' \<and> n = ''AtsUpdated'' then
       map_ok (\<lambda>d. Some (AtsUpdated (df_u64 d ''ats_id'') (df_u32 d ''version'')
           (df_bytes d ''commitment'') (df_u8 d ''protocol_version'')))
         (map_err (\<lambda>e. Decode (''Ats.AtsUpdated: '' @ e)) (ev_decode evt rk))
     else if p = ''Ats'' \<and> n = ''AtsRevoked'' then
       map_ok (\<lambda>d. Some (AtsRevoked (df_u64 d ''ats_id'')))
         (map_err (\<lambda>e. Decode (''Ats.AtsRevoked: '' @ e)) (ev_decode evt rk))
     else Inr None)"

text \<open>The loop: an event outside extrinsic application is skipped before it is decoded.\<close>

fun decode_ats_events ::
  "runtime_kind \<Rightarrow> (string + chain_event) list \<Rightarrow> (u32 \<times> decoded_ats_event) list
   \<Rightarrow> (u32 \<times> decoded_ats_event) list data_result" where
  "decode_ats_events rk [] decoded = Inr decoded"
| "decode_ats_events rk (x # xs) decoded =
     bind_r (map_err decode_event_err x) (\<lambda>evt. case ev_phase evt of
         ApplyExtrinsic ext_idx \<Rightarrow> bind_r (decode_ats_event evt rk) (\<lambda>d.
           decode_ats_events rk xs (case d of None \<Rightarrow> decoded | Some e \<Rightarrow> decoded @ [(ext_idx, e)]))
       | _ \<Rightarrow> decode_ats_events rk xs decoded)"

definition ats_project_block ::
  "pinned_block \<Rightarrow> extrinsic_row list \<Rightarrow> u64 \<Rightarrow> runtime_kind \<Rightarrow> ats_ops data_result" where
  "ats_project_block at extrinsics block_num rk =
     bind_r (fetch_block_events at) (\<lambda>events.
     bind_r (decode_ats_events rk events []) (\<lambda>decoded.
     Inr (ats_project decoded extrinsics block_num)))"

section \<open>Lemmas\<close>

text \<open>The operations as functions of the list of events.\<close>

fun created_row :: "u64 \<Rightarrow> u32 \<times> decoded_ats_event \<Rightarrow> ats_registry_row option" where
  "created_row b (x, AtsCreated i own c p) = Some \<lparr> rg_id = i, rg_owner = own, rg_created_block = b,
     rg_created_ext_idx = x, rg_version_count = 1 \<rparr>"
| "created_row b _ = None"

fun version_row :: "u64 \<Rightarrow> u32 \<times> decoded_ats_event \<Rightarrow> ats_version_row option" where
  "version_row b (x, AtsCreated i own c p) = Some \<lparr> vr_ats_id = i, vr_version = 0, vr_block_num = b,
     vr_ext_idx = x, vr_commitment = c, vr_protocol_version = p \<rparr>"
| "version_row b (x, AtsUpdated i v c p) = Some \<lparr> vr_ats_id = i, vr_version = v, vr_block_num = b,
     vr_ext_idx = x, vr_commitment = c, vr_protocol_version = p \<rparr>"
| "version_row b (x, AtsRevoked i) = None"

fun bump_row :: "u32 \<times> decoded_ats_event \<Rightarrow> ats_version_count_bump option" where
  "bump_row (x, AtsUpdated i v c p) = Some \<lparr> vb_ats_id = i, vb_version_count = sat_add v 1 \<rparr>"
| "bump_row _ = None"

fun revoked_id :: "u32 \<times> decoded_ats_event \<Rightarrow> u64 option" where
  "revoked_id (x, AtsRevoked i) = Some i"
| "revoked_id _ = None"

lemma ats_project_eq:
  "ats_project dec xts b = \<lparr> registry_inserts = List.map_filter (created_row b) dec,
     version_inserts = List.map_filter (version_row b) dec,
     version_count_bumps = List.map_filter bump_row dec,
     revocations = List.map_filter revoked_id dec \<rparr>"
proof -
  have "foldl (\<lambda>ops (x, e). ats_project_event b x e ops) ops dec =
    \<lparr> registry_inserts = registry_inserts ops @ List.map_filter (created_row b) dec,
      version_inserts = version_inserts ops @ List.map_filter (version_row b) dec,
      version_count_bumps = version_count_bumps ops @ List.map_filter bump_row dec,
      revocations = revocations ops @ List.map_filter revoked_id dec \<rparr>" for ops
  proof (induction dec arbitrary: ops)
    case Nil
    then show ?case by (simp add: map_filter_simps)
  next
    case (Cons d dec)
    obtain x e where "d = (x, e)" by (cases d)
    then show ?case by (cases e) (simp_all add: Cons.IH map_filter_simps)
  qed
  then show ?thesis by (simp add: ats_project_def ats_ops_default_def)
qed

text \<open>Every version a block adds belongs to an ATS it creates or bumps the counter past it.\<close>

lemma version_row_counted:
  "version_row b d = Some v \<Longrightarrow>
     (\<exists>r. created_row b d = Some r \<and> rg_id r = vr_ats_id v \<and> vr_version v = 0) \<or>
     (\<exists>u. bump_row d = Some u \<and> vb_ats_id u = vr_ats_id v \<and> vb_version_count u = sat_add (vr_version v) 1)"
  by (cases "(b, d)" rule: version_row.cases) auto

section \<open>Properties\<close>

text \<open>Every version a block adds is accounted for in the registry by the same block: either it
  is the version zero of an ATS the block registers with the count one, or the block raises the
  count of its ATS to the version plus one.\<close>

theorem ats_versions_counted:
  assumes "v \<in> set (version_inserts (ats_project dec xts b))"
  shows "vr_block_num v = b \<and>
    ((\<exists>r\<in>set (registry_inserts (ats_project dec xts b)).
        rg_id r = vr_ats_id v \<and> vr_version v = 0 \<and> rg_version_count r = 1) \<or>
     (\<exists>u\<in>set (version_count_bumps (ats_project dec xts b)).
        vb_ats_id u = vr_ats_id v \<and> vb_version_count u = sat_add (vr_version v) 1))"
proof -
  from assms obtain d where d: "d \<in> set dec" "version_row b d = Some v"
    by (auto simp: ats_project_eq set_map_filter)
  have "vr_block_num v = b" "\<And>r. created_row b d = Some r \<Longrightarrow> rg_version_count r = 1"
    using d(2) by (cases "(b, d)" rule: version_row.cases; auto)+
  then show ?thesis using version_row_counted [OF d(2)] d(1)
    by (auto simp: ats_project_eq set_map_filter)
qed

lemma ats_versions_counted_witness:
  "\<exists>u\<in>set (version_count_bumps (ats_project [(1, AtsUpdated 7 2 [9] 1)] [] 5)).
     vb_ats_id u = 7 \<and> unat (vb_version_count u) = 3"
  using ats_versions_counted [of "\<lparr> vr_ats_id = 7, vr_version = 2, vr_block_num = 5, vr_ext_idx = 1,
      vr_commitment = [9], vr_protocol_version = 1 \<rparr>" "[(1, AtsUpdated 7 2 [9] 1)]" "[]" 5]
  by (auto simp: ats_project_eq map_filter_simps unat_sat_add)

end
