(* ===== verification/Sink.thy ===== *)
theory Sink
  imports Balances Ats
begin

text \<open>
  The database and the statements that write it: \<^verbatim>\<open>src/indexer/sink.rs\<close> over the schema of
  \<^verbatim>\<open>migrations/004_schema_rework.sql\<close>. A table is a map from its primary key to the other columns;
  a BIGINT or INT column is the \<^verbatim>\<open>int\<close> that the cast \<^verbatim>\<open>as i64\<close> or \<^verbatim>\<open>as i32\<close> of the source gives.
  A statement runs inside a transaction: on any error the caller drops the transaction and the
  database is what it was before. The argument \<^verbatim>\<open>flt\<close> says which statements fail for reasons of the
  environment (connection, server), with the text of the error.
\<close>

section \<open>Tables\<close>

record block_db =
  kb_hash :: bytes
  kb_parent_hash :: bytes
  kb_state_root :: bytes
  kb_extrinsics_root :: bytes
  kb_author_id :: "int option"
  kb_timestamp_ms :: int
  kb_spec_version :: int
  kb_extrinsic_count :: int
  kb_event_count :: int
  kb_ref_time :: int
  kb_proof_size :: int
  kb_ref_time_pct :: int
  kb_size_bytes :: int

record extrinsic_db =
  kx_hash :: bytes
  kx_pallet :: string
  kx_call :: string
  kx_signer :: "bytes option"
  kx_tip :: "nat option"
  kx_fee :: nat
  kx_nonce :: "int option"
  kx_success :: bool
  kx_args_scale :: bytes
  kx_timestamp_ms :: int

record event_db =
  ke_phase_kind :: int
  ke_phase_idx :: "int option"
  ke_pallet :: string
  ke_variant :: string
  ke_data_scale :: bytes
  ke_timestamp_ms :: int

record movement_db =
  km_kind :: int
  km_delta :: int
  km_counterparty :: "bytes option"

record account_db =
  ka_free :: nat
  ka_reserved :: nat
  ka_frozen :: nat
  ka_nonce :: int
  ka_first_seen_block :: int
  ka_last_activity_block :: int
  ka_first_seen_ms :: int
  ka_last_activity_ms :: int

record registry_db =
  kr_owner :: bytes
  kr_created_block :: int
  kr_created_ext_idx :: int
  kr_version_count :: int

record version_db =
  kv_block_num :: int
  kv_ext_idx :: int
  kv_commitment :: bytes
  kv_protocol_version :: int

datatype chunk_status = Pending | Running | Done

record chunk_db =
  kc_id :: int
  kc_network :: int
  kc_from :: int
  kc_to :: int
  kc_status :: chunk_status
  kc_lease_until :: "int option"
  kc_last_error :: "string option"

record db =
  t_networks :: "int \<rightharpoonup> string"
  t_authors :: "int \<times> bytes \<rightharpoonup> int"
  t_next_author :: int
  t_blocks :: "int \<times> int \<rightharpoonup> block_db"
  t_block_hash :: "int \<times> bytes \<rightharpoonup> int"
  t_extrinsics :: "int \<times> int \<times> int \<rightharpoonup> extrinsic_db"
  t_events :: "int \<times> int \<times> int \<rightharpoonup> event_db"
  t_movements :: "int \<times> int \<times> int \<times> bytes \<rightharpoonup> movement_db"
  t_accounts :: "int \<times> bytes \<rightharpoonup> account_db"
  t_registry :: "int \<times> int \<rightharpoonup> registry_db"
  t_versions :: "int \<times> int \<times> int \<rightharpoonup> version_db"
  t_cursor :: "int \<times> string \<rightharpoonup> int \<times> int"
  t_chunks :: "chunk_db list"
  t_next_chunk :: int

definition empty_db :: db where
  "empty_db = \<lparr> t_networks = Map.empty, t_authors = Map.empty, t_next_author = 1,
     t_blocks = Map.empty, t_block_hash = Map.empty, t_extrinsics = Map.empty,
     t_events = Map.empty, t_movements = Map.empty, t_accounts = Map.empty,
     t_registry = Map.empty, t_versions = Map.empty, t_cursor = Map.empty, t_chunks = [],
     t_next_chunk = 1 \<rparr>"

section \<open>Statements\<close>

definition live_cursor :: string where
  "live_cursor = ''live''"

definition max_binds_per_query :: nat where
  "max_binds_per_query = 65000"

datatype statement =
    StBegin | StInsertBlock | StExtrinsics nat | StEvents nat | StMovements nat | StSnapshots nat
  | StGenesisSnapshots nat | StReconcile nat | StRegistry | StVersions | StBump nat | StRevoke nat
  | StCursor | StCommit

type_synonym faults = "statement \<Rightarrow> string option"

definition no_faults :: faults where
  "no_faults _ = None"

definition show_int :: "int \<Rightarrow> string" where
  "show_int i = (if i < 0 then CHR ''-'' # show_nat (nat (- i)) else show_nat (nat i))"

text \<open>A statement fails when the environment makes it fail or when it violates a constraint.\<close>

definition run_stmt :: "faults \<Rightarrow> statement \<Rightarrow> (string \<Rightarrow> data_error) \<Rightarrow> string + 'a \<Rightarrow> 'a data_result" where
  "run_stmt flt st on_err r = (case flt st of Some e \<Rightarrow> Inl (on_err e) | None \<Rightarrow> map_err on_err r)"

text \<open>\<^verbatim>\<open>slice::chunks\<close>; the chunk sizes of the source are positive constants.\<close>

function chunks :: "nat \<Rightarrow> 'a list \<Rightarrow> 'a list list" where
  "chunks n xs = (if n = 0 \<or> xs = [] then [] else take n xs # chunks n (drop n xs))"
  by auto
termination by (relation "measure (\<lambda>(n, xs). length xs)") auto

declare chunks.simps [simp del]

text \<open>One statement per chunk, in order; the first error ends the loop.\<close>

fun exec_chunks ::
  "faults \<Rightarrow> (nat \<Rightarrow> statement) \<Rightarrow> ('r list \<Rightarrow> string \<Rightarrow> data_error) \<Rightarrow> ('r list \<Rightarrow> 'd \<Rightarrow> string + 'd)
   \<Rightarrow> nat \<Rightarrow> 'r list list \<Rightarrow> 'd \<Rightarrow> 'd data_result" where
  "exec_chunks flt st on_err stmt i [] d = Inr d"
| "exec_chunks flt st on_err stmt i (c # cs) d =
     bind_r (run_stmt flt (st i) (on_err c) (stmt c d)) (exec_chunks flt st on_err stmt (Suc i) cs)"

text \<open>\<^verbatim>\<open>INSERT ... ON CONFLICT (key) DO NOTHING\<close>: a row whose key is present is skipped, also when an
  earlier row of the statement brought it; a new row must satisfy the foreign key.\<close>

fun insert_do_nothing ::
  "('r \<Rightarrow> 'k) \<Rightarrow> ('r \<Rightarrow> 'v) \<Rightarrow> ('r \<Rightarrow> bool) \<Rightarrow> 'r list \<Rightarrow> ('k \<rightharpoonup> 'v) \<Rightarrow> string + ('k \<rightharpoonup> 'v)" where
  "insert_do_nothing key val fk [] t = Inr t"
| "insert_do_nothing key val fk (r # rs) t =
     (case t (key r) of
        Some _ \<Rightarrow> insert_do_nothing key val fk rs t
      | None \<Rightarrow> if fk r then insert_do_nothing key val fk rs (t(key r \<mapsto> val r))
                else Inl ''violates foreign key constraint'')"

subsection \<open>Blocks\<close>

definition block_db_of :: "block_row \<Rightarrow> int option \<Rightarrow> block_db" where
  "block_db_of row author_id = \<lparr> kb_hash = br_hash row, kb_parent_hash = br_parent_hash row,
     kb_state_root = br_state_root row, kb_extrinsics_root = br_extrinsics_root row,
     kb_author_id = author_id, kb_timestamp_ms = br_timestamp_ms row,
     kb_spec_version = sint (br_spec_version row), kb_extrinsic_count = sint (br_extrinsic_count row),
     kb_event_count = sint (br_event_count row), kb_ref_time = sint (br_ref_time row),
     kb_proof_size = sint (br_proof_size row), kb_ref_time_pct = uint (br_ref_time_pct row),
     kb_size_bytes = sint (br_size_bytes row) \<rparr>"

text \<open>The primary key is the conflict target; the unique index on the hash is not, so a second
  block with the same hash is an error.\<close>

definition insert_block ::
  "faults \<Rightarrow> int \<Rightarrow> block_row \<Rightarrow> int option \<Rightarrow> db \<Rightarrow> (bool \<times> db) data_result" where
  "insert_block flt sid row author_id d =
     run_stmt flt StInsertBlock
       (\<lambda>e. Rpc (''insert_block(net='' @ show_int sid @ ''/'' @ show_word (br_num row) @ ''): '' @ e))
       (let k = (sid, sint (br_num row)) in
        case t_blocks d k of
          Some _ \<Rightarrow> Inr (False, d)
        | None \<Rightarrow>
            (case t_block_hash d (sid, br_hash row) of
               Some _ \<Rightarrow> Inl ''duplicate key value violates unique constraint''
             | None \<Rightarrow> Inr (True, d\<lparr> t_blocks := (t_blocks d)(k \<mapsto> block_db_of row author_id),
                 t_block_hash := (t_block_hash d)((sid, br_hash row) \<mapsto> sint (br_num row)) \<rparr>)))"

subsection \<open>Extrinsics, events and movements\<close>

definition block_exists :: "db \<Rightarrow> int \<Rightarrow> int \<Rightarrow> bool" where
  "block_exists d sid num = (t_blocks d (sid, num) \<noteq> None)"

definition extrinsic_key :: "int \<Rightarrow> extrinsic_row \<Rightarrow> int \<times> int \<times> int" where
  "extrinsic_key sid r = (sid, sint (xr_block_num r), sint (xr_idx r))"

definition extrinsic_db_of :: "int \<Rightarrow> extrinsic_row \<Rightarrow> extrinsic_db" where
  "extrinsic_db_of ts r = \<lparr> kx_hash = xr_hash r, kx_pallet = xr_pallet r, kx_call = xr_call r,
     kx_signer = xr_signer r, kx_tip = map_option unat (xr_tip r), kx_fee = unat (xr_fee r),
     kx_nonce = map_option sint (xr_nonce r), kx_success = xr_success r,
     kx_args_scale = xr_args_scale r, kx_timestamp_ms = ts \<rparr>"

definition rows_err :: "string \<Rightarrow> int \<Rightarrow> 'r list \<Rightarrow> string \<Rightarrow> data_error" where
  "rows_err what sid c e =
     Rpc (what @ ''(net='' @ show_int sid @ '', '' @ show_nat (length c) @ '' rows): '' @ e)"

definition insert_extrinsics_stmt :: "int \<Rightarrow> int \<Rightarrow> extrinsic_row list \<Rightarrow> db \<Rightarrow> string + db" where
  "insert_extrinsics_stmt sid ts rows d = map_ok (\<lambda>t. d\<lparr> t_extrinsics := t \<rparr>)
     (insert_do_nothing (extrinsic_key sid) (extrinsic_db_of ts)
        (\<lambda>r. block_exists d sid (sint (xr_block_num r))) rows (t_extrinsics d))"

definition insert_extrinsics :: "faults \<Rightarrow> int \<Rightarrow> int \<Rightarrow> extrinsic_row list \<Rightarrow> db \<Rightarrow> db data_result" where
  "insert_extrinsics flt sid ts rows d =
     exec_chunks flt StExtrinsics (rows_err ''insert_extrinsics'' sid)
       (insert_extrinsics_stmt sid ts) 0 (chunks (max_binds_per_query div 13) rows) d"

definition event_key :: "int \<Rightarrow> event_row \<Rightarrow> int \<times> int \<times> int" where
  "event_key sid r = (sid, sint (ew_block_num r), sint (ew_idx r))"

definition event_db_of :: "int \<Rightarrow> event_row \<Rightarrow> event_db" where
  "event_db_of ts r = \<lparr> ke_phase_kind = ew_phase_kind r,
     ke_phase_idx = map_option sint (ew_phase_idx r), ke_pallet = ew_pallet r,
     ke_variant = ew_variant r, ke_data_scale = ew_data_scale r, ke_timestamp_ms = ts \<rparr>"

definition insert_events_stmt :: "int \<Rightarrow> int \<Rightarrow> event_row list \<Rightarrow> db \<Rightarrow> string + db" where
  "insert_events_stmt sid ts rows d = map_ok (\<lambda>t. d\<lparr> t_events := t \<rparr>)
     (insert_do_nothing (event_key sid) (event_db_of ts)
        (\<lambda>r. block_exists d sid (sint (ew_block_num r))) rows (t_events d))"

definition insert_events :: "faults \<Rightarrow> int \<Rightarrow> int \<Rightarrow> event_row list \<Rightarrow> db \<Rightarrow> db data_result" where
  "insert_events flt sid ts rows d =
     exec_chunks flt StEvents (rows_err ''insert_events'' sid)
       (insert_events_stmt sid ts) 0 (chunks (max_binds_per_query div 9) rows) d"

definition movement_pk :: "int \<Rightarrow> balance_movement_row \<Rightarrow> int \<times> int \<times> int \<times> bytes" where
  "movement_pk sid r = (sid, sint (mv_block_num r), sint (mv_event_idx r), mv_account r)"

definition movement_db_of :: "balance_movement_row \<Rightarrow> movement_db" where
  "movement_db_of r = \<lparr> km_kind = as_i16 (mv_kind r), km_delta = sint (mv_delta r),
     km_counterparty = mv_counterparty r \<rparr>"

definition insert_movements_stmt :: "int \<Rightarrow> balance_movement_row list \<Rightarrow> db \<Rightarrow> string + db" where
  "insert_movements_stmt sid rows d = map_ok (\<lambda>t. d\<lparr> t_movements := t \<rparr>)
     (insert_do_nothing (movement_pk sid) movement_db_of
        (\<lambda>r. block_exists d sid (sint (mv_block_num r))) rows (t_movements d))"

definition insert_balance_movements :: "faults \<Rightarrow> int \<Rightarrow> balance_movement_row list \<Rightarrow> db \<Rightarrow> db data_result" where
  "insert_balance_movements flt sid rows d =
     exec_chunks flt StMovements (rows_err ''insert_balance_movements'' sid)
       (insert_movements_stmt sid) 0 (chunks (max_binds_per_query div 7) rows) d"

subsection \<open>Account snapshots\<close>

text \<open>The row a snapshot proposes (\<^verbatim>\<open>EXCLUDED\<close>), and the conflict clause on the row present.\<close>

definition account_db_of :: "u64 \<Rightarrow> int \<Rightarrow> account_snapshot \<Rightarrow> account_db" where
  "account_db_of block_num ts s = \<lparr> ka_free = unat (sn_free s), ka_reserved = unat (sn_reserved s),
     ka_frozen = unat (sn_frozen s), ka_nonce = uint (sn_nonce s),
     ka_first_seen_block = sint block_num, ka_last_activity_block = sint block_num,
     ka_first_seen_ms = ts, ka_last_activity_ms = ts \<rparr>"

definition upsert_account :: "account_db \<Rightarrow> account_db option \<Rightarrow> account_db" where
  "upsert_account new cur = (case cur of
       None \<Rightarrow> new
     | Some old \<Rightarrow>
         (let newer = ka_last_activity_block new \<ge> ka_last_activity_block old in
          \<lparr> ka_free = (if newer then ka_free new else ka_free old),
            ka_reserved = (if newer then ka_reserved new else ka_reserved old),
            ka_frozen = (if newer then ka_frozen new else ka_frozen old),
            ka_nonce = max (ka_nonce old) (ka_nonce new),
            ka_first_seen_block = min (ka_first_seen_block old) (ka_first_seen_block new),
            ka_last_activity_block = max (ka_last_activity_block old) (ka_last_activity_block new),
            ka_first_seen_ms = min (ka_first_seen_ms old) (ka_first_seen_ms new),
            ka_last_activity_ms = max (ka_last_activity_ms old) (ka_last_activity_ms new) \<rparr>))"

definition upsert_row ::
  "int \<Rightarrow> u64 \<Rightarrow> int \<Rightarrow> bytes \<times> account_snapshot \<Rightarrow> (int \<times> bytes \<rightharpoonup> account_db) \<Rightarrow> (int \<times> bytes \<rightharpoonup> account_db)" where
  "upsert_row sid block_num ts p t =
     t((sid, fst p) \<mapsto> upsert_account (account_db_of block_num ts (snd p)) (t (sid, fst p)))"

text \<open>PostgreSQL refuses a \<^verbatim>\<open>DO UPDATE\<close> that would touch one row twice.\<close>

definition upsert_stmt ::
  "int \<Rightarrow> u64 \<Rightarrow> int \<Rightarrow> (bytes \<times> account_snapshot) list \<Rightarrow> db \<Rightarrow> string + db" where
  "upsert_stmt sid block_num ts rows d =
     (if distinct (map fst rows)
      then Inr (d\<lparr> t_accounts := foldl (\<lambda>t p. upsert_row sid block_num ts p t) (t_accounts d) rows \<rparr>)
      else Inl ''ON CONFLICT DO UPDATE command cannot affect row a second time'')"

definition apply_account_snapshots ::
  "faults \<Rightarrow> (nat \<Rightarrow> statement) \<Rightarrow> int \<Rightarrow> u64 \<Rightarrow> int \<Rightarrow> (bytes \<times> account_snapshot) list \<Rightarrow> db \<Rightarrow> db data_result" where
  "apply_account_snapshots flt st sid block_num ts snapshots d =
     exec_chunks flt st (\<lambda>c e. Rpc (''apply_account_snapshots(net='' @ show_int sid @ ''/block '' @
         show_word block_num @ '', '' @ show_nat (length c) @ '' rows): '' @ e))
       (upsert_stmt sid block_num ts) 0 (chunks (max_binds_per_query div 10) snapshots) d"

text \<open>The reconciliation update: only rows that exist; the count is the number of rows updated. A
  chunk that names an account twice updates the row once, with one of the two values; the caller
  names each account once.\<close>

definition reconcile_row ::
  "int \<Rightarrow> bytes \<times> account_snapshot \<Rightarrow> (int \<times> bytes \<rightharpoonup> account_db) \<Rightarrow> (int \<times> bytes \<rightharpoonup> account_db)" where
  "reconcile_row sid p t = (case t (sid, fst p) of
       None \<Rightarrow> t
     | Some old \<Rightarrow> t((sid, fst p) \<mapsto> old\<lparr> ka_free := unat (sn_free (snd p)),
         ka_reserved := unat (sn_reserved (snd p)), ka_frozen := unat (sn_frozen (snd p)),
         ka_nonce := max (ka_nonce old) (uint (sn_nonce (snd p))) \<rparr>))"

definition reconcile_stmt ::
  "int \<Rightarrow> (bytes \<times> account_snapshot) list \<Rightarrow> db \<times> nat \<Rightarrow> string + db \<times> nat" where
  "reconcile_stmt sid rows st = (case st of (d, updated) \<Rightarrow>
     Inr (d\<lparr> t_accounts := foldl (\<lambda>t p. reconcile_row sid p t) (t_accounts d) rows \<rparr>,
          updated + length (filter (\<lambda>p. t_accounts d (sid, fst p) \<noteq> None) rows)))"

definition reconcile_account_balances ::
  "faults \<Rightarrow> int \<Rightarrow> (bytes \<times> account_snapshot) list \<Rightarrow> db \<Rightarrow> (db \<times> nat) data_result" where
  "reconcile_account_balances flt sid snapshots d =
     exec_chunks flt StReconcile (rows_err ''reconcile_account_balances'' sid)
       (reconcile_stmt sid) 0 (chunks (max_binds_per_query div 5) snapshots) (d, 0)"

subsection \<open>ATS\<close>

definition registry_db_of :: "ats_registry_row \<Rightarrow> registry_db" where
  "registry_db_of r = \<lparr> kr_owner = rg_owner r, kr_created_block = sint (rg_created_block r),
     kr_created_ext_idx = sint (rg_created_ext_idx r), kr_version_count = sint (rg_version_count r) \<rparr>"

definition version_db_of :: "ats_version_row \<Rightarrow> version_db" where
  "version_db_of r = \<lparr> kv_block_num = sint (vr_block_num r), kv_ext_idx = sint (vr_ext_idx r),
     kv_commitment = vr_commitment r, kv_protocol_version = uint (vr_protocol_version r) \<rparr>"

definition registry_stmt :: "int \<Rightarrow> ats_registry_row list \<Rightarrow> db \<Rightarrow> string + db" where
  "registry_stmt sid rows d = map_ok (\<lambda>t. d\<lparr> t_registry := t \<rparr>)
     (insert_do_nothing (\<lambda>r. (sid, sint (rg_id r))) registry_db_of (\<lambda>_. True) rows (t_registry d))"

definition versions_stmt :: "int \<Rightarrow> ats_version_row list \<Rightarrow> db \<Rightarrow> string + db" where
  "versions_stmt sid rows d = map_ok (\<lambda>t. d\<lparr> t_versions := t \<rparr>)
     (insert_do_nothing (\<lambda>r. (sid, sint (vr_ats_id r), sint (vr_version r))) version_db_of
        (\<lambda>r. t_registry d (sid, sint (vr_ats_id r)) \<noteq> None) rows (t_versions d))"

definition bump_version_count :: "int \<Rightarrow> ats_version_count_bump \<Rightarrow> db \<Rightarrow> db" where
  "bump_version_count sid b d = (case t_registry d (sid, sint (vb_ats_id b)) of
       None \<Rightarrow> d
     | Some r \<Rightarrow> d\<lparr> t_registry := (t_registry d)((sid, sint (vb_ats_id b)) \<mapsto>
         r\<lparr> kr_version_count := max (kr_version_count r) (sint (vb_version_count b)) \<rparr>) \<rparr>)"

text \<open>The delete cascades to the versions of the ATS.\<close>

definition revoke_ats :: "int \<Rightarrow> u64 \<Rightarrow> db \<Rightarrow> db" where
  "revoke_ats sid i d = d\<lparr> t_registry := (t_registry d)((sid, sint i) := None),
     t_versions := (\<lambda>(s, a, v). if s = sid \<and> a = sint i then None else t_versions d (s, a, v)) \<rparr>"

fun exec_each ::
  "faults \<Rightarrow> (nat \<Rightarrow> statement) \<Rightarrow> ('r \<Rightarrow> string \<Rightarrow> data_error) \<Rightarrow> ('r \<Rightarrow> db \<Rightarrow> db) \<Rightarrow> nat \<Rightarrow> 'r list \<Rightarrow> db
   \<Rightarrow> db data_result" where
  "exec_each flt st on_err f i [] d = Inr d"
| "exec_each flt st on_err f i (r # rs) d =
     bind_r (run_stmt flt (st i) (on_err r) (Inr (f r d))) (exec_each flt st on_err f (Suc i) rs)"

definition apply_ats :: "faults \<Rightarrow> int \<Rightarrow> ats_ops \<Rightarrow> db \<Rightarrow> db data_result" where
  "apply_ats flt sid ops d =
     bind_r (if registry_inserts ops = [] then Inr d
             else run_stmt flt StRegistry (rows_err ''insert_ats_registry'' sid (registry_inserts ops))
               (registry_stmt sid (registry_inserts ops) d)) (\<lambda>d1.
     bind_r (if version_inserts ops = [] then Inr d1
             else run_stmt flt StVersions (rows_err ''insert_ats_version'' sid (version_inserts ops))
               (versions_stmt sid (version_inserts ops) d1)) (\<lambda>d2.
     bind_r (exec_each flt StBump (\<lambda>b e. Rpc (''bump_version_count(net='' @ show_int sid @ ''/'' @
         show_word (vb_ats_id b) @ '', '' @ show_word (vb_version_count b) @ ''): '' @ e))
         (bump_version_count sid) 0 (version_count_bumps ops) d2) (\<lambda>d3.
     exec_each flt StRevoke (\<lambda>i e. Rpc (''revoke_ats(net='' @ show_int sid @ ''/'' @ show_word i @
         ''): '' @ e)) (revoke_ats sid) 0 (revocations ops) d3)))"

subsection \<open>Cursor\<close>

text \<open>The arrow of the error text, three bytes of UTF-8.\<close>

definition right_arrow :: string where
  "right_arrow = [CHR 0xE2, CHR 0x86, CHR 0x92]"

definition bump_cursor :: "faults \<Rightarrow> int \<Rightarrow> int \<Rightarrow> string \<Rightarrow> u64 \<Rightarrow> db \<Rightarrow> db data_result" where
  "bump_cursor flt now sid stream lst d =
     run_stmt flt StCursor (\<lambda>e. Rpc (''bump_cursor(net='' @ show_int sid @ ''/'' @ stream @ '' '' @ right_arrow @ '' '' @
         show_word lst @ ''): '' @ e))
       (Inr (case t_cursor d (sid, stream) of
          None \<Rightarrow> d\<lparr> t_cursor := (t_cursor d)((sid, stream) \<mapsto> (sint lst, now)) \<rparr>
        | Some (cur, upd) \<Rightarrow>
            if cur < sint lst then d\<lparr> t_cursor := (t_cursor d)((sid, stream) \<mapsto> (sint lst, now)) \<rparr>
            else d))"

definition load_cursor :: "int \<Rightarrow> string \<Rightarrow> db \<Rightarrow> u64 option" where
  "load_cursor sid stream d = map_option (\<lambda>(v, _). word_of_int v) (t_cursor d (sid, stream))"

definition cursor_age_seconds :: "int \<Rightarrow> int \<Rightarrow> string \<Rightarrow> db \<Rightarrow> int option" where
  "cursor_age_seconds now sid stream d = map_option (\<lambda>(_, upd). now - upd) (t_cursor d (sid, stream))"


section \<open>Lemmas on the statements\<close>

lemma concat_chunks [simp]: "0 < n \<Longrightarrow> concat (chunks n xs) = xs"
proof (induction n xs rule: chunks.induct)
  case (1 n xs)
  then show ?case by (subst chunks.simps) auto
qed

lemma run_stmt_Inr_iff: "run_stmt flt st f r = Inr a \<longleftrightarrow> flt st = None \<and> r = Inr a"
  by (auto simp: run_stmt_def split: option.splits)

lemma run_stmt_no_faults [simp]: "run_stmt no_faults st f r = map_err f r"
  by (simp add: run_stmt_def no_faults_def)

text \<open>What an insert does to its table: present rows stay, new keys come from the rows and satisfy
  the foreign key, every row's key is present afterwards.\<close>

lemma insert_do_nothing_eq:
  "insert_do_nothing key val fk rows t = Inr t' \<Longrightarrow>
     t' = map_of (map (\<lambda>r. (key r, val r)) rows) ++ t"
proof (induction rows arbitrary: t)
  case (Cons r rows)
  show ?case
  proof (cases "t (key r)")
    case None
    then have i: "insert_do_nothing key val fk rows (t(key r \<mapsto> val r)) = Inr t'"
      using Cons.prems by (auto split: if_splits)
    from Cons.IH [OF i] None show ?thesis
      by (auto simp: map_add_def fun_eq_iff split: if_splits option.splits)
  next
    case (Some v)
    with Cons.prems have "insert_do_nothing key val fk rows t = Inr t'" by simp
    from Cons.IH [OF this] Some show ?thesis
      by (auto simp: map_add_def fun_eq_iff split: option.splits)
  qed
qed (simp add: map_add_def)

lemma insert_do_nothing_new:
  "insert_do_nothing key val fk rows t = Inr t' \<Longrightarrow> k \<in> dom t' \<Longrightarrow>
     k \<in> dom t \<or> (\<exists>r\<in>set rows. key r = k \<and> fk r)"
proof (induction rows arbitrary: t)
  case (Cons r rows)
  show ?case
  proof (cases "t (key r)")
    case None
    then have fk: "fk r" and i: "insert_do_nothing key val fk rows (t(key r \<mapsto> val r)) = Inr t'"
      using Cons.prems by (auto split: if_splits)
    from Cons.IH [OF i Cons.prems(2)] fk show ?thesis by (auto split: if_splits)
  next
    case (Some v)
    with Cons.prems have "insert_do_nothing key val fk rows t = Inr t'" by simp
    from Cons.IH [OF this Cons.prems(2)] show ?thesis by auto
  qed
qed simp

lemma insert_do_nothing_le:
  "insert_do_nothing key val fk rows t = Inr t' \<Longrightarrow> t \<subseteq>\<^sub>m t'"
  by (drule insert_do_nothing_eq) simp

lemma insert_do_nothing_ok:
  "\<forall>r\<in>set rows. fk r \<Longrightarrow>
   insert_do_nothing key val fk rows t = Inr (map_of (map (\<lambda>r. (key r, val r)) rows) ++ t)"
proof (induction rows arbitrary: t)
  case (Cons r rows)
  then show ?case
    by (cases "t (key r)")
      (auto simp: map_add_def fun_eq_iff split: option.splits)
qed simp

text \<open>A property that every chunk's statement keeps is kept by the loop.\<close>

lemma exec_chunks_keeps:
  assumes "exec_chunks flt st on_err stmt i cs d = Inr d'" and "P d"
    and "\<And>c d d'. c \<in> set cs \<Longrightarrow> P d \<Longrightarrow> stmt c d = Inr d' \<Longrightarrow> P d'"
  shows "P d'"
  using assms
proof (induction cs arbitrary: i d)
  case (Cons c cs)
  from Cons.prems(1) obtain d1 where d1: "run_stmt flt (st i) (on_err c) (stmt c d) = Inr d1"
    and rest: "exec_chunks flt st on_err stmt (Suc i) cs d1 = Inr d'" by (auto simp: bind_r_Inr_iff)
  from d1 have "P d1" using Cons.prems(2,3) by (auto simp: run_stmt_Inr_iff)
  then show ?case using Cons.IH [OF rest] Cons.prems(3) by (meson list.set_intros(2))
qed simp

lemma exec_each_keeps:
  assumes "exec_each flt st on_err f i rs d = Inr d'" and "P d" and "\<And>r d. P d \<Longrightarrow> P (f r d)"
  shows "P d'"
  using assms(1,2)
proof (induction rs arbitrary: i d)
  case (Cons r rs)
  from Cons.prems(1) have "exec_each flt st on_err f (Suc i) rs (f r d) = Inr d'"
    by (auto simp: bind_r_Inr_iff run_stmt_Inr_iff)
  then show ?case using Cons.IH assms(3) Cons.prems(2) by blast
qed simp

section \<open>The integrity of the database\<close>

text \<open>A foreign key: every row's parent is present.\<close>

definition refs :: "('k \<Rightarrow> 'p) \<Rightarrow> ('k \<rightharpoonup> 'v) \<Rightarrow> ('p \<rightharpoonup> 'w) \<Rightarrow> bool" where
  "refs f t p \<longleftrightarrow> f ` dom t \<subseteq> dom p"

text \<open>The constraints of the schema: the unique hash index mirrors the blocks, and the foreign keys
  hold.\<close>

definition db_inv :: "db \<Rightarrow> bool" where
  "db_inv d \<longleftrightarrow>
     (\<forall>s n b. t_blocks d (s, n) = Some b \<longrightarrow> t_block_hash d (s, kb_hash b) = Some n) \<and>
     refs (\<lambda>(s, n, i). (s, n)) (t_extrinsics d) (t_blocks d) \<and>
     refs (\<lambda>(s, n, i). (s, n)) (t_events d) (t_blocks d) \<and>
     refs (\<lambda>(s, n, i, a). (s, n)) (t_movements d) (t_blocks d) \<and>
     refs (\<lambda>(s, a, v). (s, a)) (t_versions d) (t_registry d)"

lemma refs_empty [simp]: "refs f Map.empty p"
  by (simp add: refs_def)

lemma refs_insert:
  assumes "insert_do_nothing key val fk rows t = Inr t'" "refs f t p"
    and "\<And>r. fk r \<Longrightarrow> f (key r) \<in> dom p"
  shows "refs f t' p"
  unfolding refs_def
proof (rule image_subsetI)
  fix k assume "k \<in> dom t'"
  from insert_do_nothing_new [OF assms(1) this] assms(2,3) show "f k \<in> dom p"
    unfolding refs_def by blast
qed

lemma refs_parent: "refs f t p \<Longrightarrow> dom p \<subseteq> dom p' \<Longrightarrow> refs f t p'"
  unfolding refs_def by blast

lemma refsD: "refs f t p \<Longrightarrow> k \<in> dom t \<Longrightarrow> f k \<in> dom p"
  unfolding refs_def by blast

lemma empty_db_inv [inv_intros]: "db_inv empty_db"
  by (simp add: db_inv_def empty_db_def)

text \<open>A transition of the database inside one transaction: the integrity is kept, no block is lost
  or changed, and the cursor and the work queue are left alone.\<close>

definition db_step :: "db \<Rightarrow> db \<Rightarrow> bool" where
  "db_step d d' \<longleftrightarrow> (db_inv d \<longrightarrow> db_inv d') \<and> t_blocks d \<subseteq>\<^sub>m t_blocks d' \<and>
     t_cursor d' = t_cursor d \<and> t_chunks d' = t_chunks d \<and> t_next_chunk d' = t_next_chunk d"

lemma db_step_refl [simp, intro]: "db_step d d"
  by (simp add: db_step_def)

lemma db_step_trans: "db_step a b \<Longrightarrow> db_step b c \<Longrightarrow> db_step a c"
  by (auto simp: db_step_def intro: map_le_trans)

lemma exec_chunks_step:
  assumes "exec_chunks flt st on_err stmt i cs d = Inr d'"
    and "\<And>c d d'. stmt c d = Inr d' \<Longrightarrow> db_step d d'"
  shows "db_step d d'"
  by (rule exec_chunks_keeps [OF assms(1), where P = "db_step d"]) (use assms(2) db_step_trans in blast)+

lemma block_exists_dom: "block_exists d s n \<longleftrightarrow> (s, n) \<in> dom (t_blocks d)"
  by (simp add: block_exists_def domIff)

lemma insert_block_step:
  assumes "insert_block flt sid row a d = Inr (b, d')"
  shows "db_step d d'"
proof (cases "t_blocks d (sid, sint (br_num row))")
  case None
  then have nh: "t_block_hash d (sid, br_hash row) = None"
    and d': "d' = d\<lparr> t_blocks := (t_blocks d)((sid, sint (br_num row)) \<mapsto> block_db_of row a),
      t_block_hash := (t_block_hash d)((sid, br_hash row) \<mapsto> sint (br_num row)) \<rparr>"
    using assms by (auto simp: insert_block_def run_stmt_Inr_iff Let_def split: option.splits)
  have "dom (t_blocks d) \<subseteq> dom (t_blocks d')" by (auto simp: d')
  moreover have "t_block_hash d' (s, kb_hash b) = Some n"
    if "db_inv d" "t_blocks d' (s, n) = Some b" for s n b
  proof (cases "(s, n) = (sid, sint (br_num row))")
    case True
    then show ?thesis using that(2) by (auto simp: d' block_db_of_def)
  next
    case False
    then have "t_block_hash d (s, kb_hash b) = Some n"
      using that unfolding db_inv_def d' by (auto split: if_splits)
    moreover from this nh have "(s, kb_hash b) \<noteq> (sid, br_hash row)" by auto
    ultimately show ?thesis by (auto simp: d')
  qed
  ultimately have "db_inv d \<Longrightarrow> db_inv d'"
    unfolding db_inv_def by (auto simp: d' intro: refs_parent)
  moreover have "t_blocks d \<subseteq>\<^sub>m t_blocks d'" using None by (auto simp: d' map_le_def)
  ultimately show ?thesis by (simp add: db_step_def) (simp add: d')
next
  case Some
  then show ?thesis using assms by (simp add: insert_block_def run_stmt_Inr_iff Let_def)
qed

lemma insert_block_present:
  "insert_block flt sid row a d = Inr (b, d') \<Longrightarrow> (sid, sint (br_num row)) \<in> dom (t_blocks d')"
  by (auto simp: insert_block_def run_stmt_Inr_iff Let_def split: option.splits)

lemma insert_extrinsics_stmt_step:
  assumes "insert_extrinsics_stmt sid ts rows d = Inr d'"
  shows "db_step d d'"
proof -
  from assms obtain t where t: "insert_do_nothing (extrinsic_key sid) (extrinsic_db_of ts)
      (\<lambda>r. block_exists d sid (sint (xr_block_num r))) rows (t_extrinsics d) = Inr t"
    and d': "d' = d\<lparr> t_extrinsics := t \<rparr>"
    by (auto simp: insert_extrinsics_stmt_def map_ok_Inr_iff)
  show ?thesis using refs_insert [OF t, of "\<lambda>(s, n, i). (s, n)" "t_blocks d"]
    by (simp add: db_step_def d' db_inv_def extrinsic_key_def block_exists_dom)
qed

lemma insert_events_stmt_step:
  assumes "insert_events_stmt sid ts rows d = Inr d'"
  shows "db_step d d'"
proof -
  from assms obtain t where t: "insert_do_nothing (event_key sid) (event_db_of ts)
      (\<lambda>r. block_exists d sid (sint (ew_block_num r))) rows (t_events d) = Inr t"
    and d': "d' = d\<lparr> t_events := t \<rparr>"
    by (auto simp: insert_events_stmt_def map_ok_Inr_iff)
  show ?thesis using refs_insert [OF t, of "\<lambda>(s, n, i). (s, n)" "t_blocks d"]
    by (simp add: db_step_def d' db_inv_def event_key_def block_exists_dom)
qed

lemma insert_movements_stmt_step:
  assumes "insert_movements_stmt sid rows d = Inr d'"
  shows "db_step d d'"
proof -
  from assms obtain t where t: "insert_do_nothing (movement_pk sid) movement_db_of
      (\<lambda>r. block_exists d sid (sint (mv_block_num r))) rows (t_movements d) = Inr t"
    and d': "d' = d\<lparr> t_movements := t \<rparr>"
    by (auto simp: insert_movements_stmt_def map_ok_Inr_iff)
  show ?thesis using refs_insert [OF t, of "\<lambda>(s, n, i, a). (s, n)" "t_blocks d"]
    by (simp add: db_step_def d' db_inv_def movement_pk_def block_exists_dom)
qed

lemma upsert_stmt_step: "upsert_stmt sid n ts rows d = Inr d' \<Longrightarrow> db_step d d'"
  by (cases "distinct (map fst rows)") (auto simp: upsert_stmt_def db_step_def db_inv_def)

lemma registry_stmt_step:
  assumes "registry_stmt sid rows d = Inr d'"
  shows "db_step d d'"
proof -
  from assms obtain t where t: "insert_do_nothing (\<lambda>r. (sid, sint (rg_id r))) registry_db_of
      (\<lambda>_. True) rows (t_registry d) = Inr t" and d': "d' = d\<lparr> t_registry := t \<rparr>"
    by (auto simp: registry_stmt_def map_ok_Inr_iff)
  have "dom (t_registry d) \<subseteq> dom t" using insert_do_nothing_le [OF t] by (rule map_le_implies_dom_le)
  then show ?thesis
    using refs_parent [of "\<lambda>(s, a, v). (s, a)" "t_versions d" "t_registry d" t]
    by (simp add: db_step_def d' db_inv_def)
qed

lemma versions_stmt_step:
  assumes "versions_stmt sid rows d = Inr d'"
  shows "db_step d d'"
proof -
  from assms obtain t where t: "insert_do_nothing (\<lambda>r. (sid, sint (vr_ats_id r), sint (vr_version r)))
      version_db_of (\<lambda>r. t_registry d (sid, sint (vr_ats_id r)) \<noteq> None) rows (t_versions d) = Inr t"
    and d': "d' = d\<lparr> t_versions := t \<rparr>"
    by (auto simp: versions_stmt_def map_ok_Inr_iff)
  show ?thesis using refs_insert [OF t, of "\<lambda>(s, a, v). (s, a)" "t_registry d"]
    by (simp add: db_step_def d' db_inv_def domIff)
qed

lemma bump_version_count_step: "db_step d (bump_version_count sid b d)"
proof (cases "t_registry d (sid, sint (vb_ats_id b))")
  case (Some r)
  have "dom (t_registry d) \<subseteq> dom (t_registry (bump_version_count sid b d))"
    by (auto simp: bump_version_count_def Some)
  then show ?thesis
    using refs_parent [of "\<lambda>(s, a, v). (s, a)" "t_versions d" "t_registry d"
        "t_registry (bump_version_count sid b d)"]
    by (simp add: bump_version_count_def Some db_step_def db_inv_def)
qed (simp add: bump_version_count_def)

lemma revoke_ats_step: "db_step d (revoke_ats sid i d)"
proof -
  have "refs (\<lambda>(s, a, v). (s, a)) (t_versions d) (t_registry d) \<Longrightarrow>
      refs (\<lambda>(s, a, v). (s, a)) (t_versions (revoke_ats sid i d)) (t_registry (revoke_ats sid i d))"
    by (auto simp: refs_def revoke_ats_def dom_def image_subset_iff split: if_splits)
  then show ?thesis by (simp add: db_step_def db_inv_def) (simp add: revoke_ats_def)
qed

lemma apply_ats_step:
  assumes "apply_ats flt sid ops d = Inr d'"
  shows "db_step d d'"
proof -
  from assms obtain d1 d2 d3 where
    1: "(if registry_inserts ops = [] then Inr d
             else run_stmt flt StRegistry (rows_err ''insert_ats_registry'' sid (registry_inserts ops))
               (registry_stmt sid (registry_inserts ops) d)) = Inr d1" and
    2: "(if version_inserts ops = [] then Inr d1
             else run_stmt flt StVersions (rows_err ''insert_ats_version'' sid (version_inserts ops))
               (versions_stmt sid (version_inserts ops) d1)) = Inr d2" and
    3: "exec_each flt StBump (\<lambda>b e. Rpc (''bump_version_count(net='' @ show_int sid @ ''/'' @
         show_word (vb_ats_id b) @ '', '' @ show_word (vb_version_count b) @ ''): '' @ e))
         (bump_version_count sid) 0 (version_count_bumps ops) d2 = Inr d3" and
    4: "exec_each flt StRevoke (\<lambda>i e. Rpc (''revoke_ats(net='' @ show_int sid @ ''/'' @ show_word i @
         ''): '' @ e)) (revoke_ats sid) 0 (revocations ops) d3 = Inr d'"
    unfolding apply_ats_def bind_r_Inr_iff by blast
  have "db_step d d1" using 1 registry_stmt_step by (auto simp: run_stmt_Inr_iff split: if_splits)
  moreover have "db_step d1 d2" using 2 versions_stmt_step by (auto simp: run_stmt_Inr_iff split: if_splits)
  moreover have "db_step d2 d3"
    by (rule exec_each_keeps [OF 3, where P = "db_step d2"])
      (use db_step_trans bump_version_count_step in blast)+
  moreover have "db_step d3 d'"
    by (rule exec_each_keeps [OF 4, where P = "db_step d3"])
      (use db_step_trans revoke_ats_step in blast)+
  ultimately show ?thesis using db_step_trans by blast
qed

lemma bump_cursor_Inr:
  assumes "bump_cursor flt now sid stream n d = Inr d'"
  shows "(db_inv d \<longrightarrow> db_inv d') \<and> t_blocks d' = t_blocks d \<and> t_chunks d' = t_chunks d \<and>
    t_next_chunk d' = t_next_chunk d \<and>
    (\<exists>upd. t_cursor d' (sid, stream) = Some (case t_cursor d (sid, stream) of None \<Rightarrow> sint n | Some c \<Rightarrow> max (fst c) (sint n), upd)) \<and>
    (\<forall>k. k \<noteq> (sid, stream) \<longrightarrow> t_cursor d' k = t_cursor d k)"
  using assms
  by (auto simp: bump_cursor_def run_stmt_Inr_iff db_inv_def max_def
      split: option.splits prod.splits if_splits)

lemma insert_extrinsics_step: "insert_extrinsics flt sid ts rows d = Inr d' \<Longrightarrow> db_step d d'"
  unfolding insert_extrinsics_def by (erule exec_chunks_step) (rule insert_extrinsics_stmt_step)

lemma insert_events_step: "insert_events flt sid ts rows d = Inr d' \<Longrightarrow> db_step d d'"
  unfolding insert_events_def by (erule exec_chunks_step) (rule insert_events_stmt_step)

lemma insert_movements_step: "insert_balance_movements flt sid rows d = Inr d' \<Longrightarrow> db_step d d'"
  unfolding insert_balance_movements_def by (erule exec_chunks_step) (rule insert_movements_stmt_step)

lemma snapshots_step: "apply_account_snapshots flt st sid n ts rows d = Inr d' \<Longrightarrow> db_step d d'"
  unfolding apply_account_snapshots_def by (erule exec_chunks_step) (rule upsert_stmt_step)

lemmas sink_steps = insert_block_step insert_extrinsics_step insert_events_step
  insert_movements_step snapshots_step apply_ats_step

end
