(* ===== verification/Network.thy ===== *)
theory Network
  imports Chain
begin

text \<open>
  The network catalogue and the wall-clock chain context: \<^verbatim>\<open>src/network.rs\<close>. Signed 64-bit
  arithmetic is on \<^verbatim>\<open>int\<close> with the wrap-around of a release build written out.
\<close>

definition wrap64 :: "int \<Rightarrow> int" where
  "wrap64 x = sint (word_of_int x :: u64)"

record network_spec =
  ns_id :: string
  ns_name :: string
  ns_kind :: string
  ns_testnet :: bool
  ns_token :: string
  ns_block_time_secs :: u64
  ns_spec_version :: u32
  ns_spec_name :: string
  ns_ss58_prefix :: u16
  ns_seed :: u32
  ns_genesis_ms :: int
  ns_authors :: "string list"
  ns_ats_blocks_per :: u32
  ns_endpoint :: string
  ns_runtime_kind :: runtime_kind

definition allfeat :: network_spec where
  "allfeat = \<lparr> ns_id = ''allfeat'', ns_name = ''Allfeat'', ns_kind = ''Mainnet'', ns_testnet = False,
     ns_token = ''AFT'', ns_block_time_secs = 6, ns_spec_version = 1001004,
     ns_spec_name = ''allfeat'', ns_ss58_prefix = 440, ns_seed = 0x0A1FEA70,
     ns_genesis_ms = 1763513190000,
     ns_authors = [''Allfeat-1'', ''Allfeat-2'', ''Allfeat-3'', ''Allfeat-4'', ''Allfeat-5'',
       ''Allfeat-6'', ''Allfeat-7'', ''Allfeat-8''],
     ns_ats_blocks_per = 5, ns_endpoint = ''wss://mainnet.rpc.allfeat.org'',
     ns_runtime_kind = Allfeat \<rparr>"

definition melodie :: network_spec where
  "melodie = \<lparr> ns_id = ''melodie'', ns_name = ''Melodie'', ns_kind = ''Testnet'', ns_testnet = True,
     ns_token = ''MEL'', ns_block_time_secs = 3, ns_spec_version = 1002011,
     ns_spec_name = ''melodie'', ns_ss58_prefix = 42, ns_seed = 0xBEAAF00D,
     ns_genesis_ms = 1774761990000,
     ns_authors = [''Melodie-1'', ''Melodie-2'', ''Melodie-3'', ''Melodie-4'', ''Melodie-5'',
       ''Melodie-6'', ''Melodie-7'', ''Melodie-8''],
     ns_ats_blocks_per = 3, ns_endpoint = ''wss://melodie-rpc.allfeat.io'',
     ns_runtime_kind = Melodie \<rparr>"

definition networks :: "network_spec list" where
  "networks = [allfeat, melodie]"

definition default_network :: network_spec where
  "default_network = allfeat"

definition network_by_id :: "string \<Rightarrow> network_spec option" where
  "network_by_id i = List.find (\<lambda>n. ns_id n = i) networks"

definition network_by_id_or_default :: "string \<Rightarrow> network_spec" where
  "network_by_id_or_default i = (case network_by_id i of None \<Rightarrow> default_network | Some n \<Rightarrow> n)"

record chain_ctx =
  cc_spec :: network_spec
  cc_now_ms :: int

definition chain_head_block :: "chain_ctx \<Rightarrow> u64" where
  "chain_head_block c =
     (let elapsed_ms = max (wrap64 (cc_now_ms c - ns_genesis_ms (cc_spec c))) 0;
          bt = max (ns_block_time_secs (cc_spec c)) 1
      in word_of_int (elapsed_ms div 1000) div bt)"

definition block_timestamp_ms :: "chain_ctx \<Rightarrow> u64 \<Rightarrow> int" where
  "block_timestamp_ms c num = wrap64 (ns_genesis_ms (cc_spec c) +
     sint num * sint (ns_block_time_secs (cc_spec c)) * 1000)"

definition ats_total :: "chain_ctx \<Rightarrow> u32" where
  "ats_total c =
     (let per = max (ucast (ns_ats_blocks_per (cc_spec c))) (1 :: u64)
      in ucast (chain_head_block c div per + 1))"

definition ats_version_total :: "chain_ctx \<Rightarrow> u32" where
  "ats_version_total c = ucast (ucast (ats_total c) * (3 :: u64) div 2)"

section \<open>Lemmas\<close>

lemma network_by_id_Some:
  "network_by_id i = Some n \<Longrightarrow> ns_id n = i \<and> n \<in> set networks"
  by (auto simp: network_by_id_def networks_def split: if_splits)

lemma network_ids_distinct: "distinct (map ns_id networks)"
  by (simp add: networks_def allfeat_def melodie_def)

end
