(* ===== verification/Indexing.thy ===== *)
theory Indexing
  imports Sink Network
begin

text \<open>
  Indexing one block: the two lookups of \<^verbatim>\<open>src/indexer/lookups.rs\<close> and the \<^verbatim>\<open>index_block\<close> of the
  live worker (\<^verbatim>\<open>indexer/live.rs\<close>) and of the backfill worker (\<^verbatim>\<open>indexer/backfill.rs\<close>), which
  differ in the cursor bump only. What the node answers is the argument \<^verbatim>\<open>node\<close>, one response
  per block number.
\<close>

section \<open>Lookups\<close>

text \<open>The in-memory map is built by the loop that seeds the table.\<close>

fun seed_networks :: "(nat \<Rightarrow> string option) \<Rightarrow> nat \<Rightarrow> network_spec list \<Rightarrow> (string \<rightharpoonup> int) \<Rightarrow> db
    \<Rightarrow> ((string \<rightharpoonup> int) \<times> db) data_result" where
  "seed_networks flt idx [] by_name d = Inr (by_name, d)"
| "seed_networks flt idx (net # nets) by_name d =
     (let sid = int idx + 1 in
      case flt idx of
        Some e \<Rightarrow> Inl (Rpc (''networks.seed('' @ ns_id net @ ''): '' @ e))
      | None \<Rightarrow> seed_networks flt (Suc idx) nets (by_name(ns_id net \<mapsto> sid))
          (if t_networks d sid = None then d\<lparr> t_networks := (t_networks d)(sid \<mapsto> ns_id net) \<rparr> else d))"

definition load_or_seed :: "(nat \<Rightarrow> string option) \<Rightarrow> db \<Rightarrow> ((string \<rightharpoonup> int) \<times> db) data_result" where
  "load_or_seed flt d = seed_networks flt 0 networks Map.empty d"

definition network_resolve :: "(string \<rightharpoonup> int) \<Rightarrow> string \<Rightarrow> int option" where
  "network_resolve by_name name = by_name name"

definition network_expect :: "(string \<rightharpoonup> int) \<Rightarrow> string \<Rightarrow> int" where
  "network_expect by_name name = (case by_name name of None \<Rightarrow> 0 | Some i \<Rightarrow> i)"

text \<open>The author lookup: the cache, then the upsert, which consumes a sequence number also when the
  row exists.\<close>

type_synonym author_cache = "int \<times> bytes \<rightharpoonup> int"

definition author_resolve ::
  "string option \<Rightarrow> int \<Rightarrow> bytes \<Rightarrow> author_cache \<times> db \<Rightarrow> int data_result \<times> author_cache \<times> db" where
  "author_resolve flt sid bs st = (case st of (cache, d) \<Rightarrow>
     (case cache (sid, bs) of
        Some i \<Rightarrow> (Inr i, cache, d)
      | None \<Rightarrow>
          (case flt of
             Some e \<Rightarrow> (Inl (Rpc (''authors.resolve(network_sid='' @ show_int sid @ ''): '' @ e)), cache, d)
           | None \<Rightarrow>
               (let i = (case t_authors d (sid, bs) of Some i \<Rightarrow> i | None \<Rightarrow> t_next_author d);
                    d' = d\<lparr> t_authors := (t_authors d)((sid, bs) \<mapsto> i), t_next_author := t_next_author d + 1 \<rparr>
                in (Inr i, cache((sid, bs) \<mapsto> i), d')))))"

definition author_get :: "author_cache \<Rightarrow> int \<Rightarrow> bytes \<Rightarrow> int option" where
  "author_get cache sid bs = cache (sid, bs)"

section \<open>Projecting one block\<close>

record worker =
  wk_network_id :: string
  wk_sid :: int
  wk_runtime_kind :: runtime_kind

text \<open>The client: whether it can connect, and what it answers for a block number.\<close>

record node =
  nd_subxt :: "unit data_result"
  nd_at_block :: "u64 \<Rightarrow> pinned_block rpc"

record prepared =
  pp_row :: block_row
  pp_extrinsics :: "extrinsic_row list"
  pp_events :: "event_row list"
  pp_movements :: "balance_movement_row list"
  pp_snapshots :: "(bytes \<times> account_snapshot) list"
  pp_ats :: ats_ops
  pp_genesis :: "(bytes \<times> account_snapshot) list"

definition prepare_block :: "worker \<Rightarrow> node \<Rightarrow> u64 \<Rightarrow> prepared data_result" where
  "prepare_block w nd num =
     bind_r (nd_subxt nd) (\<lambda>_.
     bind_r (with_timeout ''at_block'' (\<lambda>e. Rpc (''at_block('' @ show_word num @ ''): '' @ e)) (nd_at_block nd num)) (\<lambda>at.
     bind_r (blocks_map at num (wk_runtime_kind w)) (\<lambda>row.
     bind_r (extrinsics_map at num (wk_runtime_kind w)) (\<lambda>extrinsic_rows.
     bind_r (events_map at num) (\<lambda>event_rows.
     bind_r (balances_project_block at extrinsic_rows num (wk_runtime_kind w)) (\<lambda>balance_projection.
     let touched = collect_touched (bp_touched_accounts balance_projection) extrinsic_rows in
     bind_r (fetch_accounts_at at (wk_runtime_kind w) touched) (\<lambda>snapshots.
     bind_r (ats_project_block at extrinsic_rows num (wk_runtime_kind w)) (\<lambda>ats.
     bind_r (if num = 0 then project_genesis_accounts at (wk_runtime_kind w) else Inr []) (\<lambda>genesis_snapshots.
     Inr \<lparr> pp_row = row, pp_extrinsics = extrinsic_rows, pp_events = event_rows,
           pp_movements = bp_movements balance_projection, pp_snapshots = snapshots,
           pp_ats = ats, pp_genesis = genesis_snapshots \<rparr>)))))))))"

section \<open>Writing one block\<close>

text \<open>The statements of the transaction that both workers share.\<close>

definition write_block :: "faults \<Rightarrow> worker \<Rightarrow> u64 \<Rightarrow> prepared \<Rightarrow> int option \<Rightarrow> db \<Rightarrow> db data_result" where
  "write_block flt w num p author_id d0 =
     (let sid = wk_sid w; block_ts = br_timestamp_ms (pp_row p) in
     bind_r (insert_block flt sid (pp_row p) author_id d0) (\<lambda>(_, d1).
     bind_r (insert_extrinsics flt sid block_ts (pp_extrinsics p) d1) (\<lambda>d2.
     bind_r (insert_events flt sid block_ts (pp_events p) d2) (\<lambda>d3.
     bind_r (insert_balance_movements flt sid (pp_movements p) d3) (\<lambda>d4.
     bind_r (apply_account_snapshots flt StSnapshots sid num block_ts (pp_snapshots p) d4) (\<lambda>d5.
     bind_r (if num = 0 then apply_account_snapshots flt StGenesisSnapshots sid 0 block_ts (pp_genesis p) d5
             else Inr d5) (\<lambda>d6.
     apply_ats flt sid (pp_ats p) d6)))))))"

text \<open>The environment of one run of \<^verbatim>\<open>index_block\<close>: the statements that fail, the author
  upsert's failure and the clock.\<close>

record attempt =
  an_faults :: faults
  an_author_fault :: "string option"
  an_now :: int

type_synonym store = "author_cache \<times> db"

definition resolve_author_id ::
  "attempt \<Rightarrow> worker \<Rightarrow> prepared \<Rightarrow> store \<Rightarrow> int option data_result \<times> store" where
  "resolve_author_id an w p st = (case br_author (pp_row p) of
       None \<Rightarrow> (Inr None, st)
     | Some bs \<Rightarrow> (case author_resolve (an_author_fault an) (wk_sid w) bs st of
           (r, st') \<Rightarrow> (map_ok Some r, st')))"

text \<open>The transaction: begin, the body, commit. Whatever fails, the database is the one before.\<close>

definition in_tx ::
  "attempt \<Rightarrow> string \<Rightarrow> (db \<Rightarrow> db data_result) \<Rightarrow> store \<Rightarrow> unit data_result \<times> store" where
  "in_tx an label body st = (case st of (cache, d) \<Rightarrow>
     (case bind_r (run_stmt (an_faults an) StBegin (\<lambda>e. Rpc (''begin tx ('' @ label @ ''): '' @ e)) (Inr ())) (\<lambda>_.
           bind_r (body d) (\<lambda>d'.
           run_stmt (an_faults an) StCommit (\<lambda>e. Rpc (''commit tx ('' @ label @ ''): '' @ e)) (Inr d'))) of
        Inl e \<Rightarrow> (Inl e, cache, d)
      | Inr d' \<Rightarrow> (Inr (), cache, d')))"

definition live_index_block ::
  "attempt \<Rightarrow> worker \<Rightarrow> node \<Rightarrow> u64 \<Rightarrow> store \<Rightarrow> unit data_result \<times> store" where
  "live_index_block an w nd num st = (case prepare_block w nd num of
       Inl e \<Rightarrow> (Inl e, st)
     | Inr p \<Rightarrow>
         (case resolve_author_id an w p st of
            (Inl e, st') \<Rightarrow> (Inl e, st')
          | (Inr author_id, st') \<Rightarrow>
              in_tx an (wk_network_id w @ ''/block '' @ show_word num)
                (\<lambda>d. bind_r (write_block (an_faults an) w num p author_id d)
                       (bump_cursor (an_faults an) (an_now an) (wk_sid w) live_cursor num)) st'))"

definition backfill_index_block ::
  "attempt \<Rightarrow> worker \<Rightarrow> node \<Rightarrow> u64 \<Rightarrow> store \<Rightarrow> unit data_result \<times> store" where
  "backfill_index_block an w nd num st = (case prepare_block w nd num of
       Inl e \<Rightarrow> (Inl e, st)
     | Inr p \<Rightarrow>
         (case resolve_author_id an w p st of
            (Inl e, st') \<Rightarrow> (Inl e, st')
          | (Inr author_id, st') \<Rightarrow>
              in_tx an (wk_network_id w @ ''/backfill '' @ show_word num)
                (\<lambda>d. write_block (an_faults an) w num p author_id d) st'))"


section \<open>Lemmas\<close>

lemma blocks_map_num: "blocks_map at n rk = Inr row \<Longrightarrow> br_num row = n"
  by (auto simp: blocks_map_def bind_r_Inr_iff split: prod.splits)

lemma prepare_block_num: "prepare_block w nd n = Inr p \<Longrightarrow> br_num (pp_row p) = n"
  unfolding prepare_block_def Let_def bind_r_Inr_iff by (auto dest: blocks_map_num)

text \<open>Every account of a movement row has a snapshot in the same transaction.\<close>

lemma prepare_block_movements:
  assumes "prepare_block w nd n = Inr p" and "r \<in> set (pp_movements p)"
  shows "row_accounts r \<subseteq> fst ` set (pp_snapshots p) \<and> mv_block_num r = n"
proof -
  from assms(1) obtain at xts bp snaps where
    bp: "balances_project_block at xts n (wk_runtime_kind w) = Inr bp" and
    fetched: "fetch_accounts_at at (wk_runtime_kind w) (collect_touched (bp_touched_accounts bp) xts) = Inr snaps"
    and p: "pp_movements p = bp_movements bp" "pp_snapshots p = snaps"
    by (auto simp: prepare_block_def Let_def bind_r_Inr_iff)
  have "set (bp_touched_accounts bp) \<subseteq> fst ` set snaps"
    using collect_touched_props [of "bp_touched_accounts bp" xts]
    by (simp flip: fetch_accounts_at_keys [OF fetched])
  moreover have "r \<in> set (bp_movements bp)" using assms(2) p(1) by simp
  ultimately show ?thesis
    using balances_project_block_rows [OF bp] p(2) by (meson order_trans)
qed

lemma write_block_step:
  assumes "write_block flt w n p a d = Inr d'"
  shows "db_step d d' \<and> (wk_sid w, sint (br_num (pp_row p))) \<in> dom (t_blocks d')"
proof -
  let ?sid = "wk_sid w" and ?ts = "br_timestamp_ms (pp_row p)"
  from assms obtain b d1 d2 d3 d4 d5 d6 where
    1: "insert_block flt ?sid (pp_row p) a d = Inr (b, d1)" and
    2: "insert_extrinsics flt ?sid ?ts (pp_extrinsics p) d1 = Inr d2" and
    3: "insert_events flt ?sid ?ts (pp_events p) d2 = Inr d3" and
    4: "insert_balance_movements flt ?sid (pp_movements p) d3 = Inr d4" and
    5: "apply_account_snapshots flt StSnapshots ?sid n ?ts (pp_snapshots p) d4 = Inr d5" and
    6: "(if n = 0 then apply_account_snapshots flt StGenesisSnapshots ?sid 0 ?ts (pp_genesis p) d5
         else Inr d5) = Inr d6" and
    7: "apply_ats flt ?sid (pp_ats p) d6 = Inr d'"
    unfolding write_block_def Let_def bind_r_Inr_iff
    by (clarsimp simp: bind_r_Inr_iff split: prod.splits)
  have "db_step d5 d6" using 6 snapshots_step by (auto split: if_splits)
  then have s: "db_step d1 d'"
    using sink_steps(2) [OF 2] sink_steps(3) [OF 3] sink_steps(4) [OF 4] sink_steps(5) [OF 5]
      sink_steps(6) [OF 7] by (meson db_step_trans)
  then have "dom (t_blocks d1) \<subseteq> dom (t_blocks d')" by (simp add: db_step_def map_le_implies_dom_le)
  with s insert_block_present [OF 1] insert_block_step [OF 1] show ?thesis
    using db_step_trans by blast
qed

text \<open>Two databases that differ in the author table only.\<close>

definition same_but_authors :: "db \<Rightarrow> db \<Rightarrow> bool" where
  "same_but_authors d d' \<longleftrightarrow> (\<exists>a n. d' = d\<lparr> t_authors := a, t_next_author := n \<rparr>)"

lemma same_but_authors_refl [simp]: "same_but_authors d d"
  unfolding same_but_authors_def by (rule exI [of _ "t_authors d"], rule exI [of _ "t_next_author d"]) simp

lemma same_but_authors_step: "same_but_authors d d' \<Longrightarrow> db_step d d'"
  by (auto simp: same_but_authors_def db_step_def db_inv_def)

lemma resolve_author_id_db:
  "resolve_author_id an w p (cache, d) = (r, cache', d') \<Longrightarrow> same_but_authors d d'"
  unfolding resolve_author_id_def author_resolve_def
  by (auto simp: same_but_authors_def Let_def split: option.splits prod.splits)
    (metis db.surjective db.update_convs(2,3))+

lemma in_tx_cases:
  assumes "in_tx an label body (cache, d) = (r, cache', d')"
  shows "(\<exists>e. r = Inl e \<and> d' = d) \<or> (r = Inr () \<and> body d = Inr d')"
proof (cases "an_faults an StBegin = None \<and> an_faults an StCommit = None")
  case True
  then show ?thesis using assms by (cases "body d") (auto simp: in_tx_def run_stmt_def)
next
  case False
  then show ?thesis using assms
    by (cases "body d"; cases "an_faults an StBegin"; cases "an_faults an StCommit")
      (auto simp: in_tx_def run_stmt_def)
qed


text \<open>The outcomes of the two workers: an error leaves everything but the author table, a success
  went through every statement.\<close>

lemma live_index_block_cases:
  assumes "live_index_block an w nd n (cache, d) = (r, cache', d')"
  obtains (failed) e where "r = Inl e" "same_but_authors d d'"
  | (indexed) p a d0 d1 where "r = Inr ()" "prepare_block w nd n = Inr p" "same_but_authors d d0"
      "write_block (an_faults an) w n p a d0 = Inr d1"
      "bump_cursor (an_faults an) (an_now an) (wk_sid w) live_cursor n d1 = Inr d'"
proof (cases "prepare_block w nd n")
  case (Inl e)
  then show ?thesis using assms failed by (auto simp: live_index_block_def)
next
  case p: (Inr p)
  obtain ra c0 d0 where ra: "resolve_author_id an w p (cache, d) = (ra, c0, d0)" by (metis prod_cases3)
  from resolve_author_id_db [OF this] have same: "same_but_authors d d0" .
  show ?thesis
  proof (cases ra)
    case (Inl e)
    then show ?thesis using assms failed same p ra by (auto simp: live_index_block_def)
  next
    case (Inr a)
    with assms p ra have "in_tx an (wk_network_id w @ ''/block '' @ show_word n)
        (\<lambda>d. bind_r (write_block (an_faults an) w n p a d)
               (bump_cursor (an_faults an) (an_now an) (wk_sid w) live_cursor n)) (c0, d0) = (r, cache', d')"
      by (simp add: live_index_block_def)
    from in_tx_cases [OF this] show ?thesis
    proof (elim disjE exE conjE)
      fix e assume "r = Inl e" "d' = d0"
      then show ?thesis using failed same by blast
    next
      assume "r = Inr ()" and "bind_r (write_block (an_faults an) w n p a d0)
        (bump_cursor (an_faults an) (an_now an) (wk_sid w) live_cursor n) = Inr d'"
      then show ?thesis using indexed [OF _ p same] by (auto simp: bind_r_Inr_iff)
    qed
  qed
qed

lemma backfill_index_block_cases:
  assumes "backfill_index_block an w nd n (cache, d) = (r, cache', d')"
  obtains (failed) e where "r = Inl e" "same_but_authors d d'"
  | (indexed) p a d0 where "r = Inr ()" "prepare_block w nd n = Inr p" "same_but_authors d d0"
      "write_block (an_faults an) w n p a d0 = Inr d'"
proof (cases "prepare_block w nd n")
  case (Inl e)
  then show ?thesis using assms failed by (auto simp: backfill_index_block_def)
next
  case p: (Inr p)
  obtain ra c0 d0 where ra: "resolve_author_id an w p (cache, d) = (ra, c0, d0)" by (metis prod_cases3)
  from resolve_author_id_db [OF this] have same: "same_but_authors d d0" .
  show ?thesis
  proof (cases ra)
    case (Inl e)
    then show ?thesis using assms failed same p ra by (auto simp: backfill_index_block_def)
  next
    case (Inr a)
    with assms p ra have "in_tx an (wk_network_id w @ ''/backfill '' @ show_word n)
        (\<lambda>d. write_block (an_faults an) w n p a d) (c0, d0) = (r, cache', d')"
      by (simp add: backfill_index_block_def)
    from in_tx_cases [OF this] show ?thesis using failed indexed [OF _ p same] same by auto
  qed
qed

lemma backfill_index_block_step:
  assumes "backfill_index_block an w nd n (cache, d) = (r, cache', d')"
  shows "db_step d d' \<and> (r = Inr () \<longrightarrow> (wk_sid w, sint n) \<in> dom (t_blocks d'))"
  using assms
proof (cases rule: backfill_index_block_cases)
  case (failed e)
  then show ?thesis by (simp add: same_but_authors_step)
next
  case (indexed p a d0)
  then show ?thesis
    using write_block_step prepare_block_num same_but_authors_step db_step_trans by blast
qed

section \<open>Properties\<close>

text \<open>C5: The live worker's step on a block is atomic. When it fails the database is the one before,
  but for the author table, which is written outside the transaction; when it succeeds the block is
  stored, no stored block is lost or changed, and the live cursor moves to the greater of its value
  and the block's number. Either way the integrity constraints of the schema still hold.\<close>

theorem live_index_block_atomic:
  assumes "live_index_block an w nd n (cache, d) = (r, cache', d')"
  shows "(db_inv d \<longrightarrow> db_inv d') \<and> t_blocks d \<subseteq>\<^sub>m t_blocks d' \<and>
    ((\<exists>e. r = Inl e \<and> same_but_authors d d') \<or>
     (r = Inr () \<and> (wk_sid w, sint n) \<in> dom (t_blocks d') \<and>
      (\<exists>u. t_cursor d' (wk_sid w, live_cursor) =
         Some (case t_cursor d (wk_sid w, live_cursor) of None \<Rightarrow> sint n | Some c \<Rightarrow> max (fst c) (sint n), u))))"
  using assms
proof (cases rule: live_index_block_cases)
  case (failed e)
  then show ?thesis using same_but_authors_step unfolding db_step_def by blast
next
  case (indexed p a d0 d1)
  note s = db_step_trans [OF same_but_authors_step [OF indexed(3)] conjunct1 [OF write_block_step [OF indexed(4)]]]
  note b = bump_cursor_Inr [OF indexed(5)]
  have "t_cursor d1 = t_cursor d" "db_inv d \<longrightarrow> db_inv d1" "t_blocks d \<subseteq>\<^sub>m t_blocks d1"
    using s by (auto simp: db_step_def)
  moreover have "(wk_sid w, sint n) \<in> dom (t_blocks d1)"
    using write_block_step [OF indexed(4)] prepare_block_num [OF indexed(2)] by simp
  ultimately show ?thesis using indexed(1) b by auto
qed

end
