(* ===== verification/Replay.thy ===== *)
theory Replay
  imports Indexing
begin

text \<open>
  Replay: a block may be indexed again, by either worker, and blocks may be indexed out of order.
  The catalogue is the abstract view of the database, the tables without the author numbering and
  the ATS registry; the abstract step delivers one prepared block to it. The locale states what
  makes a set of steps insensitive to order and repetition; the interpretation proves it for the
  deliveries of one chain, and the refinement lemmas tie the statements of the sink to them.
\<close>

section \<open>The interface\<close>

locale replay =
  fixes ok :: "'op set" and step :: "'op \<Rightarrow> 's \<Rightarrow> 's"
  assumes again: "x \<in> ok \<Longrightarrow> step x (step x s) = step x s"
    and swap: "x \<in> ok \<Longrightarrow> y \<in> ok \<Longrightarrow> step x (step y s) = step y (step x s)"
begin

lemma fold_commute: "set xs \<subseteq> ok \<Longrightarrow> x \<in> ok \<Longrightarrow> step x (fold step xs s) = fold step xs (step x s)"
  using swap by (induction xs arbitrary: s) (auto simp: subset_iff)

lemma fold_again: "set xs \<subseteq> ok \<Longrightarrow> x \<in> set xs \<Longrightarrow> step x (fold step xs s) = fold step xs s"
proof (induction xs arbitrary: s)
  case (Cons y ys)
  show ?case
  proof (cases "x = y")
    case True
    then show ?thesis using Cons.prems(1) again fold_commute [of ys y] by simp
  next
    case False
    then show ?thesis using Cons.IH Cons.prems by simp
  qed
qed simp

lemma fold_absorb: "set xs \<subseteq> ok \<Longrightarrow> set ys \<subseteq> set xs \<Longrightarrow> fold step ys (fold step xs s) = fold step xs s"
proof (induction ys)
  case (Cons y ys)
  then show ?case using fold_again by simp
qed simp

lemma folds_commute:
  "set xs \<subseteq> ok \<Longrightarrow> set ys \<subseteq> ok \<Longrightarrow> fold step ys (fold step xs s) = fold step xs (fold step ys s)"
proof (induction ys arbitrary: s)
  case (Cons y ys)
  have "fold step (y # ys) (fold step xs s) = fold step ys (fold step xs (step y s))"
    using fold_commute [of xs y s] Cons.prems by simp
  then show ?case using Cons by simp
qed simp

text \<open>Only the set of the steps counts.\<close>

theorem fold_set_eq:
  assumes "set xs \<subseteq> ok" and "set xs = set ys"
  shows "fold step xs s = fold step ys s"
proof -
  have "fold step xs s = fold step ys (fold step xs s)" using fold_absorb [of xs ys s] assms by simp
  also have "\<dots> = fold step xs (fold step ys s)" using folds_commute assms by simp
  also have "\<dots> = fold step ys s" using fold_absorb [of ys xs s] assms by simp
  finally show ?thesis .
qed

end

section \<open>Account snapshots\<close>

text \<open>Snapshots of different blocks commute on an account; snapshots of one block satisfy the law
  by which a later one hides an earlier one.\<close>

lemma upsert_account_swap:
  assumes "ka_last_activity_block a \<noteq> ka_last_activity_block b"
  shows "upsert_account a (Some (upsert_account b x)) = upsert_account b (Some (upsert_account a x))"
proof (cases x)
  case None
  then show ?thesis using assms
    by (intro account_db.equality) (auto simp: upsert_account_def Let_def max_def min_def)
next
  case (Some o')
  then show ?thesis using assms
    by (intro account_db.equality) (auto simp: upsert_account_def Let_def max_def min_def)
qed

lemma upsert_account_hide:
  assumes "ka_last_activity_block a = ka_last_activity_block b"
  shows "upsert_account a (Some (upsert_account b (Some (upsert_account a x)))) =
    upsert_account a (Some (upsert_account b x))"
proof (cases x)
  case None
  then show ?thesis using assms
    by (intro account_db.equality) (auto simp: upsert_account_def Let_def max_def min_def)
next
  case (Some o')
  then show ?thesis using assms
    by (intro account_db.equality) (auto simp: upsert_account_def Let_def max_def min_def)
qed

lemma upsert_account_again: "upsert_account a (Some (upsert_account a x)) = upsert_account a x"
  by (cases x; intro account_db.equality) (auto simp: upsert_account_def Let_def max_def min_def)

lemma sint_eq_iff [simp]: "sint a = sint b \<longleftrightarrow> a = b"
  by (metis signed_word_eqI)

lemma account_db_of_block: "ka_last_activity_block (account_db_of n ts s) = sint n"
  by (simp add: account_db_of_def)

lemma upsert_row_swap:
  "n \<noteq> n' \<Longrightarrow> upsert_row sid n ts p (upsert_row sid n' ts' q t) = upsert_row sid n' ts' q (upsert_row sid n ts p t)"
  by (cases "fst p = fst q")
    (auto simp: upsert_row_def upsert_account_swap account_db_of_block fun_upd_twist)

lemma upsert_row_hide:
  "upsert_row sid n ts p (upsert_row sid n ts q (upsert_row sid n ts p t)) =
   upsert_row sid n ts p (upsert_row sid n ts q t)"
  by (cases "fst p = fst q")
    (auto simp: upsert_row_def upsert_account_hide upsert_account_again account_db_of_block fun_upd_twist)

lemma upsert_row_again: "upsert_row sid n ts p (upsert_row sid n ts p t) = upsert_row sid n ts p t"
  by (simp add: upsert_row_def upsert_account_again)

text \<open>A whole list of snapshots, written as the statements write it.\<close>

definition upsert_rows ::
  "int \<Rightarrow> u64 \<Rightarrow> int \<Rightarrow> (bytes \<times> account_snapshot) list \<Rightarrow> (int \<times> bytes \<rightharpoonup> account_db) \<Rightarrow> (int \<times> bytes \<rightharpoonup> account_db)" where
  "upsert_rows sid n ts rows t = foldl (\<lambda>t p. upsert_row sid n ts p t) t rows"

lemma upsert_rows_simps [simp]:
  "upsert_rows sid n ts [] t = t"
  "upsert_rows sid n ts (p # ps) t = upsert_rows sid n ts ps (upsert_row sid n ts p t)"
  "upsert_rows sid n ts (ps @ qs) t = upsert_rows sid n ts qs (upsert_rows sid n ts ps t)"
  by (simp_all add: upsert_rows_def)

lemma upsert_row_rows_swap:
  "n \<noteq> n' \<Longrightarrow> upsert_row sid n ts p (upsert_rows sid n' ts' qs t) = upsert_rows sid n' ts' qs (upsert_row sid n ts p t)"
  by (induction qs arbitrary: t) (simp_all add: upsert_row_swap)

lemma upsert_rows_swap:
  "n \<noteq> n' \<Longrightarrow> upsert_rows sid n ts ps (upsert_rows sid n' ts' qs t) = upsert_rows sid n' ts' qs (upsert_rows sid n ts ps t)"
  by (induction ps arbitrary: t) (simp_all add: upsert_row_rows_swap)

lemma upsert_rows_hide:
  "upsert_row sid n ts p (upsert_rows sid n ts qs (upsert_row sid n ts p t)) =
   upsert_row sid n ts p (upsert_rows sid n ts qs t)"
proof (induction qs rule: rev_induct)
  case Nil
  then show ?case by (simp add: upsert_row_again)
next
  case (snoc q qs)
  let ?f = "upsert_row sid n ts" and ?F = "upsert_rows sid n ts qs"
  have "?f p (?f q (?F (?f p t))) = ?f p (?f q (?f p (?F (?f p t))))" by (simp add: upsert_row_hide)
  also have "\<dots> = ?f p (?f q (?f p (?F t)))" by (simp add: snoc.IH)
  also have "\<dots> = ?f p (?f q (?F t))" by (simp add: upsert_row_hide)
  finally show ?case by simp
qed

lemma upsert_rows_front:
  "p \<in> set ps \<Longrightarrow> upsert_rows sid n ts ps (upsert_row sid n ts p t) = upsert_rows sid n ts ps t"
  by (auto simp: in_set_conv_decomp upsert_rows_hide)

lemma upsert_rows_again: "upsert_rows sid n ts ps (upsert_rows sid n ts ps t) = upsert_rows sid n ts ps t"
proof -
  have "upsert_rows sid n ts ps (upsert_rows sid n ts qs t) = upsert_rows sid n ts ps t"
    if "set qs \<subseteq> set ps" for qs
    using that
  proof (induction qs rule: rev_induct)
    case (snoc q qs)
    then show ?case using upsert_rows_front [of q ps] by simp
  qed simp
  then show ?thesis by simp
qed


section \<open>The catalogue and its abstract step\<close>

record catalogue =
  cg_blocks :: "int \<times> int \<rightharpoonup> block_db"
  cg_extrinsics :: "int \<times> int \<times> int \<rightharpoonup> extrinsic_db"
  cg_events :: "int \<times> int \<times> int \<rightharpoonup> event_db"
  cg_movements :: "int \<times> int \<times> int \<times> bytes \<rightharpoonup> movement_db"
  cg_accounts :: "int \<times> bytes \<rightharpoonup> account_db"

definition catalogue_of :: "db \<Rightarrow> catalogue" where
  "catalogue_of d = \<lparr> cg_blocks = (\<lambda>k. map_option (\<lambda>b. b\<lparr> kb_author_id := None \<rparr>) (t_blocks d k)),
     cg_extrinsics = t_extrinsics d, cg_events = t_events d, cg_movements = t_movements d,
     cg_accounts = t_accounts d \<rparr>"

text \<open>The rows a prepared block brings to each table.\<close>

definition block_rows :: "int \<Rightarrow> prepared \<Rightarrow> int \<times> int \<rightharpoonup> block_db" where
  "block_rows sid p = [(sid, sint (br_num (pp_row p))) \<mapsto> block_db_of (pp_row p) None]"

definition extrinsic_rows :: "int \<Rightarrow> prepared \<Rightarrow> int \<times> int \<times> int \<rightharpoonup> extrinsic_db" where
  "extrinsic_rows sid p = map_of (map (\<lambda>r. (extrinsic_key sid r,
     extrinsic_db_of (br_timestamp_ms (pp_row p)) r)) (pp_extrinsics p))"

definition event_rows :: "int \<Rightarrow> prepared \<Rightarrow> int \<times> int \<times> int \<rightharpoonup> event_db" where
  "event_rows sid p = map_of (map (\<lambda>r. (event_key sid r,
     event_db_of (br_timestamp_ms (pp_row p)) r)) (pp_events p))"

definition movement_rows :: "int \<Rightarrow> prepared \<Rightarrow> int \<times> int \<times> int \<times> bytes \<rightharpoonup> movement_db" where
  "movement_rows sid p = map_of (map (\<lambda>r. (movement_pk sid r, movement_db_of r)) (pp_movements p))"

definition account_rows :: "u64 \<Rightarrow> prepared \<Rightarrow> (bytes \<times> account_snapshot) list" where
  "account_rows n p = pp_snapshots p @ (if n = 0 then pp_genesis p else [])"

definition deliver :: "int \<Rightarrow> u64 \<times> prepared \<Rightarrow> catalogue \<Rightarrow> catalogue" where
  "deliver sid = (\<lambda>(n, p) c. \<lparr> cg_blocks = block_rows sid p ++ cg_blocks c,
     cg_extrinsics = extrinsic_rows sid p ++ cg_extrinsics c,
     cg_events = event_rows sid p ++ cg_events c,
     cg_movements = movement_rows sid p ++ cg_movements c,
     cg_accounts = upsert_rows sid n (br_timestamp_ms (pp_row p)) (account_rows n p) (cg_accounts c) \<rparr>)"

text \<open>The rows carry the number of their block.\<close>

definition numbered :: "u64 \<Rightarrow> prepared \<Rightarrow> bool" where
  "numbered n p \<longleftrightarrow> br_num (pp_row p) = n \<and> (\<forall>r\<in>set (pp_extrinsics p). xr_block_num r = n) \<and>
     (\<forall>r\<in>set (pp_events p). ew_block_num r = n) \<and> (\<forall>r\<in>set (pp_movements p). mv_block_num r = n)"

lemma rows_dom:
  assumes "numbered n p"
  shows "dom (block_rows sid p) \<subseteq> {k. snd k = sint n}"
    and "dom (extrinsic_rows sid p) \<subseteq> {k. fst (snd k) = sint n}"
    and "dom (event_rows sid p) \<subseteq> {k. fst (snd k) = sint n}"
    and "dom (movement_rows sid p) \<subseteq> {k. fst (snd k) = sint n}"
  using assms
  by (auto simp: numbered_def block_rows_def extrinsic_rows_def event_rows_def movement_rows_def
      dom_map_of_conv_image_fst extrinsic_key_def event_key_def movement_pk_def split: if_splits)

lemma disjoint_by: "A \<subseteq> {k. f k = a} \<Longrightarrow> B \<subseteq> {k. f k = b} \<Longrightarrow> a \<noteq> b \<Longrightarrow> A \<inter> B = {}"
  by blast

lemma map_add_left_commute:
  assumes "dom a \<inter> dom b = {}"
  shows "a ++ (b ++ c) = b ++ (a ++ c)"
proof -
  have "a ++ (b ++ c) = (a ++ b) ++ c" by simp
  also have "\<dots> = (b ++ a) ++ c" using map_add_comm [OF assms] by simp
  finally show ?thesis by simp
qed

lemma map_add_left_idem: "a ++ (a ++ b) = a ++ b"
  by (auto simp: map_add_def fun_eq_iff split: option.splits)

text \<open>The deliveries of one chain: what is prepared for a block is a function of its number.\<close>

definition deliveries :: "(u64 \<Rightarrow> prepared) \<Rightarrow> (u64 \<times> prepared) set" where
  "deliveries pf = {(n, p). p = pf n \<and> numbered n p}"

lemma deliver_again: "deliver sid x (deliver sid x c) = deliver sid x c"
  by (cases x) (simp add: deliver_def map_add_left_idem upsert_rows_again del: map_add_assoc)

lemma deliver_swap:
  assumes "numbered n p" "numbered m q" "n \<noteq> m"
  shows "deliver sid (n, p) (deliver sid (m, q) c) = deliver sid (m, q) (deliver sid (n, p) c)"
proof -
  have "sint n \<noteq> sint m" using assms(3) by simp
  note dis = disjoint_by [OF rows_dom(1) [OF assms(1)] rows_dom(1) [OF assms(2)] this]
    disjoint_by [OF rows_dom(2) [OF assms(1)] rows_dom(2) [OF assms(2)] this]
    disjoint_by [OF rows_dom(3) [OF assms(1)] rows_dom(3) [OF assms(2)] this]
    disjoint_by [OF rows_dom(4) [OF assms(1)] rows_dom(4) [OF assms(2)] this]
  show ?thesis
    by (simp add: deliver_def upsert_rows_swap [OF assms(3)] del: map_add_assoc)
      (intro conjI map_add_left_commute dis)
qed

interpretation chain: replay "deliveries pf" "deliver sid" for pf sid
proof unfold_locales
  fix x c
  show "deliver sid x (deliver sid x c) = deliver sid x c" by (rule deliver_again)
next
  fix x y c
  assume "x \<in> deliveries pf" "y \<in> deliveries pf"
  then show "deliver sid x (deliver sid y c) = deliver sid y (deliver sid x c)"
    by (cases "x = y") (auto simp: deliveries_def intro!: deliver_swap)
qed

section \<open>The sink refines the abstract step\<close>

text \<open>What a loop of statements does to a part of the database that each statement folds its rows
  into.\<close>

lemma exec_chunks_fold:
  assumes "exec_chunks flt st on_err stmt i cs d = Inr d'"
    and "\<And>c d d'. stmt c d = Inr d' \<Longrightarrow> proj d' = g c (proj d)"
  shows "proj d' = fold g cs (proj d)"
  using assms(1)
proof (induction cs arbitrary: i d)
  case (Cons c cs)
  from Cons.prems obtain d1 where "stmt c d = Inr d1"
    and "exec_chunks flt st on_err stmt (Suc i) cs d1 = Inr d'"
    by (auto simp: bind_r_Inr_iff run_stmt_Inr_iff)
  then show ?case using Cons.IH assms(2) by simp
qed simp

lemma fold_extrinsics:
  "fold (\<lambda>rs d. d\<lparr> t_extrinsics := map_of (map f rs) ++ t_extrinsics d \<rparr>) cs d =
     d\<lparr> t_extrinsics := map_of (map f (concat cs)) ++ t_extrinsics d \<rparr>"
  by (induction cs arbitrary: d) simp_all

lemma fold_events:
  "fold (\<lambda>rs d. d\<lparr> t_events := map_of (map f rs) ++ t_events d \<rparr>) cs d =
     d\<lparr> t_events := map_of (map f (concat cs)) ++ t_events d \<rparr>"
  by (induction cs arbitrary: d) simp_all

lemma fold_movements:
  "fold (\<lambda>rs d. d\<lparr> t_movements := map_of (map f rs) ++ t_movements d \<rparr>) cs d =
     d\<lparr> t_movements := map_of (map f (concat cs)) ++ t_movements d \<rparr>"
  by (induction cs arbitrary: d) simp_all

lemma fold_accounts:
  "fold (\<lambda>rs d. d\<lparr> t_accounts := upsert_rows sid n ts rs (t_accounts d) \<rparr>) cs d =
     d\<lparr> t_accounts := upsert_rows sid n ts (concat cs) (t_accounts d) \<rparr>"
  by (induction cs arbitrary: d) simp_all

lemmas fold_tables = fold_extrinsics fold_events fold_movements fold_accounts

lemma insert_extrinsics_eq:
  assumes "insert_extrinsics flt sid ts rows d = Inr d'"
  shows "d' = d\<lparr> t_extrinsics :=
    map_of (map (\<lambda>r. (extrinsic_key sid r, extrinsic_db_of ts r)) rows) ++ t_extrinsics d \<rparr>"
proof -
  have "d' = fold (\<lambda>rs d. d\<lparr> t_extrinsics :=
      map_of (map (\<lambda>r. (extrinsic_key sid r, extrinsic_db_of ts r)) rs) ++ t_extrinsics d \<rparr>)
      (chunks (max_binds_per_query div 13) rows) d"
    by (rule exec_chunks_fold [OF assms [unfolded insert_extrinsics_def], where proj = "\<lambda>d. d"])
      (auto simp: insert_extrinsics_stmt_def map_ok_Inr_iff dest: insert_do_nothing_eq)
  then show ?thesis by (simp add: fold_tables max_binds_per_query_def)
qed

lemma insert_events_eq:
  assumes "insert_events flt sid ts rows d = Inr d'"
  shows "d' = d\<lparr> t_events :=
    map_of (map (\<lambda>r. (event_key sid r, event_db_of ts r)) rows) ++ t_events d \<rparr>"
proof -
  have "d' = fold (\<lambda>rs d. d\<lparr> t_events :=
      map_of (map (\<lambda>r. (event_key sid r, event_db_of ts r)) rs) ++ t_events d \<rparr>)
      (chunks (max_binds_per_query div 9) rows) d"
    by (rule exec_chunks_fold [OF assms [unfolded insert_events_def], where proj = "\<lambda>d. d"])
      (auto simp: insert_events_stmt_def map_ok_Inr_iff dest: insert_do_nothing_eq)
  then show ?thesis by (simp add: fold_tables max_binds_per_query_def)
qed

lemma insert_movements_eq:
  assumes "insert_balance_movements flt sid rows d = Inr d'"
  shows "d' = d\<lparr> t_movements :=
    map_of (map (\<lambda>r. (movement_pk sid r, movement_db_of r)) rows) ++ t_movements d \<rparr>"
proof -
  have "d' = fold (\<lambda>rs d. d\<lparr> t_movements :=
      map_of (map (\<lambda>r. (movement_pk sid r, movement_db_of r)) rs) ++ t_movements d \<rparr>)
      (chunks (max_binds_per_query div 7) rows) d"
    by (rule exec_chunks_fold [OF assms [unfolded insert_balance_movements_def], where proj = "\<lambda>d. d"])
      (auto simp: insert_movements_stmt_def map_ok_Inr_iff dest: insert_do_nothing_eq)
  then show ?thesis by (simp add: fold_tables max_binds_per_query_def)
qed

lemma apply_account_snapshots_eq:
  assumes "apply_account_snapshots flt st sid n ts rows d = Inr d'"
  shows "d' = d\<lparr> t_accounts := upsert_rows sid n ts rows (t_accounts d) \<rparr>"
proof -
  have "d' = fold (\<lambda>rs d. d\<lparr> t_accounts := upsert_rows sid n ts rs (t_accounts d) \<rparr>)
      (chunks (max_binds_per_query div 10) rows) d"
    by (rule exec_chunks_fold [OF assms [unfolded apply_account_snapshots_def], where proj = "\<lambda>d. d"])
      (auto simp: upsert_stmt_def upsert_rows_def split: if_splits)
  then show ?thesis by (simp add: fold_tables max_binds_per_query_def)
qed

lemma catalogue_insert_block:
  "insert_block flt sid row a d = Inr (b, d') \<Longrightarrow>
     catalogue_of d' = (catalogue_of d)\<lparr> cg_blocks :=
       [(sid, sint (br_num row)) \<mapsto> block_db_of row None] ++ cg_blocks (catalogue_of d) \<rparr>"
  by (auto simp: insert_block_def run_stmt_Inr_iff Let_def catalogue_of_def block_db_of_def
      map_add_def fun_eq_iff split: option.splits if_splits)

lemma catalogue_exec_each:
  assumes "exec_each flt st on_err f i rs d = Inr d'" and "\<And>r d. catalogue_of (f r d) = catalogue_of d"
  shows "catalogue_of d' = catalogue_of d"
  by (rule exec_each_keeps [OF assms(1)]) (use assms(2) in auto)

lemma catalogue_bump: "catalogue_of (bump_version_count sid b d) = catalogue_of d"
  by (auto simp: bump_version_count_def catalogue_of_def split: option.splits)

lemma catalogue_revoke: "catalogue_of (revoke_ats sid i d) = catalogue_of d"
  by (simp add: revoke_ats_def catalogue_of_def)

lemma catalogue_registry: "registry_stmt sid rows d = Inr d' \<Longrightarrow> catalogue_of d' = catalogue_of d"
  by (auto simp: registry_stmt_def map_ok_Inr_iff catalogue_of_def)

lemma catalogue_versions: "versions_stmt sid rows d = Inr d' \<Longrightarrow> catalogue_of d' = catalogue_of d"
  by (auto simp: versions_stmt_def map_ok_Inr_iff catalogue_of_def)

lemma catalogue_apply_ats:
  assumes "apply_ats flt sid ops d = Inr d'"
  shows "catalogue_of d' = catalogue_of d"
proof -
  from assms obtain d1 d2 d3 where
    1: "registry_inserts ops = [] \<and> d1 = d \<or> registry_stmt sid (registry_inserts ops) d = Inr d1" and
    2: "version_inserts ops = [] \<and> d2 = d1 \<or> versions_stmt sid (version_inserts ops) d1 = Inr d2" and
    3: "exec_each flt StBump (\<lambda>b e. Rpc (''bump_version_count(net='' @ show_int sid @ ''/'' @
         show_word (vb_ats_id b) @ '', '' @ show_word (vb_version_count b) @ ''): '' @ e))
         (bump_version_count sid) 0 (version_count_bumps ops) d2 = Inr d3" and
    4: "exec_each flt StRevoke (\<lambda>i e. Rpc (''revoke_ats(net='' @ show_int sid @ ''/'' @ show_word i @
         ''): '' @ e)) (revoke_ats sid) 0 (revocations ops) d3 = Inr d'"
    unfolding apply_ats_def bind_r_Inr_iff by (fastforce simp: run_stmt_Inr_iff split: if_splits)
  have "catalogue_of d' = catalogue_of d3" using 4 catalogue_revoke by (rule catalogue_exec_each)
  also have "\<dots> = catalogue_of d2" using 3 catalogue_bump by (rule catalogue_exec_each)
  also have "\<dots> = catalogue_of d1" using 2 catalogue_versions by blast
  also have "\<dots> = catalogue_of d" using 1 catalogue_registry by blast
  finally show ?thesis .
qed

text \<open>The statements of one block implement its delivery.\<close>

lemma write_block_deliver:
  assumes "write_block flt w n p a d = Inr d'"
  shows "catalogue_of d' = deliver (wk_sid w) (n, p) (catalogue_of d)"
proof -
  let ?sid = "wk_sid w" and ?ts = "br_timestamp_ms (pp_row p)"
  from assms obtain b d1 d2 d3 d4 d5 d6 where
    1: "insert_block flt ?sid (pp_row p) a d = Inr (b, d1)" and
    2: "insert_extrinsics flt ?sid ?ts (pp_extrinsics p) d1 = Inr d2" and
    3: "insert_events flt ?sid ?ts (pp_events p) d2 = Inr d3" and
    4: "insert_balance_movements flt ?sid (pp_movements p) d3 = Inr d4" and
    5: "apply_account_snapshots flt StSnapshots ?sid n ?ts (pp_snapshots p) d4 = Inr d5" and
    6: "(if n = 0 then apply_account_snapshots flt StGenesisSnapshots ?sid 0 ?ts (pp_genesis p) d5
         else Inr d5) = Inr d6" and
    7: "apply_ats flt ?sid (pp_ats p) d6 = Inr d'"
    unfolding write_block_def Let_def bind_r_Inr_iff
    by (clarsimp simp: bind_r_Inr_iff split: prod.splits)
  have 56: "d6 = d4\<lparr> t_accounts := upsert_rows ?sid n ?ts (account_rows n p) (t_accounts d4) \<rparr>"
    using 6 apply_account_snapshots_eq [OF 5]
    by (auto simp: account_rows_def dest!: apply_account_snapshots_eq split: if_splits)
  have "catalogue_of d6 = deliver ?sid (n, p) (catalogue_of d)"
    using catalogue_insert_block [OF 1]
    by (simp add: 56 insert_movements_eq [OF 4] insert_events_eq [OF 3]
        insert_extrinsics_eq [OF 2] deliver_def catalogue_of_def block_rows_def extrinsic_rows_def
        event_rows_def movement_rows_def)
  then show ?thesis by (simp add: catalogue_apply_ats [OF 7])
qed


lemma extrinsic_row_of_num [simp]: "xr_block_num (extrinsic_row_of at n rk m x) = n"
  by (simp add: extrinsic_row_of_def Let_def split: prod.splits)

lemma extrinsics_map_Inr:
  assumes "extrinsics_map at n rk = Inr rows"
  shows "\<exists>m exts. rows = map (extrinsic_row_of at n rk m) exts"
  using assms unfolding extrinsics_map_def bind_r_Inr_iff by blast

lemma prepare_block_numbered: "prepare_block w nd n = Inr p \<Longrightarrow> numbered n p"
proof -
  assume prep: "prepare_block w nd n = Inr p"
  then obtain at where x: "extrinsics_map at n (wk_runtime_kind w) = Inr (pp_extrinsics p)"
    and e: "events_map at n = Inr (pp_events p)"
    by (auto simp: prepare_block_def Let_def bind_r_Inr_iff)
  have "\<forall>r\<in>set (pp_extrinsics p). xr_block_num r = n"
    using extrinsics_map_Inr [OF x] by auto
  moreover from e obtain evts where "pp_events p = map (event_row_of n) (enumerate 0 evts)"
    by (rule events_map_Inr)
  then have "\<forall>r\<in>set (pp_events p). ew_block_num r = n"
    by (auto simp: event_row_of_def split: prod.splits)
  ultimately show ?thesis
    using prepare_block_num [OF prep] prepare_block_movements [OF prep] by (simp add: numbered_def)
qed

section \<open>Runs of the workers\<close>

text \<open>One attempt by either worker to index one block; the node may answer differently at each
  attempt. The run of a list of attempts returns the numbers indexed.\<close>

record job =
  jb_live :: bool
  jb_attempt :: attempt
  jb_node :: node
  jb_num :: u64

definition index_job :: "worker \<Rightarrow> job \<Rightarrow> store \<Rightarrow> unit data_result \<times> store" where
  "index_job w j st =
     (if jb_live j then live_index_block (jb_attempt j) w (jb_node j) (jb_num j) st
      else backfill_index_block (jb_attempt j) w (jb_node j) (jb_num j) st)"

fun run_jobs :: "worker \<Rightarrow> job list \<Rightarrow> store \<Rightarrow> u64 list \<times> store" where
  "run_jobs w [] st = ([], st)"
| "run_jobs w (j # js) st = (case index_job w j st of (r, st1) \<Rightarrow>
     (case run_jobs w js st1 of (indexed, st2) \<Rightarrow>
       (if r = Inr () then jb_num j # indexed else indexed, st2)))"

lemma same_but_authors_catalogue: "same_but_authors d d' \<Longrightarrow> catalogue_of d' = catalogue_of d"
  by (auto simp: same_but_authors_def catalogue_of_def)

lemma bump_cursor_catalogue: "bump_cursor flt now sid str n d = Inr d' \<Longrightarrow> catalogue_of d' = catalogue_of d"
  by (auto simp: bump_cursor_def run_stmt_Inr_iff catalogue_of_def split: option.splits if_splits)

lemma index_job_deliver:
  assumes "index_job w j st = (r, st')"
  shows "(\<exists>e. r = Inl e \<and> catalogue_of (snd st') = catalogue_of (snd st)) \<or>
    (\<exists>p. r = Inr () \<and> prepare_block w (jb_node j) (jb_num j) = Inr p \<and>
       catalogue_of (snd st') = deliver (wk_sid w) (jb_num j, p) (catalogue_of (snd st)))"
proof -
  obtain cache d cache' d' where st: "st = (cache, d)" "st' = (cache', d')" by (metis prod.exhaust)
  note to_catalogue = same_but_authors_catalogue write_block_deliver bump_cursor_catalogue
  show ?thesis
  proof (cases "jb_live j")
    case True
    with assms st have "live_index_block (jb_attempt j) w (jb_node j) (jb_num j) (cache, d) = (r, cache', d')"
      by (simp add: index_job_def)
    then show ?thesis using st
      by (cases rule: live_index_block_cases) (auto dest!: to_catalogue)
  next
    case False
    with assms st have "backfill_index_block (jb_attempt j) w (jb_node j) (jb_num j) (cache, d) = (r, cache', d')"
      by (simp add: index_job_def)
    then show ?thesis using st
      by (cases rule: backfill_index_block_cases) (auto dest!: to_catalogue)
  qed
qed

text \<open>The answers of the node agree on a chain when every successful preparation of a block gives
  the same rows.\<close>

definition one_chain :: "worker \<Rightarrow> (u64 \<Rightarrow> prepared) \<Rightarrow> job list \<Rightarrow> bool" where
  "one_chain w pf js \<longleftrightarrow>
     (\<forall>j\<in>set js. \<forall>p. prepare_block w (jb_node j) (jb_num j) = Inr p \<longrightarrow> p = pf (jb_num j))"

lemma run_jobs_deliver:
  assumes "run_jobs w js st = (indexed, st')" and "one_chain w pf js"
  shows "catalogue_of (snd st') =
      fold (deliver (wk_sid w)) (map (\<lambda>n. (n, pf n)) indexed) (catalogue_of (snd st)) \<and>
    (\<lambda>n. (n, pf n)) ` set indexed \<subseteq> deliveries pf"
  using assms
proof (induction js arbitrary: st indexed)
  case (Cons j js)
  obtain r st1 ind where j: "index_job w j st = (r, st1)" and js: "run_jobs w js st1 = (ind, st')"
    and ind: "indexed = (if r = Inr () then jb_num j # ind else ind)"
    using Cons.prems(1) by (auto split: prod.splits)
  have "one_chain w pf js" using Cons.prems(2) by (simp add: one_chain_def)
  note IH = Cons.IH [OF js this]
  from index_job_deliver [OF j] show ?case
  proof (elim disjE exE conjE)
    fix e assume "r = Inl e" "catalogue_of (snd st1) = catalogue_of (snd st)"
    then show ?thesis using IH ind by simp
  next
    fix p assume p: "r = Inr ()" "prepare_block w (jb_node j) (jb_num j) = Inr p"
      "catalogue_of (snd st1) = deliver (wk_sid w) (jb_num j, p) (catalogue_of (snd st))"
    then have "p = pf (jb_num j)" using Cons.prems(2) by (simp add: one_chain_def)
    then show ?thesis using IH ind p prepare_block_numbered [OF p(2)] by (auto simp: deliveries_def)
  qed
qed simp

section \<open>Progress\<close>

lemma exec_chunks_ok:
  assumes "\<And>s. flt s = None" and "P d"
    and "\<And>c d. c \<in> set cs \<Longrightarrow> P d \<Longrightarrow> \<exists>d'. stmt c d = Inr d' \<and> P d'"
  shows "\<exists>d'. exec_chunks flt st on_err stmt i cs d = Inr d' \<and> P d'"
  using assms(2,3)
proof (induction cs arbitrary: i d)
  case (Cons c cs)
  from Cons.prems obtain d1 where d1: "stmt c d = Inr d1" "P d1" by (meson list.set_intros(1))
  from Cons.IH [OF this(2)] Cons.prems(2) obtain d' where
    "exec_chunks flt st on_err stmt (Suc i) cs d1 = Inr d'" "P d'" by (meson list.set_intros(2))
  moreover have "flt (st i) = None" by (rule assms(1))
  ultimately show ?case using d1(1) by (auto simp: run_stmt_def)
qed simp

lemma in_chunk: "0 < k \<Longrightarrow> c \<in> set (chunks k xs) \<Longrightarrow> x \<in> set c \<Longrightarrow> x \<in> set xs"
  using concat_chunks [of k xs] by (metis UN_I set_concat)

lemma insert_block_ok:
  assumes "\<And>s. flt s = None" and "t_block_hash d (sid, br_hash row) = None \<or> (sid, sint (br_num row)) \<in> dom (t_blocks d)"
  shows "\<exists>b d'. insert_block flt sid row a d = Inr (b, d')"
  using assms by (auto simp: insert_block_def run_stmt_def Let_def split: option.splits)

lemma insert_ok:
  assumes "\<forall>r\<in>set rows. fk r"
  shows "\<exists>t'. insert_do_nothing key val fk rows t = Inr t'"
  using insert_do_nothing_ok [OF assms] by blast

lemma insert_extrinsics_ok:
  assumes "\<And>s. flt s = None" and "(sid, sint n) \<in> dom (t_blocks d)" and "\<forall>r\<in>set xs. xr_block_num r = n"
  shows "\<exists>d'. insert_extrinsics flt sid ts xs d = Inr d' \<and> (sid, sint n) \<in> dom (t_blocks d')"
  unfolding insert_extrinsics_def
proof (rule exec_chunks_ok [where P = "\<lambda>d. (sid, sint n) \<in> dom (t_blocks d)", OF assms(1,2)])
  fix c and d :: db assume c: "c \<in> set (chunks (max_binds_per_query div 13) xs)" "(sid, sint n) \<in> dom (t_blocks d)"
  then have "\<forall>r\<in>set c. block_exists d sid (sint (xr_block_num r))"
    using in_chunk [OF _ c(1)] assms(3) by (simp add: block_exists_dom max_binds_per_query_def)
  from insert_ok [OF this, of "extrinsic_key sid" "extrinsic_db_of ts" "t_extrinsics d"] c(2)
  show "\<exists>d'. insert_extrinsics_stmt sid ts c d = Inr d' \<and> (sid, sint n) \<in> dom (t_blocks d')"
    by (auto simp: insert_extrinsics_stmt_def)
qed

lemma insert_events_ok:
  assumes "\<And>s. flt s = None" and "(sid, sint n) \<in> dom (t_blocks d)" and "\<forall>r\<in>set xs. ew_block_num r = n"
  shows "\<exists>d'. insert_events flt sid ts xs d = Inr d' \<and> (sid, sint n) \<in> dom (t_blocks d')"
  unfolding insert_events_def
proof (rule exec_chunks_ok [where P = "\<lambda>d. (sid, sint n) \<in> dom (t_blocks d)", OF assms(1,2)])
  fix c and d :: db assume c: "c \<in> set (chunks (max_binds_per_query div 9) xs)" "(sid, sint n) \<in> dom (t_blocks d)"
  then have "\<forall>r\<in>set c. block_exists d sid (sint (ew_block_num r))"
    using in_chunk [OF _ c(1)] assms(3) by (simp add: block_exists_dom max_binds_per_query_def)
  from insert_ok [OF this, of "event_key sid" "event_db_of ts" "t_events d"] c(2)
  show "\<exists>d'. insert_events_stmt sid ts c d = Inr d' \<and> (sid, sint n) \<in> dom (t_blocks d')"
    by (auto simp: insert_events_stmt_def)
qed

lemma insert_movements_ok:
  assumes "\<And>s. flt s = None" and "(sid, sint n) \<in> dom (t_blocks d)" and "\<forall>r\<in>set xs. mv_block_num r = n"
  shows "\<exists>d'. insert_balance_movements flt sid xs d = Inr d' \<and> (sid, sint n) \<in> dom (t_blocks d')"
  unfolding insert_balance_movements_def
proof (rule exec_chunks_ok [where P = "\<lambda>d. (sid, sint n) \<in> dom (t_blocks d)", OF assms(1,2)])
  fix c and d :: db assume c: "c \<in> set (chunks (max_binds_per_query div 7) xs)" "(sid, sint n) \<in> dom (t_blocks d)"
  then have "\<forall>r\<in>set c. block_exists d sid (sint (mv_block_num r))"
    using in_chunk [OF _ c(1)] assms(3) by (simp add: block_exists_dom max_binds_per_query_def)
  from insert_ok [OF this, of "movement_pk sid" "movement_db_of" "t_movements d"] c(2)
  show "\<exists>d'. insert_movements_stmt sid c d = Inr d' \<and> (sid, sint n) \<in> dom (t_blocks d')"
    by (auto simp: insert_movements_stmt_def)
qed

lemma chunk_infix: "0 < k \<Longrightarrow> c \<in> set (chunks k xs) \<Longrightarrow> \<exists>ys zs. xs = ys @ c @ zs"
  using concat_chunks [of k xs] by (metis concat.simps(2) concat_append in_set_conv_decomp)

lemma apply_account_snapshots_ok:
  assumes "\<And>s. flt s = None" and "distinct (map fst rows)"
  shows "\<exists>d'. apply_account_snapshots flt st sid n ts rows d = Inr d'"
proof -
  have "\<exists>d'. apply_account_snapshots flt st sid n ts rows d = Inr d' \<and> True"
    unfolding apply_account_snapshots_def
  proof (rule exec_chunks_ok [where P = "\<lambda>_. True", OF assms(1)])
    fix c and d :: db assume "c \<in> set (chunks (max_binds_per_query div 10) rows)"
    then obtain ys zs where "rows = ys @ c @ zs"
      using chunk_infix [of "max_binds_per_query div 10" c rows] by (auto simp: max_binds_per_query_def)
    then show "\<exists>d'. upsert_stmt sid n ts c d = Inr d' \<and> True"
      using assms(2) by (simp add: upsert_stmt_def)
  qed simp
  then show ?thesis by simp
qed

lemma apply_ats_empty: "ats_ops_is_empty ops \<Longrightarrow> apply_ats flt sid ops d = Inr d"
  by (simp add: ats_ops_is_empty_def apply_ats_def)

lemma prepare_block_snapshots:
  "prepare_block w nd n = Inr p \<Longrightarrow> \<exists>as xts. map fst (pp_snapshots p) = collect_touched as xts"
  unfolding prepare_block_def Let_def bind_r_Inr_iff
  by (elim exE conjE) (drule fetch_accounts_at_keys, fastforce)

text \<open>A prepared block is written when nothing in the environment fails.\<close>

lemma write_block_ok:
  assumes flt: "\<And>s. flt s = None" and prep: "prepare_block w nd n = Inr p"
    and fresh: "t_block_hash d (wk_sid w, br_hash (pp_row p)) = None \<or> (wk_sid w, sint n) \<in> dom (t_blocks d)"
    and ats: "ats_ops_is_empty (pp_ats p)" and genesis: "distinct (map fst (pp_genesis p))"
  shows "\<exists>d'. write_block flt w n p a d = Inr d'"
proof -
  let ?sid = "wk_sid w" and ?ts = "br_timestamp_ms (pp_row p)"
  have num: "numbered n p" using prep by (rule prepare_block_numbered)
  have "t_block_hash d (?sid, br_hash (pp_row p)) = None \<or> (?sid, sint (br_num (pp_row p))) \<in> dom (t_blocks d)"
    using fresh num by (simp add: numbered_def)
  from insert_block_ok [of flt, OF flt this] obtain b d1 where
    1: "insert_block flt ?sid (pp_row p) a d = Inr (b, d1)" by blast
  have blk: "(?sid, sint n) \<in> dom (t_blocks d1)"
    using insert_block_present [OF 1] num by (simp add: numbered_def)
  obtain d2 where 2: "insert_extrinsics flt ?sid ?ts (pp_extrinsics p) d1 = Inr d2" "(?sid, sint n) \<in> dom (t_blocks d2)"
    using insert_extrinsics_ok [of flt, OF flt blk, of "pp_extrinsics p" ?ts]
      num by (auto simp: numbered_def)
  obtain d3 where 3: "insert_events flt ?sid ?ts (pp_events p) d2 = Inr d3" "(?sid, sint n) \<in> dom (t_blocks d3)"
    using insert_events_ok [of flt, OF flt 2(2), of "pp_events p" ?ts]
      num by (auto simp: numbered_def)
  obtain d4 where 4: "insert_balance_movements flt ?sid (pp_movements p) d3 = Inr d4"
    using insert_movements_ok [of flt, OF flt 3(2), of "pp_movements p"]
      num by (auto simp: numbered_def)
  have "distinct (map fst (pp_snapshots p))"
    using prepare_block_snapshots [OF prep] distinct_collect_touched by metis
  from apply_account_snapshots_ok [of flt, OF flt this] obtain d5 where
    5: "apply_account_snapshots flt StSnapshots ?sid n ?ts (pp_snapshots p) d4 = Inr d5" by blast
  obtain d6 where 6: "apply_account_snapshots flt StGenesisSnapshots ?sid 0 ?ts (pp_genesis p) d5 = Inr d6"
    using apply_account_snapshots_ok [of flt, OF flt genesis] by blast
  show ?thesis
    by (simp add: write_block_def Let_def 1 2(1) 3(1) 4 5 6 apply_ats_empty [OF ats])
qed


lemma index_block_ok:
  assumes "prepare_block w nd n = Inr p" and "ats_ops_is_empty (pp_ats p)"
    and "distinct (map fst (pp_genesis p))"
    and "t_block_hash d (wk_sid w, br_hash (pp_row p)) = None \<or> (wk_sid w, sint n) \<in> dom (t_blocks d)"
    and "\<forall>s. an_faults an s = None" and "an_author_fault an = None"
  shows "fst (live_index_block an w nd n (cache, d)) = Inr () \<and>
    fst (backfill_index_block an w nd n (cache, d)) = Inr ()"
proof -
  obtain ra c0 d0 where ra: "resolve_author_id an w p (cache, d) = (ra, c0, d0)" by (metis prod_cases3)
  obtain a where a: "ra = Inr a"
    using ra assms(6) by (auto simp: resolve_author_id_def author_resolve_def Let_def split: option.splits)
  have "t_block_hash d0 = t_block_hash d" "t_blocks d0 = t_blocks d"
    using resolve_author_id_db [OF ra] by (auto simp: same_but_authors_def)
  then obtain d1 where d1: "write_block (an_faults an) w n p a d0 = Inr d1"
    using write_block_ok [of "an_faults an", OF _ assms(1)] assms(2-5) by metis
  have "bump_cursor (an_faults an) (an_now an) (wk_sid w) live_cursor n d1 \<in> range Inr"
    using assms(5) by (auto simp: bump_cursor_def run_stmt_def split: option.splits)
  then show ?thesis using assms(1,5) ra a d1
    by (auto simp: live_index_block_def backfill_index_block_def in_tx_def run_stmt_def)
qed

section \<open>Example data for the witnesses\<close>

text \<open>A node that serves the same block, with one transfer, under every number.\<close>

definition example_worker :: worker where
  "example_worker = \<lparr> wk_network_id = ''allfeat'', wk_sid = 1, wk_runtime_kind = Allfeat \<rparr>"

definition example_node :: node where
  "example_node = \<lparr> nd_subxt = Inr (), nd_at_block = (\<lambda>n. RpcOk (example_at n
     [example_event ''Balances'' ''Transfer'' (ApplyExtrinsic 1) (example_fields [1] [2] 500)] [])) \<rparr>"

definition example_attempt :: attempt where
  "example_attempt = \<lparr> an_faults = no_faults, an_author_fault = None, an_now = 0 \<rparr>"

definition example_prepared :: prepared where
  "example_prepared = (case prepare_block example_worker example_node 5 of Inr p \<Rightarrow> p)"

lemma example_prepare: "prepare_block example_worker example_node 5 = Inr example_prepared"
  and example_ats: "ats_ops_is_empty (pp_ats example_prepared)"
  and example_genesis: "pp_genesis example_prepared = []"
  and example_hash: "br_hash (pp_row example_prepared) = replicate 32 5"
  by (simp_all add: example_prepared_def prepare_block_def example_worker_def example_node_def
      with_timeout_def blocks_map_def extrinsics_map_def events_map_def balances_project_block_def
      fetch_header_def fetch_timestamp_def fetch_storage_def resolve_author_bytes_def aura_slot_def
      fetch_extrinsics_summary_def fetch_weights_def fetch_block_events_def example_at_def
      index_events_by_phase_def decode_balance_event_def decode_event_def example_event_def
      example_fields_def two_party_def ats_project_block_def decode_ats_event_def ats_project_def
      ats_ops_default_def ats_ops_is_empty_def collect_touched_def push_touched_def
      fetch_account_at_def Let_def split: prod.splits)

definition example_job :: "bool \<Rightarrow> job" where
  "example_job live = \<lparr> jb_live = live, jb_attempt = example_attempt, jb_node = example_node, jb_num = 5 \<rparr>"

lemma example_job_ok:
  assumes "t_block_hash d (1, br_hash (pp_row example_prepared)) = None \<or> (1, 5) \<in> dom (t_blocks d)"
  shows "fst (index_job example_worker (example_job live) (cache, d)) = Inr ()"
  using index_block_ok [OF example_prepare example_ats, of d example_attempt cache] assms
  by (auto simp: index_job_def example_job_def example_genesis example_worker_def example_attempt_def
      no_faults_def)

section \<open>Properties\<close>

text \<open>C1: Convergence. However the live worker and the backfill workers interleave, repeat and
  fail, two runs over one chain that indexed the same set of blocks end with the same blocks (up to
  the numbering of their authors), extrinsics, events, balance movements and account balances.\<close>

theorem indexing_converges:
  assumes "run_jobs w js (cache, d) = (indexed, st1)" and "run_jobs w js' (cache', d) = (indexed', st2)"
    and "one_chain w pf (js @ js')" and "set indexed = set indexed'"
  shows "catalogue_of (snd st1) = catalogue_of (snd st2)"
proof -
  let ?op = "\<lambda>n. (n, pf n)" and ?dlv = "deliver (wk_sid w)"
  have one: "one_chain w pf js" "one_chain w pf js'"
    using assms(3) by (auto simp: one_chain_def)
  have ok: "set (map ?op indexed) \<subseteq> deliveries pf"
    using run_jobs_deliver [OF assms(1) one(1)] by simp
  have "catalogue_of (snd st1) = fold ?dlv (map ?op indexed) (catalogue_of d)"
    using run_jobs_deliver [OF assms(1) one(1)] by simp
  also have "\<dots> = fold ?dlv (map ?op indexed') (catalogue_of d)"
    by (rule chain.fold_set_eq [OF ok]) (simp add: assms(4))
  also have "\<dots> = catalogue_of (snd st2)"
    using run_jobs_deliver [OF assms(2) one(2)] by simp
  finally show ?thesis .
qed

lemma indexing_converges_witness:
  "\<exists>st1 st2. run_jobs example_worker [example_job True] (Map.empty, empty_db) = ([5], st1) \<and>
     run_jobs example_worker [example_job False] (Map.empty, empty_db) = ([5], st2) \<and>
     catalogue_of (snd st1) = catalogue_of (snd st2)"
proof -
  have ok: "\<exists>st. run_jobs example_worker [example_job live] (Map.empty, empty_db) = ([5], st)" for live
    using example_job_ok [of empty_db live Map.empty]
    by (cases "index_job example_worker (example_job live) (Map.empty, empty_db)")
      (simp add: empty_db_def example_job_def)
  then obtain st1 st2 where
    st: "run_jobs example_worker [example_job True] (Map.empty, empty_db) = ([5], st1)"
      "run_jobs example_worker [example_job False] (Map.empty, empty_db) = ([5], st2)" by blast
  have "one_chain example_worker (\<lambda>_. example_prepared) ([example_job True] @ [example_job False])"
    by (simp add: one_chain_def example_job_def example_prepare)
  from indexing_converges [OF st this] show ?thesis using st by blast
qed

text \<open>C6: The worker's step refines the abstract step of the catalogue: a failed attempt changes
  nothing of it, and a successful one delivers exactly the prepared rows, an insert leaving the rows
  present as they are and a snapshot merging into the account row.\<close>

theorem index_job_refines:
  assumes "index_job w j (cache, d) = (r, cache', d')"
  shows "catalogue_of d' = (case r of Inl _ \<Rightarrow> catalogue_of d
    | Inr _ \<Rightarrow> (case prepare_block w (jb_node j) (jb_num j) of
        Inl _ \<Rightarrow> catalogue_of d
      | Inr p \<Rightarrow> deliver (wk_sid w) (jb_num j, p) (catalogue_of d)))"
  using index_job_deliver [OF assms] by auto

lemma index_job_refines_witness:
  "\<exists>cache d. index_job example_worker (example_job True) (Map.empty, empty_db) = (Inr (), cache, d) \<and>
     catalogue_of d = deliver 1 (5, example_prepared) (catalogue_of empty_db)"
proof -
  obtain r cache d where j: "index_job example_worker (example_job True) (Map.empty, empty_db) = (r, cache, d)"
    by (metis prod_cases3)
  then have "r = Inr ()" using example_job_ok [of empty_db True Map.empty] by (simp add: empty_db_def)
  with index_job_refines [OF j] j show ?thesis
    by (simp add: example_job_def example_prepare) (simp add: example_worker_def)
qed




text \<open>The witness of the atomicity of the live step.\<close>

lemma live_index_block_atomic_witness:
  "\<exists>cache d. live_index_block example_attempt example_worker example_node 5 (Map.empty, empty_db) =
     (Inr (), cache, d) \<and> db_inv d \<and> (1, 5) \<in> dom (t_blocks d) \<and> (\<exists>u. t_cursor d (1, live_cursor) = Some (5, u))"
proof -
  obtain r cache d where
    l: "live_index_block example_attempt example_worker example_node 5 (Map.empty, empty_db) = (r, cache, d)"
    by (metis prod_cases3)
  have "r = Inr ()" using l example_job_ok [of empty_db True Map.empty]
    by (simp add: empty_db_def index_job_def example_job_def)
  with live_index_block_atomic [OF l] l empty_db_inv show ?thesis
    by (simp add: example_worker_def) (simp add: empty_db_def)
qed

end
