(* ===== verification/LiveWorker.thy ===== *)
theory LiveWorker
  imports Replay
begin

text \<open>
  The run loop of the live worker (\<^verbatim>\<open>src/indexer/live.rs\<close>): the cursor read at boot, then one round
  per value of the finalized-head channel. The environment is a step relation: rounds with any head
  and any failures, restarts of the process, and the backfill workers writing to the same database.
\<close>

section \<open>The loop\<close>

text \<open>The numbers of \<^verbatim>\<open>start..=head\<close>.\<close>

definition range_incl :: "u64 \<Rightarrow> u64 \<Rightarrow> u64 list" where
  "range_incl a b = map word_of_nat [unat a..<Suc (unat b)]"

type_synonym env = "u64 \<Rightarrow> attempt \<times> node"

fun live_fill :: "worker \<Rightarrow> env \<Rightarrow> u64 list \<Rightarrow> u64 option \<Rightarrow> store \<Rightarrow> u64 option \<times> store" where
  "live_fill w env [] lst st = (lst, st)"
| "live_fill w env (num # nums) lst st =
     (case live_index_block (fst (env num)) w (snd (env num)) num st of
        (Inl e, st') \<Rightarrow> (lst, st')
      | (Inr _, st') \<Rightarrow> live_fill w env nums (Some num) st')"

definition live_start :: "u64 option \<Rightarrow> u64 \<Rightarrow> u64" where
  "live_start lst head = (case lst of Some x \<Rightarrow> sat_add x 1 | None \<Rightarrow> head)"

definition live_round ::
  "worker \<Rightarrow> env \<Rightarrow> u64 option \<Rightarrow> u64 option \<times> store \<Rightarrow> u64 option \<times> store" where
  "live_round w env head_now s = (case s of (lst, st) \<Rightarrow>
     (case head_now of
        None \<Rightarrow> (lst, st)
      | Some head \<Rightarrow> live_fill w env (range_incl (live_start lst head) head) lst st))"

text \<open>The boot: the caches are empty, the cursor is what the database holds.\<close>

definition live_boot :: "worker \<Rightarrow> db \<Rightarrow> u64 option \<times> store" where
  "live_boot w d = (load_cursor (wk_sid w) live_cursor d, Map.empty, d)"

text \<open>The world of one live worker. The heads of the chain stay below the range of a signed number,
  which the cast to a column of the database needs.\<close>

inductive live_step :: "worker \<Rightarrow> u64 option \<times> store \<Rightarrow> u64 option \<times> store \<Rightarrow> bool" for w where
  round: "(\<forall>h. head_now = Some h \<longrightarrow> unat h < 2 ^ 63) \<Longrightarrow> live_step w s (live_round w env head_now s)"
| restart: "live_step w (lst, cache, d) (live_boot w d)"
| backfill: "backfill_index_block an w nd n st = (r, st') \<Longrightarrow> live_step w (lst, st) (lst, st')"

inductive_cases live_stepE: "live_step w s s'"

section \<open>Lemmas\<close>

lemma unat_nat: "k < 2 ^ 63 \<Longrightarrow> unat (word_of_nat k :: u64) = k"
  by (simp add: unsigned_of_nat take_bit_nat_eq_self)

lemma uint_of_nat: "k < 2 ^ 63 \<Longrightarrow> uint (word_of_nat k :: u64) = int k"
  by (metis uint_nat unat_nat)

lemma sint_nat: "k < 2 ^ 63 \<Longrightarrow> sint (word_of_nat k :: u64) = int k"
  by (simp add: sint_small unat_nat)

text \<open>The cursor column of the live stream.\<close>

definition cursor_of :: "worker \<Rightarrow> db \<Rightarrow> int option" where
  "cursor_of w d = map_option fst (t_cursor d (wk_sid w, live_cursor))"

definition present :: "worker \<Rightarrow> db \<Rightarrow> nat \<Rightarrow> bool" where
  "present w d n \<longleftrightarrow> (wk_sid w, int n) \<in> dom (t_blocks d)"

definition live_inv :: "worker \<Rightarrow> u64 option \<times> store \<Rightarrow> bool" where
  "live_inv w s \<longleftrightarrow> (case s of (lst, cache, d) \<Rightarrow> db_inv d \<and>
     cursor_of w d = map_option uint lst \<and> (\<forall>x. lst = Some x \<longrightarrow> unat x < 2 ^ 63))"

lemma dom_catalogue: "dom (t_blocks d) = dom (cg_blocks (catalogue_of d))"
  by (auto simp: catalogue_of_def)

lemma live_index_block_effect:
  assumes "live_index_block an w nd (word_of_nat n) (cache, d) = (r, cache', d')" and "n < 2 ^ 63"
  shows "(db_inv d \<longrightarrow> db_inv d') \<and> (\<forall>k. present w d k \<longrightarrow> present w d' k) \<and>
    (if r = Inr () then present w d' n \<and>
        cursor_of w d' = Some (case cursor_of w d of None \<Rightarrow> int n | Some c \<Rightarrow> max c (int n))
     else cursor_of w d' = cursor_of w d) \<and>
    (\<forall>k. k \<noteq> n \<longrightarrow> present w d' k = present w d k)"
  using assms(1)
proof (cases rule: live_index_block_cases)
  case (failed e)
  then show ?thesis
    by (auto simp: same_but_authors_def present_def cursor_of_def db_inv_def)
next
  case (indexed p a d0 d1)
  have "catalogue_of d' = deliver (wk_sid w) (word_of_nat n, p) (catalogue_of d)"
    using bump_cursor_catalogue [OF indexed(5)] write_block_deliver [OF indexed(4)]
      same_but_authors_catalogue [OF indexed(3)] by simp
  then have "cg_blocks (catalogue_of d') = block_rows (wk_sid w) p ++ cg_blocks (catalogue_of d)"
    by (simp add: deliver_def)
  then have "dom (t_blocks d') = dom (block_rows (wk_sid w) p) \<union> dom (t_blocks d)"
    using dom_catalogue [of d] dom_catalogue [of d'] by (simp add: Un_commute)
  moreover have "dom (block_rows (wk_sid w) p) = {(wk_sid w, int n)}"
    using prepare_block_num [OF indexed(2)] assms(2) by (simp add: block_rows_def sint_nat)
  moreover have "db_step d d1"
    using db_step_trans [OF same_but_authors_step [OF indexed(3)]] write_block_step [OF indexed(4)] by blast
  moreover have "t_cursor d1 = t_cursor d" using calculation(3) by (simp add: db_step_def)
  ultimately show ?thesis
    using bump_cursor_Inr [OF indexed(5)] indexed(1) assms(2)
    by (auto simp: present_def cursor_of_def db_step_def sint_nat split: option.splits)
qed


text \<open>A fill over consecutive numbers from \<^verbatim>\<open>i\<close>: it stops at some \<^verbatim>\<open>k\<close>, everything before is indexed.\<close>

definition filled :: "worker \<Rightarrow> nat \<Rightarrow> nat \<Rightarrow> u64 option \<times> store \<Rightarrow> u64 option \<times> store \<Rightarrow> bool" where
  "filled w i k s s' \<longleftrightarrow> i \<le> k \<and> (\<forall>n. i \<le> n \<and> n < k \<longrightarrow> present w (snd (snd s')) n) \<and>
     (\<forall>n. present w (snd (snd s)) n \<longrightarrow> present w (snd (snd s')) n) \<and>
     fst s' = (if k = i then fst s else Some (word_of_nat (k - 1)))"

definition fails_at :: "worker \<Rightarrow> env \<Rightarrow> nat \<Rightarrow> store \<Rightarrow> bool" where
  "fails_at w env k st' \<longleftrightarrow> (\<exists>st e. live_index_block (fst (env (word_of_nat k))) w (snd (env (word_of_nat k)))
     (word_of_nat k) st = (Inl e, st'))"

lemma live_fill_spec:
  assumes "live_fill w env (map word_of_nat [i..<j]) lst st = s'" and "j \<le> 2 ^ 63"
    and "live_inv w (lst, st)" and "\<forall>x. lst = Some x \<longrightarrow> unat x < i"
  shows "live_inv w s' \<and> (\<exists>k. filled w i k (lst, st) s' \<and> k \<le> max i j \<and>
    (k < j \<longrightarrow> fails_at w env k (snd s')))"
  using assms
proof (induction "j - i" arbitrary: i lst st)
  case 0
  then show ?case by (auto simp: filled_def intro: exI [of _ i])
next
  case (Suc m)
  then have ij: "i < j" "i < 2 ^ 63" by simp_all
  obtain cache d where st: "st = (cache, d)" by (cases st)
  obtain r cache' d' where
    b: "live_index_block (fst (env (word_of_nat i))) w (snd (env (word_of_nat i))) (word_of_nat i) (cache, d) =
      (r, cache', d')" by (metis prod_cases3)
  note eff = live_index_block_effect [OF b ij(2)]
  have s': "s' = (case r of Inl e \<Rightarrow> (lst, cache', d')
      | Inr _ \<Rightarrow> live_fill w env (map word_of_nat [Suc i..<j]) (Some (word_of_nat i)) (cache', d'))"
    using Suc.prems(1) b st by (simp add: upt_conv_Cons [OF ij(1)] split: sum.splits)
  show ?case
  proof (cases r)
    case (Inl e)
    then have "live_inv w s'" using eff Suc.prems(3) s' st by (simp add: live_inv_def)
    moreover have "filled w i i (lst, st) s'" using Inl eff s' st by (auto simp: filled_def)
    moreover have "fails_at w env i (snd s')" using b Inl s' by (auto simp: fails_at_def)
    ultimately show ?thesis using ij by (metis max.cobounded1)
  next
    case (Inr u)
    have below: "uint x < int i" if "lst = Some x" for x
    proof -
      have "int (unat x) < int i" using Suc.prems(4) that by (simp only: of_nat_less_iff)
      then show ?thesis by simp
    qed
    have c: "cursor_of w d' = Some (int i)"
      using eff Inr Suc.prems(3) st by (cases lst) (auto simp: live_inv_def max_def dest!: below)
    have inv: "live_inv w (Some (word_of_nat i), cache', d')"
      using eff Suc.prems(3) st c ij(2) unat_nat [of i] uint_of_nat [of i] by (simp add: live_inv_def)
    have "live_fill w env (map word_of_nat [Suc i..<j]) (Some (word_of_nat i)) (cache', d') = s'"
      using s' Inr by simp
    moreover have "m = j - Suc i" using Suc.hyps(2) by simp
    ultimately obtain k where k: "live_inv w s'" "filled w (Suc i) k (Some (word_of_nat i), cache', d') s'"
      "k \<le> max (Suc i) j" "k < j \<longrightarrow> fails_at w env k (snd s')"
      using Suc.hyps(1) [OF _ _ Suc.prems(2) inv] ij(2) by (auto simp: unat_nat)
    have "filled w i k (lst, st) s'"
      using k(2) eff Inr st unfolding filled_def
      by (auto simp: le_eq_less_or_eq [of i])
    then show ?thesis using k(1,3,4) ij(1) by auto
  qed
qed


lemma live_round_Some:
  assumes "unat x < 2 ^ 63"
  shows "live_round w env (Some h) (Some x, st) =
    live_fill w env (map word_of_nat [Suc (unat x)..<Suc (unat h)]) (Some x) st"
proof -
  have "unat (sat_add x 1) = Suc (unat x)" using assms by (simp add: unat_sat_add)
  then show ?thesis by (simp add: live_round_def live_start_def range_incl_def)
qed

lemma live_round_fresh:
  "live_round w env (Some h) (None, st) = live_fill w env (map word_of_nat [unat h..<Suc (unat h)]) None st"
  by (simp add: live_round_def live_start_def range_incl_def)

text \<open>From a cursor at \<^verbatim>\<open>x\<close>: the worker is at some later \<^verbatim>\<open>y\<close> and nothing between is missing.\<close>

definition covers :: "worker \<Rightarrow> u64 \<Rightarrow> u64 option \<times> store \<Rightarrow> bool" where
  "covers w x s \<longleftrightarrow> (\<exists>y. fst s = Some y \<and> x \<le> y \<and>
     (\<forall>n. unat x < n \<and> n \<le> unat y \<longrightarrow> present w (snd (snd s)) n))"

lemma covers_refl: "covers w x (Some x, st)"
  by (auto simp: covers_def)

lemma live_round_inv:
  assumes "live_inv w s" and "\<forall>h. head_now = Some h \<longrightarrow> unat h < 2 ^ 63"
  shows "live_inv w (live_round w env head_now s)"
proof -
  obtain lst st where s: "s = (lst, st)" by (cases s)
  show ?thesis
  proof (cases head_now)
    case None
    then show ?thesis using assms(1) s by (simp add: live_round_def)
  next
    case h: (Some h)
    show ?thesis
    proof (cases lst)
      case None
      then show ?thesis
        using live_fill_spec [OF refl, of "Suc (unat h)" w None st "unat h" env] assms h s
        by (simp add: live_round_fresh)
    next
      case (Some x)
      then have "unat x < 2 ^ 63" using assms(1) s by (cases st) (simp add: live_inv_def)
      from live_round_Some [OF this, of w env h st] show ?thesis
        using live_fill_spec [OF refl, of "Suc (unat h)" w "Some x" st "Suc (unat x)" env] assms h s Some
        by simp
    qed
  qed
qed

lemma live_round_covers:
  assumes "live_inv w s" and "covers w x s" and "\<forall>h. head_now = Some h \<longrightarrow> unat h < 2 ^ 63"
  shows "covers w x (live_round w env head_now s)"
proof (cases head_now)
  case None
  then show ?thesis using assms(2) by (cases s) (simp add: live_round_def)
next
  case h: (Some h)
  obtain y st where s: "s = (Some y, st)" using assms(2) by (cases s) (auto simp: covers_def)
  have y: "unat y < 2 ^ 63" using assms(1) s by (cases st) (simp add: live_inv_def)
  let ?s' = "live_round w env head_now s"
  obtain k where f: "filled w (Suc (unat y)) k (Some y, st) ?s'" and k: "k \<le> max (Suc (unat y)) (Suc (unat h))"
    using live_fill_spec [OF refl, of "Suc (unat h)" w "Some y" st "Suc (unat y)" env] assms(1,3) h s
    by (auto simp: live_round_Some [OF y])
  from f obtain m where m: "k = Suc m" by (cases k) (auto simp: filled_def)
  have "m < 2 ^ 63" using k y assms(3) h m by (auto simp: max_def split: if_splits)
  note mm = unat_nat [OF this]
  have last: "fst ?s' = Some (word_of_nat m)" using f m by (auto simp: filled_def split: if_splits)
  have "unat y \<le> m" using f m by (simp add: filled_def)
  moreover have "present w (snd (snd ?s')) n" if "unat x < n" "n \<le> m" for n
  proof (cases "n \<le> unat y")
    case True
    then show ?thesis using assms(2) s f that(1) by (auto simp: covers_def filled_def)
  next
    case False
    then show ?thesis using f that(2) m by (auto simp: filled_def)
  qed
  ultimately show ?thesis
    using last mm assms(2) s by (auto simp: covers_def word_le_nat_alt)
qed

lemma backfill_present:
  assumes "backfill_index_block an w' nd n (cache, d) = (r, cache', d')"
  shows "(db_inv d \<longrightarrow> db_inv d') \<and> cursor_of w d' = cursor_of w d \<and> (present w d k \<longrightarrow> present w d' k)"
  using conjunct1 [OF backfill_index_block_step [OF assms]]
  by (auto simp: db_step_def cursor_of_def present_def dest: map_le_implies_dom_le)

lemma load_cursor_live:
  "live_inv w (lst, cache, d) \<Longrightarrow> load_cursor (wk_sid w) live_cursor d = lst"
  by (cases lst) (auto simp: live_inv_def load_cursor_def cursor_of_def)

lemma live_step_inv: "live_step w s s' \<Longrightarrow> live_inv w s \<Longrightarrow> live_inv w s'"
proof (induction rule: live_step.induct)
  case (round head_now s env)
  then show ?case by (rule live_round_inv [rotated])
next
  case (restart lst cache d)
  then show ?case by (simp add: load_cursor_live live_boot_def) (simp add: live_inv_def)
next
  case (backfill an nd n st r st' lst)
  then show ?case using backfill_present by (cases st; cases st') (fastforce simp: live_inv_def)
qed

lemma live_step_covers: "live_step w s s' \<Longrightarrow> live_inv w s \<Longrightarrow> covers w x s \<Longrightarrow> covers w x s'"
proof (induction rule: live_step.induct)
  case (round head_now s env)
  then show ?case by (intro live_round_covers)
next
  case (restart lst cache d)
  then show ?case by (simp add: load_cursor_live live_boot_def covers_def)
next
  case (backfill an nd n st r st' lst)
  then show ?case using backfill_present by (cases st; cases st') (fastforce simp: covers_def)
qed

lemma live_steps:
  "(live_step w)\<^sup>*\<^sup>* s s' \<Longrightarrow> live_inv w s \<Longrightarrow> live_inv w s' \<and> (covers w x s \<longrightarrow> covers w x s')"
  by (induction rule: rtranclp_induct) (use live_step_inv live_step_covers in blast)+

section \<open>Properties\<close>


text \<open>C24: Catching up. A round on a head at or past the cursor ends with the cursor at the head, or
  with the cursor at the block just before one whose attempt failed; nothing before the new cursor
  is missing, and the next round starts at the block that failed.\<close>

theorem live_round_catches_up:
  assumes "live_inv w (Some x, st)" and "x \<le> h" and "unat h < 2 ^ 63"
    and "live_round w env (Some h) (Some x, st) = (lst, st')"
  shows "\<exists>y. lst = Some y \<and> x \<le> y \<and> y \<le> h \<and>
    (\<forall>n. unat x < n \<and> n \<le> unat y \<longrightarrow> present w (snd st') n) \<and>
    (y = h \<or> (\<exists>st0 e. live_index_block (fst (env (y + 1))) w (snd (env (y + 1))) (y + 1) st0 = (Inl e, st')))"
proof -
  have xh: "unat x \<le> unat h" using assms(2) by (simp add: word_le_nat_alt)
  then have x: "unat x < 2 ^ 63" using assms(3) by simp
  obtain k where f: "filled w (Suc (unat x)) k (Some x, st) (lst, st')" and k: "k \<le> max (Suc (unat x)) (Suc (unat h))"
    and e: "k < Suc (unat h) \<longrightarrow> fails_at w env k st'"
    using live_fill_spec [OF live_round_Some [OF x, of w env h st, symmetric, unfolded assms(4)] _ assms(1)] assms(3)
    by auto
  from f obtain m where m: "k = Suc m" by (cases k) (auto simp: filled_def)
  have "m \<le> unat h" using k m xh by (auto simp: max_def split: if_splits)
  then have mm: "unat (word_of_nat m :: u64) = m" using unat_nat [of m] assms(3) by simp
  have "unat x \<le> m" using f m by (simp add: filled_def)
  moreover have "lst = Some (word_of_nat m)" using f m by (auto simp: filled_def split: if_splits)
  moreover have "word_of_nat m = h \<or> (\<exists>st0 e. live_index_block (fst (env (word_of_nat m + 1))) w
      (snd (env (word_of_nat m + 1))) (word_of_nat m + 1) st0 = (Inl e, st'))"
  proof (cases "m = unat h")
    case False
    then show ?thesis using e m \<open>m \<le> unat h\<close> by (auto simp: fails_at_def add.commute)
  qed simp
  ultimately show ?thesis using f m mm \<open>m \<le> unat h\<close>
    by (intro exI [of _ "word_of_nat m"]) (auto simp: word_le_nat_alt filled_def)
qed

text \<open>C33: On a fresh database a first head that fails is not retried. The round on head h fails, the
  next round on h' starts at h' itself: it writes no block but h', so a block between h and h' is
  not indexed, and by the continuity of the cursor no later round goes back to it.\<close>

theorem live_fresh_failure_skips:
  assumes "live_inv w (None, st)" and "live_round w env (Some h) (None, st) = (None, st1)"
    and "unat h < 2 ^ 63" and "unat h' < 2 ^ 63" and "n \<noteq> unat h'" and "\<not> present w (snd st1) n"
  shows "\<not> present w (snd (snd (live_round w env' (Some h') (None, st1)))) n \<and>
    fst (live_round w env' (Some h') (None, st1)) \<in> {None, Some h'}"
proof -
  obtain cache d where st1: "st1 = (cache, d)" by (cases st1)
  obtain r cache' d' where b: "live_index_block (fst (env' h')) w (snd (env' h')) h' (cache, d) = (r, cache', d')"
    by (metis prod_cases3)
  then have "live_index_block (fst (env' h')) w (snd (env' h')) (word_of_nat (unat h')) (cache, d) = (r, cache', d')"
    by simp
  from live_index_block_effect [OF this assms(4)] assms(5,6) st1 have "\<not> present w d' n" by simp
  then show ?thesis using b st1 by (cases r) (simp_all add: live_round_fresh)
qed

section \<open>Witnesses\<close>

text \<open>A database with the cursor at block 4, and an environment that serves the example block.\<close>

definition example_cursor_db :: db where
  "example_cursor_db = empty_db\<lparr> t_cursor := [(1, live_cursor) \<mapsto> (4, 0)] \<rparr>"

definition example_env :: env where
  "example_env = (\<lambda>_. (example_attempt, example_node))"

lemma example_live_inv:
  "live_inv example_worker (Some 4, Map.empty, example_cursor_db)"
  "live_inv example_worker (None, Map.empty, empty_db)"
  by (simp_all add: live_inv_def example_cursor_db_def empty_db_def db_inv_def cursor_of_def example_worker_def)


lemma live_round_catches_up_witness:
  "\<exists>lst st'. live_round example_worker example_env (Some 5) (Some 4, Map.empty, example_cursor_db) = (lst, st') \<and>
     (\<exists>y. lst = Some y \<and> 4 \<le> y \<and> y \<le> 5)"
proof -
  obtain lst st' where
    r: "live_round example_worker example_env (Some 5) (Some 4, Map.empty, example_cursor_db) = (lst, st')"
    by (metis prod.exhaust)
  from live_round_catches_up [OF example_live_inv(1) _ _ this] r show ?thesis by auto
qed

lemma live_fresh_failure_skips_witness:
  "\<exists>st1. live_round example_worker (\<lambda>_. (example_attempt, example_node\<lparr> nd_subxt := Inl (Transport ''down'') \<rparr>))
      (Some 3) (None, Map.empty, empty_db) = (None, st1) \<and>
    \<not> present example_worker (snd (snd (live_round example_worker example_env (Some 5) (None, st1)))) 4"
proof -
  have r: "live_round example_worker (\<lambda>_. (example_attempt, example_node\<lparr> nd_subxt := Inl (Transport ''down'') \<rparr>))
      (Some 3) (None, Map.empty, empty_db) = (None, Map.empty, empty_db)"
    by (simp add: live_round_fresh live_index_block_def prepare_block_def)
  have "\<not> present example_worker (snd (Map.empty, empty_db)) 4"
    by (simp add: present_def empty_db_def)
  from live_fresh_failure_skips [OF example_live_inv(2) r _ _ _ this, of 5 example_env] r
  show ?thesis by auto
qed

end
