(* ===== verification/Backfill.thy ===== *)
theory Backfill
  imports LiveWorker
begin

text \<open>
  The backfill: \<^verbatim>\<open>src/indexer/backfill.rs\<close>. The partition of the missing blocks into chunks, the
  chunk table as a work queue with leases, the worker loop, and the supervisor's seed. Workers run
  concurrently; every database operation is one transaction or one statement, so an execution is an
  interleaving of the steps of the workers, the clock and the live worker.
\<close>

section \<open>Constants\<close>

definition default_chunk_size :: u64 where "default_chunk_size = 1000"
definition lease_duration :: int where "lease_duration = 5 * 60"
definition default_concurrency :: nat where "default_concurrency = 4"
definition last_error_cap :: nat where "last_error_cap = 2048"

section \<open>The partition\<close>

lemma unat_succ: "a < b \<Longrightarrow> unat (a + 1) = Suc (unat a)" for a b :: u64
proof -
  assume "a < b"
  then have "unat a < unat b" by (simp add: word_less_nat_alt)
  moreover have "unat b < 2 ^ 64" using unsigned_less [of b, where 'a = nat] by simp
  ultimately have "Suc (unat a) < 2 ^ 64" by linarith
  then show ?thesis by (simp add: unat_word_ariths)
qed

text \<open>The loop of \<^verbatim>\<open>push_chunked\<close>: the slices of one gap. With a chunk size of zero the width
  wraps to the greatest number in a release build; the caller never passes zero.\<close>

function push_chunked :: "(u64 \<times> u64) list \<Rightarrow> u64 \<Rightarrow> u64 \<Rightarrow> u64 \<Rightarrow> (u64 \<times> u64) list" where
  "push_chunked out f to chunk_size =
     (let end' = min (sat_add f (chunk_size - 1)) to;
          out' = out @ [(f, end')]
      in if end' = to then out' else push_chunked out' (end' + 1) to chunk_size)"
  by auto
termination
proof (relation "measure (\<lambda>(out, f, to, c). unat to - unat f)")
  fix out out' :: "(u64 \<times> u64) list" and f to chunk_size end' :: u64
  assume e: "end' = min (sat_add f (chunk_size - 1)) to" "end' \<noteq> to"
  then have "end' < to" by (simp add: min_def split: if_splits)
  then have s: "unat (end' + 1) = Suc (unat end')" "unat end' < unat to"
    using unat_succ [of end' to] by (simp_all add: word_less_nat_alt)
  have "unat f \<le> unat (sat_add f (chunk_size - 1))"
    using unsigned_less [of f, where 'a = nat] by (simp add: unat_sat_add)
  then have "unat f \<le> unat end'" using e by (simp add: min_def split: if_splits)
  then show "((out', end' + 1, to, chunk_size), out, f, to, chunk_size)
      \<in> measure (\<lambda>(out, f, to, c). unat to - unat f)"
    using s by simp
qed simp

declare push_chunked.simps [simp del]

fun split_gaps_loop ::
  "u64 \<Rightarrow> u64 \<Rightarrow> u64 list \<Rightarrow> (u64 \<times> u64) list \<Rightarrow> u64 \<Rightarrow> (u64 \<times> u64) list \<times> u64" where
  "split_gaps_loop head chunk_size [] out cursor = (out, cursor)"
| "split_gaps_loop head chunk_size (p # ps) out cursor =
     (if p > head \<or> p < cursor then split_gaps_loop head chunk_size ps out cursor
      else split_gaps_loop head chunk_size ps
        (if p > cursor then push_chunked out cursor (p - 1) chunk_size else out)
        (sat_add p 1))"

text \<open>\<^verbatim>\<open>None\<close> is the panic on a zero chunk size.\<close>

definition split_gaps_into_chunks :: "u64 \<Rightarrow> u64 list \<Rightarrow> u64 \<Rightarrow> (u64 \<times> u64) list option" where
  "split_gaps_into_chunks head existing_sorted chunk_size =
     (if chunk_size = 0 then None
      else (case split_gaps_loop head chunk_size existing_sorted [] 0 of (out, cursor) \<Rightarrow>
        Some (if cursor \<le> head then push_chunked out cursor head chunk_size else out)))"

section \<open>The queue\<close>

record seed_faults =
  sf_load :: "string option"
  sf_begin :: "string option"
  sf_insert :: "u64 \<times> u64 \<Rightarrow> string option"
  sf_commit :: "string option"

text \<open>The stored numbers up to the head, in order; a stored number is one of the range below the
  head's signed value, which is the head itself below two to the power 63.\<close>

definition existing_blocks :: "int \<Rightarrow> u64 \<Rightarrow> db \<Rightarrow> u64 list" where
  "existing_blocks sid head d = filter (\<lambda>n. t_blocks d (sid, sint n) \<noteq> None) (range_incl 0 head)"

definition chunk_exists :: "int \<Rightarrow> int \<Rightarrow> int \<Rightarrow> db \<Rightarrow> bool" where
  "chunk_exists sid from to d \<longleftrightarrow>
     (\<exists>c\<in>set (t_chunks d). kc_network c = sid \<and> kc_from c = from \<and> kc_to c = to)"

definition seed_err :: "int \<Rightarrow> string \<Rightarrow> data_error" where
  "seed_err sid e = Rpc (''seed_chunks(net='' @ show_int sid @ ''): '' @ e)"

text \<open>The identity column advances on a conflict too.\<close>

fun seed_insert :: "seed_faults \<Rightarrow> int \<Rightarrow> (u64 \<times> u64) list \<Rightarrow> nat \<Rightarrow> db \<Rightarrow> (nat \<times> db) data_result" where
  "seed_insert sf sid [] inserted d = Inr (inserted, d)"
| "seed_insert sf sid ((from, to) # rs) inserted d =
     (case sf_insert sf (from, to) of
        Some e \<Rightarrow> Inl (seed_err sid (''insert ('' @ show_word from @ '','' @ show_word to @ ''): '' @ e))
      | None \<Rightarrow>
          (let d1 = d\<lparr> t_next_chunk := t_next_chunk d + 1 \<rparr> in
           if chunk_exists sid (sint from) (sint to) d then seed_insert sf sid rs inserted d1
           else seed_insert sf sid rs (inserted + 1)
             (d1\<lparr> t_chunks := t_chunks d @ [\<lparr> kc_id = t_next_chunk d, kc_network = sid,
                kc_from = sint from, kc_to = sint to, kc_status = Pending, kc_lease_until = None,
                kc_last_error = None \<rparr>] \<rparr>)))"

definition seed_chunks :: "seed_faults \<Rightarrow> int \<Rightarrow> u64 \<Rightarrow> u64 \<Rightarrow> db \<Rightarrow> (nat data_result \<times> db) option" where
  "seed_chunks sf sid head chunk_size d =
     (case sf_load sf of
        Some e \<Rightarrow> Some (Inl (seed_err sid (''load existing blocks: '' @ e)), d)
      | None \<Rightarrow>
          (case split_gaps_into_chunks head (existing_blocks sid head d) chunk_size of
             None \<Rightarrow> None
           | Some gaps \<Rightarrow>
               Some (case sf_begin sf of
                 Some e \<Rightarrow> (Inl (seed_err sid (''begin tx: '' @ e)), d)
               | None \<Rightarrow>
                   (case seed_insert sf sid gaps 0 d of
                      Inl e \<Rightarrow> (Inl e, d)
                    | Inr (inserted, d') \<Rightarrow>
                        (case sf_commit sf of
                           Some e \<Rightarrow> (Inl (seed_err sid (''commit: '' @ e)), d)
                         | None \<Rightarrow> (Inr inserted, d'))))))"

record claimed_chunk =
  cl_id :: int
  cl_from_block :: u64
  cl_to_block :: u64

definition claimable :: "int \<Rightarrow> int \<Rightarrow> chunk_db \<Rightarrow> bool" where
  "claimable sid now c \<longleftrightarrow> kc_network c = sid \<and>
     (kc_status c = Pending \<or> (kc_status c = Running \<and>
       (case kc_lease_until c of None \<Rightarrow> True | Some l \<Rightarrow> l < now)))"

definition update_chunk :: "int \<Rightarrow> (chunk_db \<Rightarrow> chunk_db) \<Rightarrow> db \<Rightarrow> db" where
  "update_chunk i f d = d\<lparr> t_chunks := map (\<lambda>c. if kc_id c = i then f c else c) (t_chunks d) \<rparr>"

text \<open>The first claimable chunk by id. The row lock and \<^verbatim>\<open>SKIP LOCKED\<close> make the statement atomic
  with respect to the other claims.\<close>

definition claim_chunk :: "string option \<Rightarrow> int \<Rightarrow> int \<Rightarrow> db \<Rightarrow> (claimed_chunk option \<times> db) data_result" where
  "claim_chunk flt sid now d =
     (case flt of
        Some e \<Rightarrow> Inl (Rpc (''claim_chunk(net='' @ show_int sid @ ''): '' @ e))
      | None \<Rightarrow> Inr (case sort_key kc_id (filter (claimable sid now) (t_chunks d)) of
            [] \<Rightarrow> (None, d)
          | c # _ \<Rightarrow> (Some \<lparr> cl_id = kc_id c, cl_from_block = word_of_int (kc_from c),
                cl_to_block = word_of_int (kc_to c) \<rparr>,
              update_chunk (kc_id c) (\<lambda>c. c\<lparr> kc_status := Running,
                kc_lease_until := Some (now + lease_duration) \<rparr>) d)))"

definition mark_chunk_done :: "string option \<Rightarrow> int \<Rightarrow> db \<Rightarrow> db data_result" where
  "mark_chunk_done flt i d =
     (case flt of
        Some e \<Rightarrow> Inl (Rpc (''mark_chunk_done('' @ show_int i @ ''): '' @ e))
      | None \<Rightarrow> Inr (update_chunk i (\<lambda>c. c\<lparr> kc_status := Done, kc_lease_until := None,
          kc_last_error := None \<rparr>) d))"

text \<open>The prefix of at most \<^verbatim>\<open>n\<close> bytes that ends at a character boundary.\<close>

fun char_boundary :: "string \<Rightarrow> nat \<Rightarrow> nat" where
  "char_boundary s 0 = 0"
| "char_boundary s (Suc n) = (if Suc n < length s \<and> is_cont (s ! Suc n) then char_boundary s n else Suc n)"

definition truncate_error :: "string \<Rightarrow> string" where
  "truncate_error s = (if length s \<le> last_error_cap then s
     else take (char_boundary s last_error_cap) s @ ellipsis)"

definition mark_chunk_failed :: "string option \<Rightarrow> int \<Rightarrow> string \<Rightarrow> db \<Rightarrow> db data_result" where
  "mark_chunk_failed flt i err d =
     (case flt of
        Some e \<Rightarrow> Inl (Rpc (''mark_chunk_failed('' @ show_int i @ ''): '' @ e))
      | None \<Rightarrow> Inr (update_chunk i (\<lambda>c. c\<lparr> kc_status := Pending, kc_lease_until := None,
          kc_last_error := Some (truncate_error err) \<rparr>) d))"

definition open_chunk_count :: "string option \<Rightarrow> int \<Rightarrow> db \<Rightarrow> nat data_result" where
  "open_chunk_count flt sid d =
     (case flt of
        Some e \<Rightarrow> Inl (Rpc (''open_chunk_count(net='' @ show_int sid @ ''): '' @ e))
      | None \<Rightarrow> Inr (length (filter (\<lambda>c. kc_network c = sid \<and> kc_status c \<in> {Pending, Running}) (t_chunks d))))"


section \<open>The worker\<close>

text \<open>\<^verbatim>\<open>Display\<close> of the error type.\<close>

fun show_data_error :: "data_error \<Rightarrow> string" where
  "show_data_error (Transport e) = ''transport error: '' @ e"
| "show_data_error (Rpc e) = ''rpc error: '' @ e"
| "show_data_error (Decode e) = ''decode error: '' @ e"
| "show_data_error (InvalidPayload e) = ''invalid payload: '' @ e"
| "show_data_error (BadRequest e) = ''bad request: '' @ e"
| "show_data_error (NetworkUnconfigured e) =
     ''no rpc endpoint configured for network '' @ [CHR 0x27] @ e @ [CHR 0x27]"
| "show_data_error (Unimplemented e) = ''unimplemented: '' @ e"
| "show_data_error (NotSupported network what) =
     ''not supported on network '' @ [CHR 0x27] @ network @ [CHR 0x27] @ '': '' @ what"

text \<open>Where a worker is in its loop: before a claim, in the loop over the blocks of its chunk with the
  numbers still to do, before the release of a failed chunk, or out of the loop after an error of
  the queue. One step is one database operation.\<close>

datatype phase = Idle | Working claimed_chunk "u64 list" | Failing claimed_chunk data_error | Exited

record work_env =
  we_now :: int
  we_claim_fault :: "string option"
  we_mark_fault :: "string option"
  we_attempt :: attempt
  we_node :: node

fun backfill_step :: "worker \<Rightarrow> work_env \<Rightarrow> phase \<Rightarrow> store \<Rightarrow> phase \<times> store" where
  "backfill_step w env Idle (cache, d) =
     (case claim_chunk (we_claim_fault env) (wk_sid w) (we_now env) d of
        Inl e \<Rightarrow> (Exited, cache, d)
      | Inr (None, d') \<Rightarrow> (Idle, cache, d')
      | Inr (Some c, d') \<Rightarrow> (Working c (range_incl (cl_from_block c) (cl_to_block c)), cache, d'))"
| "backfill_step w env (Working c (num # nums)) st =
     (case backfill_index_block (we_attempt env) w (we_node env) num st of
        (Inl e, st') \<Rightarrow> (Failing c e, st')
      | (Inr _, st') \<Rightarrow> (Working c nums, st'))"
| "backfill_step w env (Working c []) (cache, d) =
     (case mark_chunk_done (we_mark_fault env) (cl_id c) d of
        Inl e \<Rightarrow> (Exited, cache, d)
      | Inr d' \<Rightarrow> (Idle, cache, d'))"
| "backfill_step w env (Failing c e) (cache, d) =
     (case mark_chunk_failed (we_mark_fault env) (cl_id c) (show_data_error e) d of
        Inl e' \<Rightarrow> (Exited, cache, d)
      | Inr d' \<Rightarrow> (Idle, cache, d'))"
| "backfill_step w env Exited st = (Exited, st)"

text \<open>The system: any number of workers, of any networks, each with its phase; the live workers, the
  seed tasks and restarts of the process.\<close>

inductive sys_step :: "(nat \<Rightarrow> worker) \<Rightarrow> (nat \<Rightarrow> phase) \<times> store \<Rightarrow> (nat \<Rightarrow> phase) \<times> store \<Rightarrow> bool" for ws where
  work: "backfill_step (ws i) env (ph i) st = (p, st') \<Longrightarrow> sys_step ws (ph, st) (ph(i := p), st')"
| live: "live_index_block an w nd n st = (r, st') \<Longrightarrow> sys_step ws (ph, st) (ph, st')"
| seed: "seed_chunks sf sid head cs d = Some (r, d') \<Longrightarrow> unat head < 2 ^ 63 \<Longrightarrow>
    sys_step ws (ph, cache, d) (ph, cache, d')"
| restart: "sys_step ws (ph, cache, d) (\<lambda>_. Idle, Map.empty, d)"

inductive_cases sys_stepE: "sys_step ws s s'"

section \<open>The partition is exact\<close>

definition spans :: "(u64 \<times> u64) list \<Rightarrow> nat set" where
  "spans rs = (\<Union>(a, b)\<in>set rs. {unat a..unat b})"

text \<open>Ascending, non-overlapping ranges within \<^verbatim>\<open>lo..<hi\<close>, none wider than the chunk size.\<close>

fun slices :: "nat \<Rightarrow> u64 \<Rightarrow> (u64 \<times> u64) list \<Rightarrow> nat \<Rightarrow> bool" where
  "slices lo cs [] hi \<longleftrightarrow> lo \<le> hi"
| "slices lo cs ((a, b) # rs) hi \<longleftrightarrow>
     lo \<le> unat a \<and> unat a \<le> unat b \<and> unat b - unat a < unat cs \<and> slices (Suc (unat b)) cs rs hi"

lemma spans_simps [simp]:
  "spans [] = {}" "spans ((a, b) # rs) = {unat a..unat b} \<union> spans rs" "spans (xs @ ys) = spans xs \<union> spans ys"
  by (auto simp: spans_def)

lemma slices_le: "slices lo cs rs hi \<Longrightarrow> lo \<le> hi"
  by (induction lo cs rs hi rule: slices.induct) auto

lemma slices_lo: "slices lo cs rs hi \<Longrightarrow> lo' \<le> lo \<Longrightarrow> slices lo' cs rs hi"
  by (cases rs) auto

lemma slices_append: "slices lo cs xs m \<Longrightarrow> slices m cs ys hi \<Longrightarrow> slices lo cs (xs @ ys) hi"
  by (induction xs arbitrary: lo) (auto intro: slices_lo)

lemma slices_mem: "slices lo cs rs hi \<Longrightarrow> (a, b) \<in> set rs \<Longrightarrow> unat a \<le> unat b"
  by (induction lo cs rs hi rule: slices.induct) auto

lemma unat_pred: "c < p \<Longrightarrow> unat (p - 1) = unat p - 1" for c p :: u64
  using unat_sub [of 1 p] by (simp add: word_le_nat_alt word_less_nat_alt)

lemma push_chunked_spec:
  "f \<le> to \<Longrightarrow> cs \<noteq> 0 \<Longrightarrow> \<exists>rs. push_chunked out f to cs = out @ rs \<and>
     slices (unat f) cs rs (Suc (unat to)) \<and> spans rs = {unat f..unat to}"
proof (induction out f to cs rule: push_chunked.induct)
  case (1 out f to cs)
  define e where "e = min (sat_add f (cs - 1)) to"
  have cs: "unat (cs - 1) = unat cs - 1" "0 < unat cs"
    using "1.prems"(2) by (simp_all add: unat_minus_one unat_gt_0)
  have e: "f \<le> e" "e \<le> to" "unat e - unat f < unat cs"
    using "1.prems"(1) cs unsigned_less [of f, where 'a = nat]
    by (auto simp: e_def word_le_nat_alt min_def unat_sat_add split: if_splits)
  show ?case
  proof (cases "e = to")
    case True
    then show ?thesis using e
      by (subst push_chunked.simps) (auto simp: Let_def word_le_nat_alt simp flip: e_def)
  next
    case False
    with e(2) have lt: "e < to" by simp
    note s = unat_succ [OF lt]
    have "e + 1 \<le> to" using lt s by (simp add: word_le_nat_alt word_less_nat_alt)
    from "1.IH" [OF e_def refl, folded e_def, OF False this "1.prems"(2)] obtain rs where
      rs: "push_chunked (out @ [(f, e)]) (e + 1) to cs = (out @ [(f, e)]) @ rs"
      "slices (unat (e + 1)) cs rs (Suc (unat to))" "spans rs = {unat (e + 1)..unat to}" by auto
    have "push_chunked out f to cs = out @ (f, e) # rs"
      using rs(1) False by (subst push_chunked.simps) (simp add: Let_def flip: e_def)
    moreover have "{unat f..unat e} \<union> {Suc (unat e)..unat to} = {unat f..unat to}"
      using e lt by (auto simp: word_le_nat_alt word_less_nat_alt)
    ultimately show ?thesis using rs(2,3) s e
      by (intro exI [of _ "(f, e) # rs"]) (simp add: word_le_nat_alt)
  qed
qed

lemma split_gaps_loop_spec:
  assumes "split_gaps_loop head cs ps out c = (out', c')" and "cs \<noteq> 0" and "unat head < 2 ^ 64 - 1"
    and "sorted (map unat ps)" and "slices 0 cs out (unat c)" and "unat c \<le> Suc (unat head)"
  shows "slices 0 cs out' (unat c') \<and> unat c \<le> unat c' \<and> unat c' \<le> Suc (unat head) \<and>
    spans out' = spans out \<union> ({unat c..<unat c'} - unat ` set ps) \<and>
    (\<forall>p\<in>set ps. c \<le> p \<and> p \<le> head \<longrightarrow> p < c')"
  using assms
proof (induction ps arbitrary: out c)
  case (Cons p ps)
  show ?case
  proof (cases "p > head \<or> p < c")
    case True
    then have "split_gaps_loop head cs ps out c = (out', c')" using Cons.prems(1) by simp
    from Cons.IH [OF this Cons.prems(2,3) _ Cons.prems(5,6)] Cons.prems(4)
    have IH: "slices 0 cs out' (unat c') \<and> unat c \<le> unat c' \<and> unat c' \<le> Suc (unat head) \<and>
      spans out' = spans out \<union> ({unat c..<unat c'} - unat ` set ps) \<and>
      (\<forall>p\<in>set ps. c \<le> p \<and> p \<le> head \<longrightarrow> p < c')" by simp
    have "unat p \<notin> {unat c..<unat c'}" using True IH by (auto simp: word_less_nat_alt)
    then show ?thesis using IH True by auto
  next
    case False
    then have p: "c \<le> p" "p \<le> head" by auto
    have "unat p + 1 < 2 ^ 64" using p(2) Cons.prems(3) by (simp add: word_le_nat_alt)
    then have s: "unat (sat_add p 1) = Suc (unat p)" by (simp add: unat_sat_add)
    let ?out = "if p > c then push_chunked out c (p - 1) cs else out"
    have out: "slices 0 cs ?out (unat (sat_add p 1)) \<and> spans ?out = spans out \<union> {unat c..<unat p}"
    proof (cases "p > c")
      case True
      then have p1: "unat (p - 1) = unat p - 1" "c \<le> p - 1" "0 < unat p"
        using unat_pred [of c p] by (simp_all add: word_le_nat_alt word_less_nat_alt)
      from push_chunked_spec [OF p1(2) Cons.prems(2), of out] obtain rs where
        rs: "push_chunked out c (p - 1) cs = out @ rs" "slices (unat c) cs rs (Suc (unat (p - 1)))"
        "spans rs = {unat c..unat (p - 1)}" by blast
      have "slices 0 cs (out @ rs) (unat p)"
        using slices_append [OF Cons.prems(5) rs(2)] p1 by simp
      then have "slices 0 cs (out @ rs) (Suc (unat p))" using slices_append [of 0 cs _ "unat p" "[]"] by simp
      moreover have "{unat c..unat (p - 1)} = {unat c..<unat p}" using p1 by auto
      ultimately show ?thesis using True rs s by simp
    next
      case False
      then have "p = c" using p(1) by simp
      then show ?thesis using s slices_append [OF Cons.prems(5), of "[]" "Suc (unat c)"] by simp
    qed
    have loop: "split_gaps_loop head cs ps ?out (sat_add p 1) = (out', c')"
      using Cons.prems(1) False by simp
    have "unat (sat_add p 1) \<le> Suc (unat head)" using s p(2) by (simp add: word_le_nat_alt)
    from Cons.IH [OF loop Cons.prems(2,3) _ conjunct1 [OF out] this] Cons.prems(4)
    have IH: "slices 0 cs out' (unat c')" "Suc (unat p) \<le> unat c'" "unat c' \<le> Suc (unat head)"
      "spans out' = spans ?out \<union> ({Suc (unat p)..<unat c'} - unat ` set ps)"
      "\<forall>q\<in>set ps. sat_add p 1 \<le> q \<and> q \<le> head \<longrightarrow> q < c'" using s by simp_all
    have ge: "\<forall>q\<in>set ps. unat p \<le> unat q" using Cons.prems(4) by simp
    have "{unat c..<unat p} \<union> ({Suc (unat p)..<unat c'} - unat ` set ps) =
        {unat c..<unat c'} - unat ` set (p # ps)"
      using IH(2) p(1) ge by (auto simp: word_le_nat_alt)
    moreover have "\<forall>q\<in>set (p # ps). c \<le> q \<and> q \<le> head \<longrightarrow> q < c'"
      using IH(2,5) ge s by (auto simp: word_le_nat_alt word_less_nat_alt not_le)
    ultimately show ?thesis using IH out p(1) by (auto simp: word_le_nat_alt)
  qed
qed auto


lemma split_gaps_spec:
  assumes "split_gaps_into_chunks head ps cs = Some rs" and "sorted (map unat ps)" and "unat head < 2 ^ 64 - 1"
  shows "slices 0 cs rs (Suc (unat head)) \<and> spans rs = {n. n \<le> unat head} - unat ` set ps"
proof -
  have cs: "cs \<noteq> 0" using assms(1) by (auto simp: split_gaps_into_chunks_def split: if_splits)
  obtain out c where l: "split_gaps_loop head cs ps [] 0 = (out, c)" by fastforce
  note sp = split_gaps_loop_spec [OF l cs assms(3,2)]
  have ps: "\<forall>p\<in>set ps. p \<le> head \<longrightarrow> p < c" using sp by simp
  have rs: "rs = (if c \<le> head then push_chunked out c head cs else out)"
    using assms(1) l cs by (simp add: split_gaps_into_chunks_def)
  show ?thesis
  proof (cases "c \<le> head")
    case True
    from push_chunked_spec [OF True cs, of out] obtain qs where
      qs: "push_chunked out c head cs = out @ qs" "slices (unat c) cs qs (Suc (unat head))"
      "spans qs = {unat c..unat head}" by blast
    have "slices 0 cs (out @ qs) (Suc (unat head))" using slices_append [OF _ qs(2)] sp by simp
    moreover have "({0..<unat c} - unat ` set ps) \<union> {unat c..unat head} = {n. n \<le> unat head} - unat ` set ps"
      using True ps by (auto simp: word_le_nat_alt word_less_nat_alt)
    ultimately show ?thesis using rs True qs sp by simp
  next
    case False
    then have "unat c = Suc (unat head)" using sp by (simp add: word_le_nat_alt)
    then show ?thesis using rs False sp by auto
  qed
qed

text \<open>The existing blocks are in order, and their numbers are the ones stored.\<close>

lemma unat_range_incl: "map unat (range_incl a b) = [unat a..<Suc (unat b)]"
proof -
  have "unat (word_of_nat k :: u64) = k" if "k < Suc (unat b)" for k
  proof -
    have "k < 2 ^ 64" using that unsigned_less [of b, where 'a = nat] by simp
    then show ?thesis by (simp add: unsigned_of_nat take_bit_nat_eq_self)
  qed
  then show ?thesis unfolding range_incl_def map_map by (intro map_idI) auto
qed

lemma sorted_existing: "sorted (map unat (existing_blocks sid head d))"
proof -
  have "sorted (map unat (range_incl 0 head))" by (simp add: unat_range_incl del: upt_Suc)
  then show ?thesis unfolding existing_blocks_def by (rule sorted_filter)
qed

lemma set_existing:
  "unat head < 2 ^ 63 \<Longrightarrow> wk_sid w = sid \<Longrightarrow>
   unat ` set (existing_blocks sid head d) = {n. n \<le> unat head \<and> present w d n}"
proof -
  assume h: "unat head < 2 ^ 63" and w: "wk_sid w = sid"
  have le: "unat n \<le> unat head" if "n \<in> set (range_incl 0 head)" for n
  proof -
    have "unat n \<in> set (map unat (range_incl 0 head))" using that by simp
    then show ?thesis unfolding unat_range_incl by auto
  qed
  have mem: "n \<in> set (range_incl 0 head)" if "unat n \<le> unat head" for n
  proof -
    have "word_of_nat (unat n) \<in> set (range_incl 0 head)"
      using that unfolding range_incl_def set_map set_upt by (intro imageI) auto
    then show ?thesis by simp
  qed
  have iff: "n \<in> set (existing_blocks sid head d) \<longleftrightarrow> unat n \<le> unat head \<and> present w d (unat n)" for n
    using le [of n] mem [of n] h sint_small [of n] w
    by (auto simp: existing_blocks_def present_def domIff)
  have "m \<in> unat ` set (existing_blocks sid head d)" if "m \<le> unat head" "present w d m" for m
  proof
    show "m = unat (word_of_nat m :: u64)" using that h by (simp add: unat_nat)
    then show "word_of_nat m \<in> set (existing_blocks sid head d)" using that by (simp add: iff)
  qed
  then show ?thesis using iff by auto
qed


section \<open>The work queue\<close>

text \<open>What a worker relies on: no operation loses or changes a task, a claim returns a task of the
  network asked for, and only finishing a task makes it finished.\<close>

locale work_queue =
  fixes wf :: "'q \<Rightarrow> bool"
    and tasks :: "'q \<Rightarrow> (int \<times> int \<times> nat set) set"
    and finished :: "'q \<Rightarrow> int set"
    and claim :: "string option \<Rightarrow> int \<Rightarrow> int \<Rightarrow> 'q \<Rightarrow> (claimed_chunk option \<times> 'q) data_result"
    and finish :: "string option \<Rightarrow> int \<Rightarrow> 'q \<Rightarrow> 'q data_result"
    and release :: "string option \<Rightarrow> int \<Rightarrow> string \<Rightarrow> 'q \<Rightarrow> 'q data_result"
  assumes unique: "wf q \<Longrightarrow> (i, s, A) \<in> tasks q \<Longrightarrow> (i, s', B) \<in> tasks q \<Longrightarrow> s = s' \<and> A = B"
    and claim_keeps: "wf q \<Longrightarrow> claim flt sid now q = Inr (r, q') \<Longrightarrow>
      wf q' \<and> tasks q' = tasks q \<and> finished q' \<subseteq> finished q"
    and claim_task: "wf q \<Longrightarrow> claim flt sid now q = Inr (Some c, q') \<Longrightarrow>
      (cl_id c, sid, {unat (cl_from_block c)..unat (cl_to_block c)}) \<in> tasks q \<and> unat (cl_to_block c) < 2 ^ 63"
    and finish_keeps: "wf q \<Longrightarrow> finish flt i q = Inr q' \<Longrightarrow>
      wf q' \<and> tasks q' = tasks q \<and> finished q' \<subseteq> insert i (finished q)"
    and release_keeps: "wf q \<Longrightarrow> release flt i e q = Inr q' \<Longrightarrow>
      wf q' \<and> tasks q' = tasks q \<and> finished q' \<subseteq> finished q"
begin

text \<open>A finished task is done: its numbers satisfy \<^verbatim>\<open>P\<close>.\<close>

definition served :: "(int \<Rightarrow> nat \<Rightarrow> bool) \<Rightarrow> 'q \<Rightarrow> bool" where
  "served P q \<longleftrightarrow> (\<forall>i s A. (i, s, A) \<in> tasks q \<and> i \<in> finished q \<longrightarrow> (\<forall>n\<in>A. P s n))"

lemma served_mono: "served P q \<Longrightarrow> (\<And>s n. P s n \<Longrightarrow> P' s n) \<Longrightarrow> served P' q"
  by (auto simp: served_def)

lemma served_claim: "wf q \<Longrightarrow> claim flt sid now q = Inr (r, q') \<Longrightarrow> served P q \<Longrightarrow> served P q'"
  using claim_keeps unfolding served_def by blast

lemma served_release: "wf q \<Longrightarrow> release flt i e q = Inr q' \<Longrightarrow> served P q \<Longrightarrow> served P q'"
  using release_keeps unfolding served_def by blast

lemma served_finish:
  assumes "wf q" and "finish flt i q = Inr q'" and "served P q"
    and "(i, s, A) \<in> tasks q" and "\<forall>n\<in>A. P s n"
  shows "served P q'"
  unfolding served_def
proof (intro allI impI)
  fix j s' B assume j: "(j, s', B) \<in> tasks q' \<and> j \<in> finished q'"
  note k = finish_keeps [OF assms(1,2)]
  show "\<forall>n\<in>B. P s' n"
  proof (cases "j = i")
    case True
    then show ?thesis using j k unique [OF assms(1,4)] assms(5) by blast
  next
    case False
    then show ?thesis using j k assms(3) by (auto simp: served_def)
  qed
qed

end

definition chunk_task :: "chunk_db \<Rightarrow> int \<times> int \<times> nat set" where
  "chunk_task c = (kc_id c, kc_network c, {nat (kc_from c)..nat (kc_to c)})"

definition chunk_tasks :: "db \<Rightarrow> (int \<times> int \<times> nat set) set" where
  "chunk_tasks d = chunk_task ` set (t_chunks d)"

definition chunks_done :: "db \<Rightarrow> int set" where
  "chunks_done d = kc_id ` {c \<in> set (t_chunks d). kc_status c = Done}"

definition queue_wf :: "db \<Rightarrow> bool" where
  "queue_wf d \<longleftrightarrow> distinct (map kc_id (t_chunks d)) \<and>
     (\<forall>c\<in>set (t_chunks d). kc_id c < t_next_chunk d \<and> 0 \<le> kc_from c \<and> kc_from c < 2 ^ 63 \<and>
        0 \<le> kc_to c \<and> kc_to c < 2 ^ 63)"

lemma update_chunk_keeps:
  assumes "\<And>c. kc_id (f c) = kc_id c \<and> chunk_task (f c) = chunk_task c \<and> kc_from (f c) = kc_from c \<and> kc_to (f c) = kc_to c"
  shows "queue_wf (update_chunk i f d) = queue_wf d" "chunk_tasks (update_chunk i f d) = chunk_tasks d"
proof -
  define g where "g = (\<lambda>c. if kc_id c = i then f c else c)"
  have g: "kc_id (g c) = kc_id c" "chunk_task (g c) = chunk_task c" "kc_from (g c) = kc_from c" "kc_to (g c) = kc_to c" for c
    using assms [of c] by (auto simp: g_def)
  have u: "update_chunk i f d = d\<lparr> t_chunks := map g (t_chunks d) \<rparr>" by (simp add: update_chunk_def g_def)
  have "kc_id \<circ> g = kc_id" using g by (simp add: fun_eq_iff)
  then show "queue_wf (update_chunk i f d) = queue_wf d" by (simp add: queue_wf_def u g)
  show "chunk_tasks (update_chunk i f d) = chunk_tasks d" by (simp add: chunk_tasks_def u image_image g)
qed

lemma chunks_done_update:
  assumes "\<And>c. kc_id (f c) = kc_id c"
  shows "chunks_done (update_chunk i f d) \<subseteq> insert i (chunks_done d)"
    and "(\<And>c. kc_status (f c) \<noteq> Done) \<Longrightarrow> chunks_done (update_chunk i f d) \<subseteq> chunks_done d"
  using assms by (auto simp: chunks_done_def update_chunk_def split: if_splits)

lemma claim_chunk_Some:
  assumes "claim_chunk flt sid now d = Inr (Some c, d')"
  obtains k where "k \<in> set (t_chunks d)" "claimable sid now k" "cl_id c = kc_id k"
    "cl_from_block c = word_of_int (kc_from k)" "cl_to_block c = word_of_int (kc_to k)"
    "d' = update_chunk (kc_id k) (\<lambda>c. c\<lparr> kc_status := Running, kc_lease_until := Some (now + lease_duration) \<rparr>) d"
proof -
  from assms obtain k ks where k: "sort_key kc_id (filter (claimable sid now) (t_chunks d)) = k # ks"
    by (auto simp: claim_chunk_def split: option.splits list.splits)
  then have "k \<in> set (sort_key kc_id (filter (claimable sid now) (t_chunks d)))" by simp
  then have "k \<in> set (t_chunks d)" "claimable sid now k" by simp_all
  then show thesis using assms k that by (auto simp: claim_chunk_def split: option.splits)
qed

lemma claim_chunk_None: "claim_chunk flt sid now d = Inr (None, d') \<Longrightarrow> d' = d"
  by (auto simp: claim_chunk_def split: option.splits list.splits)

lemma unat_word_of_int: "0 \<le> i \<Longrightarrow> i < 2 ^ 63 \<Longrightarrow> unat (word_of_int i :: u64) = nat i"
  by (simp add: unsigned_of_int take_bit_int_eq_self)

lemma claim_chunk_keeps:
  assumes "queue_wf d" and "claim_chunk flt sid now d = Inr (r, d')"
  shows "queue_wf d' \<and> chunk_tasks d' = chunk_tasks d \<and> chunks_done d' \<subseteq> chunks_done d"
proof (cases r)
  case None
  then show ?thesis using assms claim_chunk_None by blast
next
  case (Some c)
  from assms(2) [unfolded Some] obtain k :: chunk_db where
    "d' = update_chunk (kc_id k) (\<lambda>c. c\<lparr> kc_status := Running, kc_lease_until := Some (now + lease_duration) \<rparr>) d"
    by (rule claim_chunk_Some) (rule that)
  then show ?thesis using assms(1) by (simp add: update_chunk_keeps chunks_done_update chunk_task_def)
qed

lemma claim_chunk_task:
  assumes "queue_wf d" and "claim_chunk flt sid now d = Inr (Some c, d')"
  shows "(cl_id c, sid, {unat (cl_from_block c)..unat (cl_to_block c)}) \<in> chunk_tasks d \<and>
    unat (cl_to_block c) < 2 ^ 63"
proof -
  from assms(2) obtain k where k: "k \<in> set (t_chunks d)" "claimable sid now k" "cl_id c = kc_id k"
    "cl_from_block c = word_of_int (kc_from k)" "cl_to_block c = word_of_int (kc_to k)"
    by (rule claim_chunk_Some)
  have b: "0 \<le> kc_from k" "kc_from k < 2 ^ 63" "0 \<le> kc_to k" "kc_to k < 2 ^ 63"
    using assms(1) k(1) by (auto simp: queue_wf_def)
  have "chunk_task k = (cl_id c, sid, {unat (cl_from_block c)..unat (cl_to_block c)})"
    using k(2-5) b by (simp add: chunk_task_def claimable_def unat_word_of_int)
  then show ?thesis using k(1,5) b by (auto simp: chunk_tasks_def image_iff unat_word_of_int) (metis)
qed

interpretation queue: work_queue queue_wf chunk_tasks chunks_done claim_chunk mark_chunk_done mark_chunk_failed
proof unfold_locales
  fix q i s A s' B
  assume "queue_wf q" "(i, s, A) \<in> chunk_tasks q" "(i, s', B) \<in> chunk_tasks q"
  then show "s = s' \<and> A = B"
    by (auto simp: queue_wf_def chunk_tasks_def chunk_task_def distinct_map dest: inj_onD)
next
  fix q q' flt i
  assume "queue_wf q" "mark_chunk_done flt i q = Inr q'"
  then show "queue_wf q' \<and> chunk_tasks q' = chunk_tasks q \<and> chunks_done q' \<subseteq> insert i (chunks_done q)"
    by (auto simp: mark_chunk_done_def update_chunk_keeps chunk_task_def
        dest: chunks_done_update(1) [THEN subsetD, rotated] split: option.splits)
next
  fix q q' flt i e
  assume "queue_wf q" "mark_chunk_failed flt i e q = Inr q'"
  then show "queue_wf q' \<and> chunk_tasks q' = chunk_tasks q \<and> chunks_done q' \<subseteq> chunks_done q"
    by (auto simp: mark_chunk_failed_def update_chunk_keeps chunk_task_def
        dest: chunks_done_update(2) [THEN subsetD, rotated 2] split: option.splits)
qed (use claim_chunk_keeps claim_chunk_task in auto)


section \<open>The system\<close>

definition stored :: "db \<Rightarrow> int \<Rightarrow> nat \<Rightarrow> bool" where
  "stored d s n \<longleftrightarrow> (s, int n) \<in> dom (t_blocks d)"

text \<open>What a worker has still to do covers what is missing of its task.\<close>

fun phase_ok :: "db \<Rightarrow> int \<Rightarrow> phase \<Rightarrow> bool" where
  "phase_ok d s (Working c nums) \<longleftrightarrow> (\<exists>A. (cl_id c, s, A) \<in> chunk_tasks d \<and>
     (\<forall>n\<in>A. stored d s n \<or> n \<in> unat ` set nums)) \<and> (\<forall>n\<in>set nums. unat n < 2 ^ 63)"
| "phase_ok d s _ \<longleftrightarrow> True"

definition sys_inv :: "(nat \<Rightarrow> worker) \<Rightarrow> (nat \<Rightarrow> phase) \<times> store \<Rightarrow> bool" where
  "sys_inv ws s \<longleftrightarrow> (case s of (ph, cache, d) \<Rightarrow> db_inv d \<and> queue_wf d \<and> queue.served (stored d) d \<and>
     (\<forall>i. phase_ok d (wk_sid (ws i)) (ph i)))"

text \<open>Steps that only add blocks and tasks.\<close>

definition grows :: "db \<Rightarrow> db \<Rightarrow> bool" where
  "grows d d' \<longleftrightarrow> (\<forall>s n. stored d s n \<longrightarrow> stored d' s n) \<and> chunk_tasks d \<subseteq> chunk_tasks d'"

lemma grows_refl [simp]: "grows d d" by (simp add: grows_def)

lemma phase_ok_grows: "phase_ok d s p \<Longrightarrow> grows d d' \<Longrightarrow> phase_ok d' s p"
  by (cases p) (auto simp: grows_def subset_iff, metis)

lemma db_step_grows:
  assumes "db_step d d'"
  shows "grows d d' \<and> (queue_wf d' = queue_wf d) \<and> chunks_done d' = chunks_done d \<and> chunk_tasks d' = chunk_tasks d"
proof -
  have "dom (t_blocks d) \<subseteq> dom (t_blocks d')" "t_chunks d' = t_chunks d" "t_next_chunk d' = t_next_chunk d"
    using assms by (auto simp: db_step_def dest: map_le_implies_dom_le)
  then show ?thesis by (auto simp: grows_def stored_def chunk_tasks_def queue_wf_def chunks_done_def)
qed

lemma served_same:
  "queue.served P d \<Longrightarrow> chunk_tasks d' = chunk_tasks d \<Longrightarrow> chunks_done d' \<subseteq> chunks_done d \<Longrightarrow> queue.served P d'"
  unfolding queue.served_def by blast

lemma served_grows: "queue.served (stored d) q \<Longrightarrow> grows d d' \<Longrightarrow> queue.served (stored d') q"
  by (erule queue.served_mono) (simp add: grows_def)

lemma update_chunk_db [simp]:
  "stored (update_chunk i f d) = stored d" "db_inv (update_chunk i f d) = db_inv d"
  by (simp_all add: stored_def update_chunk_def db_inv_def fun_eq_iff)

lemma queue_ops_db:
  "claim_chunk flt sid now d = Inr (r, d') \<Longrightarrow> stored d' = stored d \<and> db_inv d' = db_inv d"
  "mark_chunk_done flt i d = Inr d' \<Longrightarrow> stored d' = stored d \<and> db_inv d' = db_inv d"
  "mark_chunk_failed flt i e d = Inr d' \<Longrightarrow> stored d' = stored d \<and> db_inv d' = db_inv d"
  by (auto simp: claim_chunk_def mark_chunk_done_def mark_chunk_failed_def split: option.splits list.splits)

text \<open>One step of a worker keeps the invariant of the tables and of its own phase.\<close>

definition core_inv :: "db \<Rightarrow> bool" where
  "core_inv d \<longleftrightarrow> db_inv d \<and> queue_wf d \<and> queue.served (stored d) d"

lemma claim_step:
  assumes "core_inv d" and "claim_chunk flt (wk_sid w) now d = Inr (r, d')"
  shows "core_inv d' \<and> grows d d' \<and> (\<forall>c. r = Some c \<longrightarrow>
    phase_ok d' (wk_sid w) (Working c (range_incl (cl_from_block c) (cl_to_block c))))"
proof -
  note k = queue.claim_keeps [OF _ assms(2)] and db = queue_ops_db(1) [OF assms(2)]
  have core: "core_inv d'" "grows d d'"
    using assms k db queue.served_claim [OF _ assms(2), of "stored d"] by (auto simp: core_inv_def grows_def)
  have "phase_ok d' (wk_sid w) (Working c (range_incl (cl_from_block c) (cl_to_block c)))" if "r = Some c" for c
  proof -
    have q: "queue_wf d" using assms(1) by (simp add: core_inv_def)
    from queue.claim_task [OF q assms(2) [unfolded that]] k [OF q] have
      t: "(cl_id c, wk_sid w, {unat (cl_from_block c)..unat (cl_to_block c)}) \<in> chunk_tasks d'"
      "unat (cl_to_block c) < 2 ^ 63" by auto
    have "unat ` set (range_incl (cl_from_block c) (cl_to_block c)) = {unat (cl_from_block c)..unat (cl_to_block c)}"
      using arg_cong [OF unat_range_incl, of set, of "cl_from_block c" "cl_to_block c"] by auto
    then have "unat ` set (range_incl (cl_from_block c) (cl_to_block c)) = {unat (cl_from_block c)..unat (cl_to_block c)}"
      and "\<forall>n\<in>set (range_incl (cl_from_block c) (cl_to_block c)). unat n \<le> unat (cl_to_block c)" by auto
    then show ?thesis using t by fastforce
  qed
  with core show ?thesis by simp
qed

lemma index_step:
  assumes "core_inv d" and "backfill_index_block an w nd n (cache, d) = (r, cache', d')" and "unat n < 2 ^ 63"
  shows "core_inv d' \<and> grows d d' \<and> (r = Inr () \<longrightarrow> stored d' (wk_sid w) (unat n))"
proof -
  note st = backfill_index_block_step [OF assms(2)]
  note g = db_step_grows [OF conjunct1 [OF st]]
  have "db_inv d'" using st assms(1) by (auto simp: db_step_def core_inv_def)
  moreover have "queue.served (stored d') d'"
    using served_same served_grows g assms(1) unfolding core_inv_def by (metis order_refl)
  moreover have "r = Inr () \<longrightarrow> stored d' (wk_sid w) (unat n)"
    using st assms(3) by (simp add: stored_def sint_small)
  ultimately show ?thesis using g assms(1) by (auto simp: core_inv_def)
qed


lemma mark_done_step:
  assumes "core_inv d" and "mark_chunk_done flt (cl_id c) d = Inr d'" and "phase_ok d s (Working c [])"
  shows "core_inv d' \<and> grows d d'"
proof -
  have q: "queue_wf d" and sv: "queue.served (stored d) d" using assms(1) by (simp_all add: core_inv_def)
  from assms(3) obtain A where "(cl_id c, s, A) \<in> chunk_tasks d" "\<forall>n\<in>A. stored d s n" by auto
  from queue.served_finish [OF q assms(2) sv this] queue.finish_keeps [OF q assms(2)]
    queue_ops_db(2) [OF assms(2)] assms(1)
  show ?thesis by (simp add: core_inv_def grows_def)
qed

lemma mark_failed_step:
  assumes "core_inv d" and "mark_chunk_failed flt i e d = Inr d'"
  shows "core_inv d' \<and> grows d d'"
proof -
  have q: "queue_wf d" and sv: "queue.served (stored d) d" using assms(1) by (simp_all add: core_inv_def)
  from queue.served_release [OF q assms(2) sv] queue.release_keeps [OF q assms(2)]
    queue_ops_db(3) [OF assms(2)] assms(1)
  show ?thesis by (simp add: core_inv_def grows_def)
qed

lemma backfill_step_core:
  assumes "backfill_step w env ph (cache, d) = (ph', cache', d')" and "core_inv d" and "phase_ok d (wk_sid w) ph"
  shows "core_inv d' \<and> grows d d' \<and> phase_ok d' (wk_sid w) ph'"
proof (cases ph)
  case Idle
  show ?thesis
  proof (cases "claim_chunk (we_claim_fault env) (wk_sid w) (we_now env) d")
    case (Inl e)
    then show ?thesis using assms Idle by auto
  next
    case (Inr r)
    obtain c d1 where r: "r = (c, d1)" by (cases r)
    from claim_step [OF assms(2)] Inr r have
      "core_inv d1 \<and> grows d d1 \<and> (\<forall>c'. c = Some c' \<longrightarrow>
         phase_ok d1 (wk_sid w) (Working c' (range_incl (cl_from_block c') (cl_to_block c'))))" by blast
    then show ?thesis using assms(1) Idle Inr r by (cases c) auto
  qed
next
  case (Working c nums)
  show ?thesis
  proof (cases nums)
    case Nil
    show ?thesis
    proof (cases "mark_chunk_done (we_mark_fault env) (cl_id c) d")
      case (Inl e)
      then show ?thesis using assms Working Nil by auto
    next
      case (Inr d1)
      then show ?thesis using mark_done_step [OF assms(2) Inr] assms(1,3) Working Nil by auto
    qed
  next
    case (Cons num ns)
    obtain r c1 d1 where b: "backfill_index_block (we_attempt env) w (we_node env) num (cache, d) = (r, c1, d1)"
      by (metis prod_cases3)
    have "unat num < 2 ^ 63" using assms(3) Working Cons by simp
    note st = index_step [OF assms(2) b this]
    have ok: "phase_ok d1 (wk_sid w) (Working c (num # ns))"
      using phase_ok_grows assms(3) st Working Cons by blast
    show ?thesis
    proof (cases r)
      case (Inl e)
      then show ?thesis using assms(1) Working Cons b st by auto
    next
      case (Inr u)
      then have "phase_ok d1 (wk_sid w) (Working c ns)" using ok st by auto
      then show ?thesis using assms(1) Working Cons b st Inr by auto
    qed
  qed
next
  case (Failing c e)
  show ?thesis
  proof (cases "mark_chunk_failed (we_mark_fault env) (cl_id c) (show_data_error e) d")
    case (Inl e')
    then show ?thesis using assms Failing by auto
  next
    case (Inr d1)
    then show ?thesis using mark_failed_step [OF assms(2) Inr] assms(1) Failing by auto
  qed
next
  case Exited
  then show ?thesis using assms by auto
qed

lemma live_core:
  assumes "live_index_block an w nd n (cache, d) = (r, cache', d')" and "core_inv d"
  shows "core_inv d' \<and> grows d d'"
  using assms(1)
proof (cases rule: live_index_block_cases)
  case (failed e)
  note g = db_step_grows [OF same_but_authors_step [OF failed(2)]]
  have "db_inv d'" using failed(2) assms(2) same_but_authors_step unfolding core_inv_def db_step_def by blast
  then show ?thesis using g assms(2) served_same served_grows unfolding core_inv_def by (metis order_refl)
next
  case (indexed p a d0 d1)
  have "db_step d d1"
    using db_step_trans [OF same_but_authors_step [OF indexed(3)]] write_block_step [OF indexed(4)] by blast
  note g = db_step_grows [OF this] and b = bump_cursor_Inr [OF indexed(5)]
  have same: "stored d' = stored d1" "chunk_tasks d' = chunk_tasks d1" "chunks_done d' = chunks_done d1"
    "queue_wf d' = queue_wf d1"
    using b by (auto simp: stored_def chunk_tasks_def chunks_done_def queue_wf_def fun_eq_iff)
  have "grows d d'" using g same by (simp add: grows_def)
  moreover have "db_inv d'" using \<open>db_step d d1\<close> b assms(2) by (auto simp: db_step_def core_inv_def)
  moreover have "queue.served (stored d') d'"
    using served_same [OF served_grows [OF _ calculation(1)], of d d'] g same assms(2)
    by (simp add: core_inv_def)
  ultimately show ?thesis using g same assms(2) by (simp add: core_inv_def)
qed

subsection \<open>Seeding\<close>

lemma uint_small_64: "unat n < 2 ^ 63 \<Longrightarrow> uint n < 2 ^ 63" for n :: u64
proof -
  assume "unat n < 2 ^ 63"
  then have "int (unat n) < int (2 ^ 63)" by (simp only: of_nat_less_iff)
  then show ?thesis by simp
qed

lemma seed_insert_spec:
  assumes "seed_insert sf sid rs k d = Inr (k', d')" and "queue_wf d"
    and "\<forall>(a, b)\<in>set rs. unat a < 2 ^ 63 \<and> unat b < 2 ^ 63"
  shows "queue_wf d' \<and> chunk_tasks d \<subseteq> chunk_tasks d' \<and> chunks_done d' = chunks_done d \<and>
    t_blocks d' = t_blocks d \<and> db_inv d' = db_inv d \<and>
    (\<forall>(i, s, A)\<in>chunk_tasks d'. (i, s, A) \<in> chunk_tasks d \<or> i \<notin> chunks_done d) \<and>
    (\<forall>(a, b)\<in>set rs. \<exists>i. (i, sid, {unat a..unat b}) \<in> chunk_tasks d')"
  using assms
proof (induction sf sid rs k d rule: seed_insert.induct)
  case (1 sf sid k d)
  then show ?case by auto
next
  case (2 sf sid a b rs k d)
  have f: "sf_insert sf (a, b) = None" using "2.prems"(1) by (auto split: option.splits)
  have ab: "sint a = int (unat a)" "sint b = int (unat b)" "unat a < 2 ^ 63" "unat b < 2 ^ 63"
    "uint a < 2 ^ 63" "uint b < 2 ^ 63"
    using "2.prems"(3) uint_small_64 [of a] uint_small_64 [of b] by (simp_all add: sint_small)
  let ?d1 = "d\<lparr> t_next_chunk := t_next_chunk d + 1 \<rparr>"
  let ?c = "\<lparr> kc_id = t_next_chunk d, kc_network = sid, kc_from = sint a, kc_to = sint b,
    kc_status = Pending, kc_lease_until = None, kc_last_error = None \<rparr>"
  show ?case
  proof (cases "chunk_exists sid (sint a) (sint b) d")
    case True
    then have run: "seed_insert sf sid rs k ?d1 = Inr (k', d')" using "2.prems"(1) f by simp
    have wf: "queue_wf ?d1" using "2.prems"(2) by (fastforce simp: queue_wf_def)
    have same: "chunk_tasks ?d1 = chunk_tasks d" "chunks_done ?d1 = chunks_done d" "db_inv ?d1 = db_inv d"
      by (simp_all add: chunk_tasks_def chunks_done_def db_inv_def)
    from True ab obtain c where "c \<in> set (t_chunks d)" "kc_network c = sid" "kc_from c = int (unat a)" "kc_to c = int (unat b)"
      by (auto simp: chunk_exists_def)
    then have "(kc_id c, sid, {unat a..unat b}) \<in> chunk_tasks d"
      by (auto simp: chunk_tasks_def chunk_task_def image_iff intro!: bexI [of _ c])
    then show ?thesis using "2.IH"(1) [OF f refl True run wf] "2.prems"(3) same by auto
  next
    case False
    let ?d2 = "?d1\<lparr> t_chunks := t_chunks d @ [?c] \<rparr>"
    have run: "seed_insert sf sid rs (k + 1) ?d2 = Inr (k', d')" using "2.prems"(1) f False by simp
    have wf: "queue_wf ?d2" using "2.prems"(2) ab by (auto simp: queue_wf_def)
    have new: "t_next_chunk d \<notin> chunks_done d" using "2.prems"(2) by (auto simp: queue_wf_def chunks_done_def)
    have tasks: "chunk_tasks ?d2 = insert (t_next_chunk d, sid, {unat a..unat b}) (chunk_tasks d)"
      using ab by (auto simp: chunk_tasks_def chunk_task_def)
    have same: "chunks_done ?d2 = chunks_done d" "db_inv ?d2 = db_inv d"
      by (auto simp: chunks_done_def db_inv_def)
    show ?thesis using "2.IH"(2) [OF f refl False run wf] "2.prems"(3) same tasks new by auto
  qed
qed

lemma seed_chunks_spec:
  assumes "seed_chunks sf sid head cs d = Some (r, d')" and "core_inv d" and "unat head < 2 ^ 63"
  shows "core_inv d' \<and> grows d d' \<and> (\<forall>k n. r = Inr k \<and> n \<le> unat head \<longrightarrow>
    stored d' sid n \<or> (\<exists>i A. (i, sid, A) \<in> chunk_tasks d' \<and> n \<in> A))"
proof (cases r)
  case (Inl e)
  then have "d' = d" using assms(1) by (auto simp: seed_chunks_def split: option.splits sum.splits prod.splits)
  then show ?thesis using Inl assms(2) by simp
next
  case (Inr k)
  from assms(1) [unfolded Inr] obtain rs where
    rs: "split_gaps_into_chunks head (existing_blocks sid head d) cs = Some rs"
    and ins: "seed_insert sf sid rs 0 d = Inr (k, d')"
    by (auto simp: seed_chunks_def split: option.splits sum.splits prod.splits)
  have h: "unat head < 2 ^ 64 - 1" using assms(3) by simp
  note sp = split_gaps_spec [OF rs sorted_existing h]
  have within: "unat a \<le> unat head \<and> unat b \<le> unat head" if "(a, b) \<in> set rs" for a b
  proof -
    have "unat a \<le> unat b" using sp that by (auto dest: slices_mem)
    then have "unat a \<in> spans rs" "unat b \<in> spans rs" using that unfolding spans_def by force+
    then show ?thesis using sp by auto
  qed
  have "\<forall>(a, b)\<in>set rs. unat a < 2 ^ 63 \<and> unat b < 2 ^ 63"
    using within assms(3) by (fastforce intro: le_less_trans)
  note q = seed_insert_spec [OF ins _ this]
  have wf: "queue_wf d" using assms(2) by (simp add: core_inv_def)
  have "t_blocks d' = t_blocks d" using q [OF wf] by blast
  then have st: "stored d' = stored d" by (intro ext) (simp add: stored_def)
  have "queue.served (stored d') d'"
    using q [OF wf] assms(2) st unfolding core_inv_def queue.served_def by fastforce
  then have core: "core_inv d'" "grows d d'"
    using q [OF wf] assms(2) st by (auto simp: core_inv_def grows_def)
  have "stored d' sid n \<or> (\<exists>i A. (i, sid, A) \<in> chunk_tasks d' \<and> n \<in> A)" if "n \<le> unat head" for n
  proof (cases "stored d sid n")
    case False
    obtain w :: worker where w: "wk_sid w = sid" by (metis worker.select_convs(2))
    have "n \<notin> unat ` set (existing_blocks sid head d)"
      using set_existing [OF assms(3) w] False by (auto simp: present_def stored_def w)
    then have "n \<in> spans rs" using sp that by auto
    then obtain a b where "(a, b) \<in> set rs" "n \<in> {unat a..unat b}" by (auto simp: spans_def)
    then show ?thesis using q [OF wf] by blast
  qed (simp add: st)
  then show ?thesis using core by blast
qed


subsection \<open>Reachable states\<close>

lemma sys_inv_iff:
  "sys_inv ws (ph, cache, d) \<longleftrightarrow> core_inv d \<and> (\<forall>i. phase_ok d (wk_sid (ws i)) (ph i))"
  by (simp add: sys_inv_def core_inv_def)

lemma sys_step_inv:
  assumes "sys_step ws s s'" and "sys_inv ws s"
  shows "sys_inv ws s' \<and> grows (snd (snd s)) (snd (snd s'))"
  using assms
proof (induction rule: sys_step.induct)
  case (work i env ph st p st')
  obtain cache d cache' d' where st: "st = (cache, d)" "st' = (cache', d')" by (metis prod.exhaust)
  from work backfill_step_core [of "ws i" env "ph i" cache d p cache' d'] st have
    "core_inv d'" "grows d d'" "phase_ok d' (wk_sid (ws i)) p" by (simp_all add: sys_inv_iff)
  then show ?case using work(2) st by (auto simp: sys_inv_iff intro: phase_ok_grows)
next
  case (live an w nd n st r st' ph)
  obtain cache d cache' d' where st: "st = (cache, d)" "st' = (cache', d')" by (metis prod.exhaust)
  from live live_core [of an w nd n cache d r cache' d'] st have "core_inv d'" "grows d d'"
    by (simp_all add: sys_inv_iff)
  then show ?case using live(2) st by (auto simp: sys_inv_iff intro: phase_ok_grows)
next
  case (seed sf sid head cs d r d' ph cache)
  then have "core_inv d'" "grows d d'" using seed_chunks_spec [OF seed(1) _ seed(2)] by (simp_all add: sys_inv_iff)
  then show ?case using seed(3) by (auto simp: sys_inv_iff intro: phase_ok_grows)
next
  case (restart ph cache d)
  then show ?case by (simp add: sys_inv_iff)
qed

lemma sys_steps_inv:
  "(sys_step ws)\<^sup>*\<^sup>* s s' \<Longrightarrow> sys_inv ws s \<Longrightarrow> sys_inv ws s' \<and> grows (snd (snd s)) (snd (snd s'))"
proof (induction rule: rtranclp_induct)
  case (step s' s'')
  then have "sys_inv ws s'" "grows (snd (snd s)) (snd (snd s'))" by auto
  then show ?case using sys_step_inv [OF step(2)] by (auto simp: grows_def)
qed simp

lemma no_open_chunks:
  assumes "open_chunk_count None sid d = Inr 0" and "(i, sid, A) \<in> chunk_tasks d"
  shows "i \<in> chunks_done d"
proof -
  from assms(2) obtain c where c: "c \<in> set (t_chunks d)" "kc_id c = i" "kc_network c = sid"
    by (auto simp: chunk_tasks_def chunk_task_def)
  then have "kc_status c \<notin> {Pending, Running}"
    using assms(1) by (auto simp: open_chunk_count_def filter_empty_conv)
  then have "kc_status c = Done" by (cases "kc_status c") auto
  then show ?thesis using c by (auto simp: chunks_done_def)
qed

section \<open>Properties\<close>

text \<open>C23: The partition is exact: the chunks are in ascending order, do not overlap, are at most the
  chunk size wide, and cover exactly the block numbers up to the head that are not stored.\<close>

theorem split_gaps_exact:
  assumes "split_gaps_into_chunks head ps cs = Some rs" and "sorted (map unat ps)" and "unat head < 2 ^ 64 - 1"
  shows "slices 0 cs rs (Suc (unat head)) \<and> spans rs = {n. n \<le> unat head} - unat ` set ps"
  using assms by (rule split_gaps_spec)

lemma split_gaps_exact_witness:
  "\<exists>rs. split_gaps_into_chunks 9 [2, 5] 4 = Some rs \<and> spans rs = {n. n \<le> 9} - {2, 5}"
proof -
  obtain rs where rs: "split_gaps_into_chunks 9 [2, 5] 4 = Some rs"
    by (cases "split_gaps_into_chunks 9 [2, 5] 4")
      (auto simp: split_gaps_into_chunks_def split: prod.splits)
  from split_gaps_exact [OF this] rs show ?thesis by simp
qed

text \<open>C2: The backfill is complete. After a seed of the queue up to a head has succeeded, whatever the
  workers, the live workers, further seeds, failures and restarts do, when no chunk of the network
  is open any more every block up to that head is stored.\<close>

theorem backfill_complete:
  assumes "seed_chunks sf sid head cs d0 = Some (Inr k, d1)" and "unat head < 2 ^ 63"
    and "sys_inv ws (ph, cache, d0)"
    and "(sys_step ws)\<^sup>*\<^sup>* (ph, cache, d1) (ph', cache', d)" and "open_chunk_count None sid d = Inr 0"
    and "n \<le> unat head"
  shows "stored d sid n"
proof -
  have "core_inv d0" using assms(3) by (simp add: sys_inv_iff)
  note seed = seed_chunks_spec [OF assms(1) this assms(2)]
  have "sys_inv ws (ph, cache, d1)"
    using seed assms(3) by (auto simp: sys_inv_iff intro: phase_ok_grows)
  note run = sys_steps_inv [OF assms(4) this]
  from seed assms(6) have "stored d1 sid n \<or> (\<exists>i A. (i, sid, A) \<in> chunk_tasks d1 \<and> n \<in> A)" by blast
  then show ?thesis
  proof
    assume "stored d1 sid n"
    then show ?thesis using run by (simp add: grows_def)
  next
    assume "\<exists>i A. (i, sid, A) \<in> chunk_tasks d1 \<and> n \<in> A"
    then obtain i A where t: "(i, sid, A) \<in> chunk_tasks d" "n \<in> A" using run by (auto simp: grows_def)
    with no_open_chunks [OF assms(5) t(1)] run show ?thesis
      by (auto simp: sys_inv_iff core_inv_def queue.served_def)
  qed
qed



section \<open>Leases\<close>

text \<open>The operations on the queue by other workers, the one that fails included.\<close>

datatype queue_op = OpClaim int int | OpDone int | OpFail int string

fun run_queue_op :: "queue_op \<Rightarrow> db \<Rightarrow> claimed_chunk option \<times> db" where
  "run_queue_op (OpClaim sid now) d = (case claim_chunk None sid now d of Inl _ \<Rightarrow> (None, d) | Inr r \<Rightarrow> r)"
| "run_queue_op (OpDone i) d = (case mark_chunk_done None i d of Inl _ \<Rightarrow> (None, d) | Inr d' \<Rightarrow> (None, d'))"
| "run_queue_op (OpFail i e) d = (case mark_chunk_failed None i e d of Inl _ \<Rightarrow> (None, d) | Inr d' \<Rightarrow> (None, d'))"

fun queue_ops :: "queue_op list \<Rightarrow> db \<Rightarrow> claimed_chunk list \<times> db" where
  "queue_ops [] d = ([], d)"
| "queue_ops (op # ops) d = (case run_queue_op op d of (r, d1) \<Rightarrow>
     (case queue_ops ops d1 of (cs, d2) \<Rightarrow> (case r of None \<Rightarrow> cs | Some c \<Rightarrow> c # cs, d2)))"

text \<open>An operation that cannot take over the chunk: a claim before the lease has run out, or a mark of
  another chunk, or the mark of the chunk as done.\<close>

fun keeps_lease :: "int \<Rightarrow> int \<Rightarrow> queue_op \<Rightarrow> bool" where
  "keeps_lease i lease (OpClaim sid now) \<longleftrightarrow> now \<le> lease"
| "keeps_lease i lease (OpDone j) \<longleftrightarrow> True"
| "keeps_lease i lease (OpFail j e) \<longleftrightarrow> j \<noteq> i"

definition held :: "int \<Rightarrow> int \<Rightarrow> db \<Rightarrow> bool" where
  "held i lease d \<longleftrightarrow> (\<forall>c\<in>set (t_chunks d). kc_id c = i \<longrightarrow>
     kc_status c = Done \<or> (kc_status c = Running \<and> kc_lease_until c = Some lease))"

lemma held_update:
  "held i lease d \<Longrightarrow> (\<And>c. kc_id (f c) = kc_id c) \<Longrightarrow> j \<noteq> i \<Longrightarrow> held i lease (update_chunk j f d)"
  by (auto simp: held_def update_chunk_def split: if_splits)

lemma held_claim:
  assumes "held i lease d" and "claim_chunk None sid now d = Inr (r, d')" and "now \<le> lease"
  shows "held i lease d' \<and> (\<forall>c. r = Some c \<longrightarrow> cl_id c \<noteq> i)"
proof (cases r)
  case None
  then show ?thesis using assms claim_chunk_None by blast
next
  case (Some c)
  from assms(2) [unfolded Some] obtain k where k: "k \<in> set (t_chunks d)" "claimable sid now k" "cl_id c = kc_id k"
    "d' = update_chunk (kc_id k) (\<lambda>c. c\<lparr> kc_status := Running, kc_lease_until := Some (now + lease_duration) \<rparr>) d"
    by (rule claim_chunk_Some) (rule that)
  have "kc_id k \<noteq> i" using k(1,2) assms(1,3) by (auto simp: held_def claimable_def)
  then show ?thesis using k Some held_update [OF assms(1)] by simp
qed

lemma queue_op_held:
  assumes "run_queue_op op d = (r, d')" and "held i lease d" and "keeps_lease i lease op"
  shows "held i lease d' \<and> (\<forall>c. r = Some c \<longrightarrow> cl_id c \<noteq> i)"
proof (cases op)
  case (OpClaim sid now)
  obtain r1 where "claim_chunk None sid now d = Inr r1" by (simp add: claim_chunk_def)
  then show ?thesis using assms OpClaim held_claim by (cases r1) auto
next
  case (OpDone j)
  then show ?thesis using assms by (auto simp: mark_chunk_done_def held_def update_chunk_def)
next
  case (OpFail j e)
  then show ?thesis using assms by (auto simp: mark_chunk_failed_def intro!: held_update)
qed

text \<open>C14: Lease exclusivity. Once a worker has claimed a chunk, no claim made within its lease of five
  minutes returns that chunk, whatever the other workers do to the queue, as long as nobody marks
  this chunk as failed.\<close>

theorem claim_exclusive:
  assumes "claim_chunk None sid now d = Inr (Some c, d1)"
    and "\<forall>op\<in>set ops. keeps_lease (cl_id c) (now + lease_duration) op" and "queue_ops ops d1 = (cs, d2)"
  shows "cl_id c \<notin> cl_id ` set cs"
proof -
  have "held i lease d1 \<Longrightarrow> \<forall>op\<in>set ops. keeps_lease i lease op \<Longrightarrow> queue_ops ops d1 = (cs, d2) \<Longrightarrow>
      i \<notin> cl_id ` set cs" for i lease
  proof (induction ops arbitrary: d1 cs)
    case (Cons op ops)
    obtain r d3 cs' where o1: "run_queue_op op d1 = (r, d3)" and o2: "queue_ops ops d3 = (cs', d2)"
      and cs: "cs = (case r of None \<Rightarrow> cs' | Some c \<Rightarrow> c # cs')"
      using Cons.prems(3) by (auto split: prod.splits)
    have "keeps_lease i lease op" using Cons.prems(2) by simp
    note h = queue_op_held [OF o1 Cons.prems(1) this]
    then have "i \<notin> cl_id ` set cs'" using Cons.IH [OF _ _ o2] Cons.prems(2) by simp
    then show ?case using h cs by (auto split: option.splits)
  qed simp
  moreover have "held (cl_id c) (now + lease_duration) d1"
  proof -
    from assms(1) obtain k :: chunk_db where "cl_id c = kc_id k"
      "d1 = update_chunk (kc_id k) (\<lambda>c. c\<lparr> kc_status := Running, kc_lease_until := Some (now + lease_duration) \<rparr>) d"
      by (rule claim_chunk_Some) (rule that)
    then show ?thesis by (auto simp: held_def update_chunk_def split: if_splits)
  qed
  ultimately show ?thesis using assms(2,3) by blast
qed

definition example_chunk :: "int \<Rightarrow> chunk_db" where
  "example_chunk i = \<lparr> kc_id = i, kc_network = 1, kc_from = 5, kc_to = 5, kc_status = Pending,
     kc_lease_until = None, kc_last_error = None \<rparr>"

definition example_queue :: "chunk_db list \<Rightarrow> db" where
  "example_queue cs = empty_db\<lparr> t_chunks := cs, t_next_chunk := 10 \<rparr>"

lemmas queue_eval = claim_chunk_def mark_chunk_done_def mark_chunk_failed_def update_chunk_def
  claimable_def lease_duration_def example_queue_def example_chunk_def empty_db_def

lemma claim_exclusive_witness:
  "\<exists>c d1. claim_chunk None 1 0 (example_queue [example_chunk 1, example_chunk 2]) = Inr (Some c, d1) \<and>
     cl_id c = 1 \<and> 1 \<notin> cl_id ` set (fst (queue_ops [OpClaim 1 300, OpClaim 1 300] d1))"
proof -
  obtain c d1 where c: "claim_chunk None 1 0 (example_queue [example_chunk 1, example_chunk 2]) = Inr (Some c, d1)"
    "cl_id c = 1" by (simp add: queue_eval)
  obtain cs d2 where o: "queue_ops [OpClaim 1 300, OpClaim 1 300] d1 = (cs, d2)" by fastforce
  from claim_exclusive [OF c(1) _ o] c o show ?thesis by (simp add: lease_duration_def)
qed


lemma char_boundary_le: "char_boundary s n \<le> n"
  by (induction n) auto

lemma char_boundary_ok:
  "n < length s \<Longrightarrow> char_boundary s n = 0 \<or> \<not> is_cont (s ! char_boundary s n)"
  by (induction n) auto

text \<open>The error text kept with a chunk is the error itself up to the cap of 2048 bytes; a longer one
  is cut at a character boundary at or before the cap and an ellipsis is added, so that the stored
  text may exceed the cap by the three bytes of the ellipsis and no more.\<close>

theorem truncate_error_bounds:
  "length (truncate_error s) \<le> last_error_cap + 3 \<and>
   (if length s \<le> last_error_cap then truncate_error s = s
    else \<exists>n\<le>last_error_cap. truncate_error s = take n s @ ellipsis \<and> \<not> (n \<noteq> 0 \<and> is_cont (s ! n)))"
proof (cases "length s \<le> last_error_cap")
  case True
  then show ?thesis by (simp add: truncate_error_def)
next
  case False
  let ?n = "char_boundary s last_error_cap"
  have "?n \<le> last_error_cap" by (rule char_boundary_le)
  moreover have "\<not> (?n \<noteq> 0 \<and> is_cont (s ! ?n))" using False char_boundary_ok [of last_error_cap s] by simp
  moreover have "truncate_error s = take ?n s @ ellipsis" using False by (simp add: truncate_error_def)
  moreover have "length (take ?n s @ ellipsis) \<le> last_error_cap + 3"
    using calculation(1) by (simp add: ellipsis_def)
  ultimately show ?thesis using False by (metis (no_types, lifting))
qed

section \<open>Witnesses\<close>

text \<open>A database that holds the blocks zero to four, and the run of one worker that fetches block five.\<close>

definition example_row :: "int \<Rightarrow> block_row" where
  "example_row n = (pp_row example_prepared)\<lparr> br_hash := [word_of_int n] \<rparr>"

definition example_stored_db :: db where
  "example_stored_db = empty_db\<lparr>
     t_blocks := (\<lambda>(s, n). if s = 1 \<and> 0 \<le> n \<and> n < 5 then Some (block_db_of (example_row n) None) else None),
     t_block_hash := (\<lambda>(s, h). if s = 1 \<and> length h = 1 \<and> uint (hd h) < 5 then Some (uint (hd h)) else None) \<rparr>"

lemma example_existing: "existing_blocks 1 5 example_stored_db = [0, 1, 2, 3, 4]"
  by (simp add: existing_blocks_def example_stored_db_def range_incl_def upt_rec)

lemma example_seed:
  "seed_chunks \<lparr> sf_load = None, sf_begin = None, sf_insert = \<lambda>_. None, sf_commit = None \<rparr> 1 5 1000
     example_stored_db = Some (Inr 1, example_stored_db\<lparr> t_next_chunk := 2, t_chunks := [example_chunk 1] \<rparr>)"
proof -
  have p: "push_chunked [] 5 5 1000 = [(5, 5)]"
    by (subst push_chunked.simps) (simp add: Let_def sat_add_def min_def)
  have "split_gaps_into_chunks 5 [0, 1, 2, 3, 4] 1000 = Some [(5, 5)]"
    by (simp add: split_gaps_into_chunks_def sat_add_def p)
  then show ?thesis
    by (simp add: seed_chunks_def example_existing chunk_exists_def)
      (simp add: example_stored_db_def example_chunk_def empty_db_def)
qed


lemma example_sys_inv: "sys_inv (\<lambda>_. example_worker) (\<lambda>_. Idle, Map.empty, example_stored_db)"
proof -
  have "uint (word_of_int n :: u8) = n" if "0 \<le> n" "n < 5" for n
    using that by (simp add: unsigned_of_int take_bit_int_eq_self)
  then have "db_inv example_stored_db"
    by (auto simp: db_inv_def example_stored_db_def empty_db_def block_db_of_def example_row_def
        split: if_splits)
  then show ?thesis
    by (simp add: sys_inv_iff core_inv_def queue.served_def)
      (simp add: example_stored_db_def empty_db_def queue_wf_def chunk_tasks_def)
qed

definition example_work_env :: work_env where
  "example_work_env = \<lparr> we_now = 0, we_claim_fault = None, we_mark_fault = None,
     we_attempt = example_attempt, we_node = example_node \<rparr>"

lemma example_run:
  "\<exists>ph cache d. (sys_step (\<lambda>_. example_worker))\<^sup>*\<^sup>*
     (\<lambda>_. Idle, Map.empty, example_stored_db\<lparr> t_next_chunk := 2, t_chunks := [example_chunk 1] \<rparr>) (ph, cache, d) \<and>
     open_chunk_count None 1 d = Inr 0"
proof -
  let ?w = example_worker and ?env = example_work_env
  let ?d1 = "example_stored_db\<lparr> t_next_chunk := 2, t_chunks := [example_chunk 1] \<rparr>"
  let ?c = "\<lparr> cl_id = 1, cl_from_block = 5, cl_to_block = 5 \<rparr>"
  let ?d2 = "?d1\<lparr> t_chunks := [(example_chunk 1)\<lparr> kc_status := Running, kc_lease_until := Some 300 \<rparr>] \<rparr>"
  have s1: "backfill_step ?w ?env Idle (Map.empty, ?d1) = (Working ?c [5], Map.empty, ?d2)"
    by (simp add: queue_eval example_work_env_def range_incl_def example_worker_def)
  obtain r c3 d3 where b: "backfill_index_block example_attempt ?w example_node 5 (Map.empty, ?d2) = (r, c3, d3)"
    by (metis prod_cases3)
  have "t_block_hash ?d2 (1, br_hash (pp_row example_prepared)) = None"
    by (simp add: example_stored_db_def example_hash)
  then have "r = Inr ()"
    using example_job_ok [of ?d2 False Map.empty] b by (simp add: index_job_def example_job_def)
  then have s2: "backfill_step ?w ?env (Working ?c [5]) (Map.empty, ?d2) = (Working ?c [], c3, d3)"
    using b by (simp add: example_work_env_def)
  have t: "t_chunks d3 = t_chunks ?d2"
    using conjunct1 [OF backfill_index_block_step [OF b]] by (simp add: db_step_def)
  let ?d4 = "update_chunk 1 (\<lambda>c. c\<lparr> kc_status := Done, kc_lease_until := None, kc_last_error := None \<rparr>) d3"
  have s3: "backfill_step ?w ?env (Working ?c []) (c3, d3) = (Idle, c3, ?d4)"
    by (simp add: example_work_env_def mark_chunk_done_def)
  have step: "sys_step (\<lambda>_. ?w) ((\<lambda>_. Idle)(0 := p), st) ((\<lambda>_. Idle)(0 := p'), st')"
    if "backfill_step ?w ?env p st = (p', st')" for p st p' st'
    using sys_step.work [of "\<lambda>_. ?w" 0 ?env "(\<lambda>_. Idle)(0 := p)" st p' st'] that by simp
  from step [OF s1] step [OF s2] step [OF s3] have
    "(sys_step (\<lambda>_. ?w))\<^sup>*\<^sup>* ((\<lambda>_. Idle)(0 := Idle), Map.empty, ?d1) ((\<lambda>_. Idle)(0 := Idle), c3, ?d4)"
    by (meson converse_rtranclp_into_rtranclp rtranclp.rtrancl_refl)
  moreover have "open_chunk_count None 1 ?d4 = Inr 0"
    by (simp add: open_chunk_count_def update_chunk_def t) (simp add: example_chunk_def)
  moreover have "(\<lambda>_. Idle)(0 := Idle) = (\<lambda>_ :: nat. Idle)" by auto
  ultimately show ?thesis by metis
qed

lemma backfill_complete_witness:
  "\<exists>ph cache d. (sys_step (\<lambda>_. example_worker))\<^sup>*\<^sup>*
     (\<lambda>_. Idle, Map.empty, example_stored_db\<lparr> t_next_chunk := 2, t_chunks := [example_chunk 1] \<rparr>) (ph, cache, d) \<and>
     stored d 1 5"
proof -
  from example_run obtain ph cache d where r: "(sys_step (\<lambda>_. example_worker))\<^sup>*\<^sup>*
     (\<lambda>_. Idle, Map.empty, example_stored_db\<lparr> t_next_chunk := 2, t_chunks := [example_chunk 1] \<rparr>) (ph, cache, d)"
    "open_chunk_count None 1 d = Inr 0" by blast
  from backfill_complete [OF example_seed _ example_sys_inv r, of 5] r(1) show ?thesis by auto
qed


end
