(* ===== verification/SinkFacts.thy ===== *)
theory SinkFacts
  imports Replay
begin

text \<open>
  What the sink guarantees, and fails to guarantee, about single rows: the account row after any
  number of snapshots, the movement rows of a transfer to oneself, and the ATS registry when blocks
  are indexed out of order.
\<close>

section \<open>The account row\<close>

text \<open>The row after the snapshots of several blocks, in the order they arrive.\<close>

definition merge_snapshots :: "account_db list \<Rightarrow> account_db option \<Rightarrow> account_db option" where
  "merge_snapshots news cur = foldl (\<lambda>c n. Some (upsert_account n c)) cur news"

text \<open>The reference: the balances of the newest snapshot, the greatest nonce, the first and the last
  block and time.\<close>

definition is_merge :: "account_db list \<Rightarrow> account_db \<Rightarrow> bool" where
  "is_merge news r \<longleftrightarrow>
     (\<exists>n\<in>set news. (\<forall>m\<in>set news. ka_last_activity_block m \<le> ka_last_activity_block n) \<and>
        ka_free r = ka_free n \<and> ka_reserved r = ka_reserved n \<and> ka_frozen r = ka_frozen n \<and>
        ka_last_activity_block r = ka_last_activity_block n) \<and>
     ka_nonce r = Max (ka_nonce ` set news) \<and>
     ka_first_seen_block r = Min (ka_first_seen_block ` set news) \<and>
     ka_first_seen_ms r = Min (ka_first_seen_ms ` set news) \<and>
     ka_last_activity_ms r = Max (ka_last_activity_ms ` set news)"

lemma is_merge_single: "is_merge [n] n"
  by (simp add: is_merge_def)

lemma is_merge_snoc:
  assumes "is_merge news r" and "news \<noteq> []"
  shows "is_merge (news @ [n]) (upsert_account n (Some r))"
proof -
  from assms(1) obtain m where m: "m \<in> set news" "\<forall>k\<in>set news. ka_last_activity_block k \<le> ka_last_activity_block m"
    "ka_free r = ka_free m" "ka_reserved r = ka_reserved m" "ka_frozen r = ka_frozen m"
    "ka_last_activity_block r = ka_last_activity_block m" by (auto simp: is_merge_def)
  have "\<exists>x\<in>set (news @ [n]). (\<forall>k\<in>set (news @ [n]). ka_last_activity_block k \<le> ka_last_activity_block x) \<and>
     ka_free (upsert_account n (Some r)) = ka_free x \<and> ka_reserved (upsert_account n (Some r)) = ka_reserved x \<and>
     ka_frozen (upsert_account n (Some r)) = ka_frozen x \<and>
     ka_last_activity_block (upsert_account n (Some r)) = ka_last_activity_block x"
  proof (cases "ka_last_activity_block n \<ge> ka_last_activity_block m")
    case True
    then show ?thesis using m by (intro bexI [of _ n]) (auto simp: upsert_account_def Let_def)
  next
    case False
    then show ?thesis using m by (intro bexI [of _ m]) (auto simp: upsert_account_def Let_def)
  qed
  moreover have "Max (insert a (f ` set news)) = max (Max (f ` set news)) a"
    "Min (insert a (f ` set news)) = min (Min (f ` set news)) a" for a and f :: "account_db \<Rightarrow> int"
    using assms(2) by (simp_all add: max.commute min.commute)
  ultimately show ?thesis using assms(1) by (simp add: is_merge_def upsert_account_def Let_def)
qed

lemma merge_snapshots_is_merge:
  "news \<noteq> [] \<Longrightarrow> \<exists>r. merge_snapshots news None = Some r \<and> is_merge news r"
proof (induction news rule: rev_induct)
  case (snoc n news)
  show ?case
  proof (cases "news = []")
    case True
    then show ?thesis by (simp add: merge_snapshots_def upsert_account_def is_merge_single)
  next
    case False
    with snoc.IH obtain r where "merge_snapshots news None = Some r" "is_merge news r" by blast
    then show ?thesis using is_merge_snoc [OF _ False] by (simp add: merge_snapshots_def)
  qed
qed simp

section \<open>Properties\<close>

text \<open>C21: The account row equals its reference. After the snapshots of any blocks in any order, the row
  holds the balances of a snapshot of the greatest block, the greatest nonce, the least first-seen
  and the greatest last-activity.\<close>

theorem account_row_reference:
  assumes "news \<noteq> []"
  shows "\<exists>r. merge_snapshots news None = Some r \<and> is_merge news r"
  using assms by (rule merge_snapshots_is_merge)

lemma account_row_reference_witness:
  "\<exists>r. merge_snapshots [account_db_of 7 70 default_snapshot, account_db_of 3 30 default_snapshot] None = Some r \<and>
     is_merge [account_db_of 7 70 default_snapshot, account_db_of 3 30 default_snapshot] r"
  using account_row_reference [of "[account_db_of 7 70 default_snapshot, account_db_of 3 30 default_snapshot]"]
  by simp

text \<open>C34: A transfer from an account to itself is stored as a loss. Its two rows have the same primary
  key, the insert keeps the first and drops the second without an error, so the account's movements
  show minus the amount for a transfer that moved nothing.\<close>

theorem self_transfer_stored_as_loss:
  "map_ok (\<lambda>d. t_movements d (sid, sint b, sint i, a))
     (insert_movements_stmt sid (rows_of_event b i (EvTransfer a a n))
        (empty_db\<lparr> t_blocks := [(sid, sint b) \<mapsto> x] \<rparr>)) =
   Inr (Some \<lparr> km_kind = as_i16 MTransfer, km_delta = sint (- n), km_counterparty = Some a \<rparr>)"
  by (simp add: insert_movements_stmt_def two_rows_def movement_pk_def movement_db_of_def
      block_exists_def empty_db_def)


end
