(* ===== verification/Keyset.thy ===== *)
theory Keyset
  imports Prelude
begin

text \<open>
  Keyset pagination: the rows of a query in a strict order, a page of at most \<^verbatim>\<open>n\<close> of them found by
  asking for one more, and the next page as the rows after the last one of the page. The list
  queries over blocks, extrinsics and transfers and the account sweep are instances.
\<close>

locale keyset =
  fixes before :: "'r \<Rightarrow> 'r \<Rightarrow> bool"
  assumes irrefl: "\<not> before x x"
    and trans: "before x y \<Longrightarrow> before y z \<Longrightarrow> before x z"
begin

lemma asym: "before x y \<Longrightarrow> \<not> before y x"
  using irrefl trans by blast

text \<open>The rows after the last row of a page are the rest of the rows.\<close>

lemma filter_after_last:
  assumes "sorted_wrt before rows" and "0 < n" and "n \<le> length rows"
  shows "filter (before (last (take n rows))) rows = drop n rows"
proof -
  let ?l = "last (take n rows)"
  have ne: "take n rows \<noteq> []" using assms(2,3) by auto
  have s: "sorted_wrt before (take n rows @ drop n rows)" using assms(1) by simp
  obtain bs where bs: "take n rows = bs @ [?l]" using ne by (metis append_butlast_last_id)
  have sorted: "sorted_wrt before (bs @ [?l])" using s unfolding bs [symmetric] sorted_wrt_append by blast
  have "\<not> before ?l x" if "x \<in> set (take n rows)" for x
  proof (cases "x = ?l")
    case False
    then have "x \<in> set bs" using that bs by (metis UnE set_append set_ConsD empty_iff empty_set)
    then have "before x ?l" using sorted by (auto simp: sorted_wrt_append)
    then show ?thesis by (rule asym)
  qed (simp add: irrefl)
  moreover have "before ?l x" if "x \<in> set (drop n rows)" for x
    using s that last_in_set [OF ne] unfolding sorted_wrt_append by blast
  ultimately have "filter (before ?l) (take n rows) = []" "filter (before ?l) (drop n rows) = drop n rows"
    by (auto simp: filter_empty_conv filter_id_conv)
  then show ?thesis by (metis append_Nil append_take_drop_id filter_append)
qed

text \<open>Following the pages: the fuel is the number of pages at most.\<close>

fun pages :: "nat \<Rightarrow> nat \<Rightarrow> 'r list \<Rightarrow> 'r list list" where
  "pages 0 n rows = []"
| "pages (Suc f) n rows =
     (let probe = take (Suc n) rows in
      if length probe > n then take n probe # pages f n (filter (before (last (take n probe))) rows)
      else [probe])"

lemma pages_complete:
  assumes "sorted_wrt before rows" and "0 < n" and "length rows \<le> f"
  shows "concat (pages (Suc f) n rows) = rows \<and> (\<forall>p\<in>set (pages (Suc f) n rows). length p \<le> n)"
  using assms
proof (induction f arbitrary: rows)
  case 0
  then show ?case by simp
next
  case (Suc f)
  show ?case
  proof (cases "n < length rows")
    case True
    have "filter (before (last (take n rows))) rows = drop n rows"
      using filter_after_last [OF Suc.prems(1,2)] True by simp
    then have p: "pages (Suc (Suc f)) n rows = take n rows # pages (Suc f) n (drop n rows)"
      using True by (simp add: Let_def min_def)
    have "sorted_wrt before (drop n rows)" using Suc.prems(1) by (rule sorted_wrt_drop)
    moreover have "length (drop n rows) \<le> f" using Suc.prems(2,3) True by simp
    ultimately have "concat (pages (Suc f) n (drop n rows)) = drop n rows \<and>
      (\<forall>p\<in>set (pages (Suc f) n (drop n rows)). length p \<le> n)"
      using Suc.IH Suc.prems(2) by blast
    then show ?thesis unfolding p by (simp del: pages.simps)
  next
    case False
    then have "take (Suc n) rows = rows" by simp
    then have "pages (Suc (Suc f)) n rows = [rows]" using False by (simp add: Let_def)
    then show ?thesis using False by simp
  qed
qed

end

text \<open>Ascending and descending order of a key.\<close>

interpretation ascending: keyset "\<lambda>x y. (key x :: 'k::linorder) < key y" for key
  by unfold_locales auto

interpretation descending: keyset "\<lambda>x y. (key x :: 'k::linorder) > key y" for key
  by unfold_locales auto

text \<open>The rows of a table with different keys, newest first.\<close>

definition newest_first :: "('r \<Rightarrow> 'k::linorder) \<Rightarrow> 'r list \<Rightarrow> 'r list" where
  "newest_first key rows = rev (sort_key key rows)"

lemma set_newest_first [simp]: "set (newest_first key rows) = set rows"
  by (simp add: newest_first_def)

lemma length_newest_first [simp]: "length (newest_first key rows) = length rows"
  by (simp add: newest_first_def)

lemma sorted_newest_first:
  assumes "distinct (map key rows)"
  shows "sorted_wrt (\<lambda>x y. key x > key y) (newest_first key rows)"
proof -
  have "distinct (map key (sort_key key rows))"
    using assms by (simp add: distinct_map)
  then have "sorted_wrt (<) (map key (sort_key key rows))"
    by (simp add: strict_sorted_iff)
  then show ?thesis by (simp add: newest_first_def sorted_wrt_rev sorted_wrt_map)
qed

lemma newest_first_filter:
  "distinct (map key rows) \<Longrightarrow> filter p (newest_first key rows) = newest_first key (filter p rows)"
  by (simp add: newest_first_def filter_sort flip: rev_filter)

end
