(* ===== verification/Reconcile.thy ===== *)
theory Reconcile
  imports Replay Keyset "HOL-Library.List_Lexorder"
begin

text \<open>
  The drift fix of \<^verbatim>\<open>src/indexer/reconcile.rs\<close>: a keyset-paged walk over the account table that
  rewrites every balance from the state of the chain at one block. An account column is compared
  bytewise, which is the lexicographic order of byte lists.
\<close>

section \<open>The sweep\<close>

definition batch_size :: nat where "batch_size = 500"

record reconcile_report =
  rr_network_id :: string
  rr_head_block :: u64
  rr_accounts_scanned :: u64
  rr_rows_updated :: u64

record reconcile_faults =
  rf_scan :: "bytes \<Rightarrow> string option"
  rf_begin :: "bytes \<Rightarrow> string option"
  rf_update :: faults
  rf_commit :: "bytes \<Rightarrow> string option"

text \<open>The scan: the accounts of the network after the cursor, in order, at most a batch.\<close>

definition accounts_after :: "int \<Rightarrow> bytes \<Rightarrow> db \<Rightarrow> bytes set" where
  "accounts_after sid cursor d = {a. (sid, a) \<in> dom (t_accounts d) \<and> cursor < a}"

definition select_accounts :: "int \<Rightarrow> bytes \<Rightarrow> nat \<Rightarrow> db \<Rightarrow> bytes list" where
  "select_accounts sid cursor limit d = take limit (sorted_list_of_set (accounts_after sid cursor d))"

fun check_lengths :: "string \<Rightarrow> bytes list \<Rightarrow> bytes list data_result" where
  "check_lengths net [] = Inr []"
| "check_lengths net (v # vs) =
     (if length v \<noteq> 32 then Inl (Decode (''reconcile('' @ net @ ''): account column has unexpected length '' @ show_nat (length v)))
      else map_ok (\<lambda>as. v # as) (check_lengths net vs))"

text \<open>One batch after the scan: the fetch and the transaction.\<close>

definition reconcile_batch ::
  "reconcile_faults \<Rightarrow> string \<Rightarrow> int \<Rightarrow> runtime_kind \<Rightarrow> pinned_block \<Rightarrow> bytes \<Rightarrow> bytes list \<Rightarrow> db
   \<Rightarrow> (db \<times> nat) data_result" where
  "reconcile_batch rf net sid rk at cursor rows d =
     bind_r (check_lengths net rows) (\<lambda>accounts.
     bind_r (fetch_accounts_at at rk accounts) (\<lambda>snapshots.
     bind_r (case rf_begin rf cursor of
         Some e \<Rightarrow> Inl (Rpc (''reconcile('' @ net @ ''): begin tx: '' @ e)) | None \<Rightarrow> Inr ()) (\<lambda>_.
     bind_r (reconcile_account_balances (rf_update rf) sid snapshots d) (\<lambda>r.
     case rf_commit rf cursor of
         Some e \<Rightarrow> Inl (Rpc (''reconcile('' @ net @ ''): commit tx: '' @ e)) | None \<Rightarrow> Inr r))))"

definition add_report :: "nat \<Rightarrow> nat \<Rightarrow> reconcile_report \<Rightarrow> reconcile_report" where
  "add_report scanned updated r =
     r\<lparr> rr_accounts_scanned := sat_add (rr_accounts_scanned r) (word_of_nat scanned),
        rr_rows_updated := sat_add (rr_rows_updated r) (word_of_nat updated) \<rparr>"

lemma reconcile_rows_other:
  "k \<notin> (\<lambda>p. (sid, fst p)) ` set ps \<Longrightarrow> foldl (\<lambda>t p. reconcile_row sid p t) t ps k = t k"
  by (induction ps arbitrary: t) (auto simp: reconcile_row_def split: option.splits)

lemma reconcile_rows_dom: "dom (foldl (\<lambda>t p. reconcile_row sid p t) t ps) = dom t"
proof (induction ps arbitrary: t)
  case (Cons p ps)
  have "dom (reconcile_row sid p t) = dom t"
    by (auto simp: reconcile_row_def split: option.splits)
  then show ?case using Cons.IH by simp
qed simp

lemma reconcile_balances_dom:
  assumes "reconcile_account_balances flt sid ss d = Inr (d', n)"
  shows "dom (t_accounts d') = dom (t_accounts d)"
proof -
  have "(\<lambda>st. dom (t_accounts (fst st)) = dom (t_accounts d)) (d', n)"
    by (rule exec_chunks_keeps [OF assms [unfolded reconcile_account_balances_def]])
      (clarsimp simp: reconcile_stmt_def reconcile_rows_dom)+
  then show ?thesis by simp
qed

lemma reconcile_batch_dom:
  "reconcile_batch rf net sid rk at cursor rows d = Inr (d', n) \<Longrightarrow> dom (t_accounts d') = dom (t_accounts d)"
  unfolding reconcile_batch_def bind_r_Inr_iff
  by (elim exE conjE) (simp add: reconcile_balances_dom split: option.splits)

lemma select_accounts_last:
  assumes "select_accounts sid cursor n d \<noteq> []"
  shows "last (select_accounts sid cursor n d) \<in> accounts_after sid cursor d \<and> finite (accounts_after sid cursor d)"
proof -
  have fin: "finite (accounts_after sid cursor d)"
    using assms by (auto simp: select_accounts_def intro: ccontr)
  have "last (select_accounts sid cursor n d) \<in> set (sorted_list_of_set (accounts_after sid cursor d))"
    using assms unfolding select_accounts_def by (meson in_set_takeD last_in_set)
  then show ?thesis using fin by simp
qed

text \<open>The loop ends because the cursor passes the batch and no account is added.\<close>

function reconcile_loop ::
  "reconcile_faults \<Rightarrow> string \<Rightarrow> int \<Rightarrow> runtime_kind \<Rightarrow> pinned_block \<Rightarrow> bytes \<Rightarrow> reconcile_report \<Rightarrow> db
   \<Rightarrow> reconcile_report data_result \<times> db" where
  "reconcile_loop rf net sid rk at cursor report d =
     (case rf_scan rf cursor of
        Some e \<Rightarrow> (Inl (Rpc (''reconcile('' @ net @ ''): scan account_balances: '' @ e)), d)
      | None \<Rightarrow>
          (if select_accounts sid cursor batch_size d = [] then (Inr report, d)
           else (case reconcile_batch rf net sid rk at cursor (select_accounts sid cursor batch_size d) d of
               Inl e \<Rightarrow> (Inl e, d)
             | Inr (d', updated) \<Rightarrow>
                 (if length (select_accounts sid cursor batch_size d) < batch_size
                  then (Inr (add_report (length (select_accounts sid cursor batch_size d)) updated report), d')
                  else reconcile_loop rf net sid rk at (last (select_accounts sid cursor batch_size d))
                    (add_report (length (select_accounts sid cursor batch_size d)) updated report) d'))))"
  by auto
termination
proof (relation "measure (\<lambda>(rf, net, sid, rk, at, cursor, report, d). card (accounts_after sid cursor d))")
  fix rf net sid rk at cursor report and d :: db and r d' and updated :: nat
  assume ne: "select_accounts sid cursor batch_size d \<noteq> []"
    and b: "reconcile_batch rf net sid rk at cursor (select_accounts sid cursor batch_size d) d = Inr r"
    and r: "(d', updated) = r"
  let ?c = "last (select_accounts sid cursor batch_size d)"
  note l = select_accounts_last [OF ne]
  have "accounts_after sid ?c d' \<subset> accounts_after sid cursor d"
    using l reconcile_batch_dom [OF b [folded r]] by (auto simp: accounts_after_def)
  then show "((rf, net, sid, rk, at, ?c, add_report (length (select_accounts sid cursor batch_size d)) updated report, d'),
      rf, net, sid, rk, at, cursor, report, d)
      \<in> measure (\<lambda>(rf, net, sid, rk, at, cursor, report, d). card (accounts_after sid cursor d))"
    using l by (simp add: psubset_card_mono)
qed simp

declare reconcile_loop.simps [simp del]

definition reconcile_network ::
  "reconcile_faults \<Rightarrow> string \<Rightarrow> int \<Rightarrow> runtime_kind \<Rightarrow> unit data_result \<Rightarrow> pinned_block rpc \<Rightarrow> db
   \<Rightarrow> reconcile_report data_result \<times> db" where
  "reconcile_network rf net sid rk subxt current d =
     (case bind_r subxt (\<lambda>_. with_timeout ''reconcile: at_current_block''
         (\<lambda>e. Rpc (''reconcile('' @ net @ ''): at_current_block: '' @ e)) current) of
        Inl e \<Rightarrow> (Inl e, d)
      | Inr at \<Rightarrow> reconcile_loop rf net sid rk at []
          \<lparr> rr_network_id = net, rr_head_block = at_number at, rr_accounts_scanned = 0, rr_rows_updated = 0 \<rparr> d)"

text \<open>Every configured network in turn; a failure does not stop the others.\<close>

fun reconcile_all ::
  "(string \<Rightarrow> reconcile_faults) \<Rightarrow> (string \<rightharpoonup> int) \<Rightarrow> (string \<times> runtime_kind \<times> unit data_result \<times> pinned_block rpc) list
   \<Rightarrow> db \<Rightarrow> (string \<times> reconcile_report data_result) list \<times> db" where
  "reconcile_all rf by_name [] d = ([], d)"
| "reconcile_all rf by_name ((net, rk, subxt, current) # nets) d =
     (case (case network_resolve by_name net of
         Some sid \<Rightarrow> reconcile_network (rf net) net sid rk subxt current d
       | None \<Rightarrow> (Inl (Rpc (''reconcile('' @ net @ ''): network_id not registered in networks table'')), d)) of
       (res, d1) \<Rightarrow> (case reconcile_all rf by_name nets d1 of (out, d2) \<Rightarrow> ((net, res) # out, d2)))"


section \<open>What a sweep does\<close>

definition reconciled :: "account_snapshot \<Rightarrow> account_db \<Rightarrow> account_db" where
  "reconciled s old = old\<lparr> ka_free := unat (sn_free s), ka_reserved := unat (sn_reserved s),
     ka_frozen := unat (sn_frozen s), ka_nonce := max (ka_nonce old) (uint (sn_nonce s)) \<rparr>"

text \<open>What the chain says of an account at the block of the sweep.\<close>

definition head_snapshot :: "pinned_block \<Rightarrow> runtime_kind \<Rightarrow> bytes \<Rightarrow> account_snapshot" where
  "head_snapshot at rk a = (case fetch_account_at at rk a of Inr p \<Rightarrow> snd p | Inl _ \<Rightarrow> default_snapshot)"

lemma fetch_accounts_at_eq:
  "fetch_accounts_at at rk as = Inr ss \<Longrightarrow> ss = map (\<lambda>a. (a, head_snapshot at rk a)) as"
proof (induction as arbitrary: ss)
  case (Cons a as)
  from Cons.prems obtain s rest where s: "fetch_account_at at rk a = Inr s"
    and rest: "fetch_accounts_at at rk as = Inr rest" and ss: "ss = s # rest"
    by (auto simp: bind_r_Inr_iff)
  have "s = (a, head_snapshot at rk a)"
    using s fetch_account_at_key [OF s] by (cases s) (simp add: head_snapshot_def)
  then show ?case using Cons.IH [OF rest] ss by simp
qed simp

lemma check_lengths_Inr: "check_lengths net vs = Inr as \<Longrightarrow> as = vs \<and> (\<forall>v\<in>set vs. length v = 32)"
  by (induction vs arbitrary: as) (auto simp: map_ok_Inr_iff split: if_splits)

lemma reconcile_rows_eq:
  "distinct (map fst ps) \<Longrightarrow> (a, s) \<in> set ps \<Longrightarrow>
   foldl (\<lambda>t p. reconcile_row sid p t) t ps (sid, a) = map_option (reconciled s) (t (sid, a))"
proof (induction ps arbitrary: t)
  case (Cons p ps)
  show ?case
  proof (cases "p = (a, s)")
    case True
    then have "(sid, a) \<notin> (\<lambda>p. (sid, fst p)) ` set ps" using Cons.prems(1) by force
    then show ?thesis
      using True by (simp add: reconcile_rows_other)
        (auto simp: reconcile_row_def reconciled_def split: option.splits)
  next
    case False
    then have m: "(a, s) \<in> set ps" using Cons.prems(2) by simp
    then have "a \<in> set (map fst ps)" by (metis fst_conv image_eqI list.set_map)
    then have "a \<noteq> fst p" using Cons.prems(1) by (metis distinct.simps(2) list.simps(9))
    then have "reconcile_row sid p t (sid, a) = t (sid, a)"
      by (auto simp: reconcile_row_def split: option.splits)
    then show ?thesis using Cons.IH [OF _ m, of "reconcile_row sid p t"] Cons.prems(1) by simp
  qed
qed simp

lemma reconcile_balances_spec:
  assumes "reconcile_account_balances flt sid ss d = Inr (d', n)"
  shows "t_accounts d' = foldl (\<lambda>t p. reconcile_row sid p t) (t_accounts d) ss \<and>
    n = length (filter (\<lambda>p. (sid, fst p) \<in> dom (t_accounts d)) ss)"
proof -
  let ?cs = "chunks (max_binds_per_query div 5) ss"
  have cs: "concat ?cs = ss" by (simp add: max_binds_per_query_def)
  let ?g = "\<lambda>c t. foldl (\<lambda>t p. reconcile_row sid p t) t c"
  let ?h = "\<lambda>c x. (fst x, snd x + length (filter (\<lambda>p. (sid, fst p) \<in> fst x) c))"
  have "t_accounts (fst (d', n)) = fold ?g ?cs (t_accounts (fst (d, 0 :: nat)))"
    by (rule exec_chunks_fold [where proj = "\<lambda>st. t_accounts (fst st)" and g = ?g,
          OF assms [unfolded reconcile_account_balances_def]])
      (auto simp: reconcile_stmt_def)
  moreover have "fold (\<lambda>c t. foldl (\<lambda>t p. reconcile_row sid p t) t c) xs t =
      foldl (\<lambda>t p. reconcile_row sid p t) t (concat xs)" for xs t
    by (induction xs arbitrary: t) simp_all
  moreover have "(dom (t_accounts (fst (d', n))), snd (d', n)) =
      fold ?h ?cs (dom (t_accounts (fst (d, 0 :: nat))), snd (d, 0 :: nat))"
    by (rule exec_chunks_fold [where proj = "\<lambda>st. (dom (t_accounts (fst st)), snd st)" and g = ?h,
          OF assms [unfolded reconcile_account_balances_def]])
      (clarsimp simp: reconcile_stmt_def reconcile_rows_dom domIff)
  moreover have "fold ?h xs (D, k) = (D, k + length (filter (\<lambda>p. (sid, fst p) \<in> D) (concat xs)))"
      for xs :: "(bytes \<times> account_snapshot) list list" and D k
    by (induction xs arbitrary: k) simp_all
  ultimately show ?thesis using cs by simp
qed


text \<open>The table after the accounts in \<^verbatim>\<open>A\<close> have been rewritten.\<close>

definition swept :: "int \<Rightarrow> bytes set \<Rightarrow> pinned_block \<Rightarrow> runtime_kind \<Rightarrow> (int \<times> bytes \<rightharpoonup> account_db)
    \<Rightarrow> (int \<times> bytes \<rightharpoonup> account_db)" where
  "swept sid A at rk t = (\<lambda>(s, a). if s = sid \<and> a \<in> A then map_option (reconciled (head_snapshot at rk a)) (t (s, a))
     else t (s, a))"

lemma swept_swept: "A \<inter> B = {} \<Longrightarrow> swept sid B at rk (swept sid A at rk t) = swept sid (A \<union> B) at rk t"
  by (auto simp: swept_def fun_eq_iff)

lemma reconcile_batch_spec:
  assumes "reconcile_batch rf net sid rk at cursor rows d = Inr (d', n)" and "distinct rows"
    and "\<forall>a\<in>set rows. (sid, a) \<in> dom (t_accounts d)"
  shows "t_accounts d' = swept sid (set rows) at rk (t_accounts d) \<and> n = length rows"
proof -
  from assms(1) obtain ss where ss: "fetch_accounts_at at rk rows = Inr ss"
    and r: "reconcile_account_balances (rf_update rf) sid ss d = Inr (d', n)"
    unfolding reconcile_batch_def bind_r_Inr_iff
    by (elim exE conjE) (auto dest: check_lengths_Inr split: option.splits)
  note eq = fetch_accounts_at_eq [OF ss] and spec = reconcile_balances_spec [OF r]
  have fst: "map fst ss = rows" using eq by (simp add: comp_def)
  have "t_accounts d' (s, a) = swept sid (set rows) at rk (t_accounts d) (s, a)" for s a
  proof (cases "s = sid \<and> a \<in> set rows")
    case True
    then have "(a, head_snapshot at rk a) \<in> set ss" using eq by simp
    then show ?thesis
      using True spec reconcile_rows_eq [of ss a "head_snapshot at rk a" sid] fst assms(2)
      by (simp add: swept_def)
  next
    case False
    then have "(s, a) \<notin> (\<lambda>p. (sid, fst p)) ` set ss" using eq by auto
    then show ?thesis using False spec by (auto simp: swept_def reconcile_rows_other)
  qed
  moreover have "filter (\<lambda>p. (sid, fst p) \<in> dom (t_accounts d)) ss = ss"
    using assms(3) eq by (auto simp: filter_id_conv)
  ultimately show ?thesis using spec fst by (metis ext length_map old.prod.exhaust)
qed

text \<open>A batch takes the first accounts after the cursor; the rest are those after its last one.\<close>

lemma select_accounts_split:
  fixes sid cursor d
  defines "rows \<equiv> select_accounts sid cursor batch_size d"
  assumes "finite (accounts_after sid cursor d)" and "rows \<noteq> []"
  shows "distinct rows \<and> set rows \<subseteq> accounts_after sid cursor d \<and>
    (length rows < batch_size \<longrightarrow> set rows = accounts_after sid cursor d) \<and>
    (\<not> length rows < batch_size \<longrightarrow> accounts_after sid (last rows) d = accounts_after sid cursor d - set rows)"
proof -
  let ?xs = "sorted_list_of_set (accounts_after sid cursor d)"
  have xs: "sorted_wrt (<) ?xs" "distinct ?xs" "set ?xs = accounts_after sid cursor d"
    using assms(2) by (simp_all add: strict_sorted_list_of_set)
  have r: "rows = take batch_size ?xs" by (simp add: rows_def select_accounts_def)
  have 1: "distinct rows" "set rows \<subseteq> accounts_after sid cursor d"
    using xs set_take_subset [of batch_size ?xs] unfolding r by (simp_all add: distinct_take)
  have 2: "set rows = accounts_after sid cursor d" if "length rows < batch_size"
    using that xs(3) unfolding r by (simp add: min_def split: if_splits)
  have 3: "accounts_after sid (last rows) d = accounts_after sid cursor d - set rows"
    if "\<not> length rows < batch_size"
  proof -
    have len: "batch_size \<le> length ?xs" "0 < batch_size"
      using that assms(3) unfolding r by (simp_all add: batch_size_def min_def split: if_splits)
    have "last rows \<in> accounts_after sid cursor d" using 1 assms(3) by auto
    then have "accounts_after sid (last rows) d = {a \<in> accounts_after sid cursor d. last rows < a}"
      by (auto simp: accounts_after_def)
    also have "\<dots> = set (filter ((<) (last rows)) ?xs)" using xs(3) by auto
    also have "\<dots> = set (drop batch_size ?xs)"
      using ascending.filter_after_last [of "\<lambda>x. x" ?xs batch_size] xs(1) len by (simp add: r)
    also have "\<dots> = set ?xs - set rows"
      using xs(2) unfolding r by (metis Diff_cancel append_take_drop_id distinct_append Un_Diff Diff_triv inf_commute set_append sup_bot_left)
    finally show ?thesis using xs(3) by simp
  qed
  from 1 2 3 show ?thesis by blast
qed


definition rewritten :: "nat \<Rightarrow> reconcile_report \<Rightarrow> reconcile_report \<Rightarrow> bool" where
  "rewritten k r r' \<longleftrightarrow> rr_network_id r' = rr_network_id r \<and> rr_head_block r' = rr_head_block r \<and>
     unat (rr_accounts_scanned r') = min (unat (rr_accounts_scanned r) + k) (2 ^ 64 - 1) \<and>
     unat (rr_rows_updated r') = min (unat (rr_rows_updated r) + k) (2 ^ 64 - 1)"

lemma rewritten_add:
  "k \<le> batch_size \<Longrightarrow> rewritten k r (add_report k k r)"
  by (simp add: rewritten_def add_report_def unat_sat_add batch_size_def unsigned_of_nat take_bit_nat_eq_self)

lemma rewritten_refl: "rewritten 0 r r"
proof -
  have "unat w \<le> 2 ^ 64 - 1" for w :: u64 using unsigned_less [of w, where 'a = nat] by simp
  then show ?thesis by (simp add: rewritten_def)
qed

lemma rewritten_trans: "rewritten k a b \<Longrightarrow> rewritten j b c \<Longrightarrow> rewritten (k + j) a c"
  by (auto simp: rewritten_def min_def)

lemma reconcile_loop_spec:
  assumes "reconcile_loop rf net sid rk at cursor report d = (Inr report', d')"
    and "finite (accounts_after sid cursor d)"
  shows "t_accounts d' = swept sid (accounts_after sid cursor d) at rk (t_accounts d) \<and>
    rewritten (card (accounts_after sid cursor d)) report report'"
  using assms
proof (induction rf net sid rk at cursor report d rule: reconcile_loop.induct)
  case (1 rf net sid rk at cursor report d)
  let ?rows = "select_accounts sid cursor batch_size d" and ?A = "accounts_after sid cursor d"
  have scan: "rf_scan rf cursor = None"
    using "1.prems"(1) by (subst (asm) reconcile_loop.simps) (auto split: option.splits)
  show ?case
  proof (cases "?rows = []")
    case True
    then have "?A = {}" using "1.prems"(2) by (simp add: select_accounts_def batch_size_def)
    moreover have "report' = report" "d' = d"
      using "1.prems"(1) True scan by (subst (asm) reconcile_loop.simps, simp)+
    ultimately show ?thesis using rewritten_refl by (simp add: swept_def)
  next
    case False
    note sp = select_accounts_split [OF "1.prems"(2) False]
    obtain d1 n where b: "reconcile_batch rf net sid rk at cursor ?rows d = Inr (d1, n)"
      using "1.prems"(1) False scan
      by (subst (asm) reconcile_loop.simps) (auto split: sum.splits)
    have rest: "(if length ?rows < batch_size then (Inr (add_report (length ?rows) n report), d1)
        else reconcile_loop rf net sid rk at (last ?rows) (add_report (length ?rows) n report) d1) = (Inr report', d')"
      using "1.prems"(1) False scan b by (subst (asm) reconcile_loop.simps) simp
    have "distinct ?rows" "\<forall>a\<in>set ?rows. (sid, a) \<in> dom (t_accounts d)"
      using sp by (auto simp: accounts_after_def)
    note bs = reconcile_batch_spec [OF b this]
    have len: "length ?rows \<le> batch_size" by (simp add: select_accounts_def)
    have card: "card (set ?rows) = length ?rows" using sp by (simp add: distinct_card)
    show ?thesis
    proof (cases "length ?rows < batch_size")
      case True
      then have "report' = add_report (length ?rows) (length ?rows) report" "d' = d1" "set ?rows = ?A"
        using rest bs sp by simp_all
      then show ?thesis using bs rewritten_add [OF len] card by simp
    next
      case more: False
      then have run: "reconcile_loop rf net sid rk at (last ?rows) (add_report (length ?rows) n report) d1 = (Inr report', d')"
        using rest by simp
      have after: "accounts_after sid (last ?rows) d1 = ?A - set ?rows"
        using sp more reconcile_batch_dom [OF b] by (simp add: accounts_after_def)
      have "finite (accounts_after sid (last ?rows) d1)" using after "1.prems"(2) by simp
      from "1.IH" [OF scan False b refl more run this]
      have IH: "t_accounts d' = swept sid (?A - set ?rows) at rk (t_accounts d1)"
        "rewritten (card (?A - set ?rows)) (add_report (length ?rows) n report) report'"
        by (simp_all add: after)
      have "set ?rows \<union> (?A - set ?rows) = ?A" using sp by blast
      then have "t_accounts d' = swept sid ?A at rk (t_accounts d)"
        using IH(1) bs swept_swept [of "set ?rows" "?A - set ?rows"] by simp
      moreover have "length ?rows + card (?A - set ?rows) = card ?A"
        using card sp "1.prems"(2) by (metis card_Diff_subset card_mono finite_set le_add_diff_inverse)
      ultimately show ?thesis
        using rewritten_trans [OF rewritten_add [OF len, of report] IH(2) [unfolded conjunct2 [OF bs]]] by simp
    qed
  qed
qed

section \<open>Properties\<close>

text \<open>C13: A sweep that returns a report has rewritten every account row of the network exactly once: the
  balances are those of the chain at the block of the sweep, the nonce never goes down, the blocks
  and times of activity are left alone, so are the rows of the other networks; the report counts the
  rows of the network.\<close>

theorem reconcile_network_exact:
  assumes "reconcile_network rf net sid rk subxt current d = (Inr report, d')"
    and "finite (dom (t_accounts d))" and "\<forall>a. (sid, a) \<in> dom (t_accounts d) \<longrightarrow> a \<noteq> []"
  shows "\<exists>at. current = RpcOk at \<and> rr_head_block report = at_number at \<and>
    (\<forall>s a. t_accounts d' (s, a) = (if s = sid then map_option (reconciled (head_snapshot at rk a)) (t_accounts d (s, a))
       else t_accounts d (s, a))) \<and>
    unat (rr_accounts_scanned report) = min (card {a. (sid, a) \<in> dom (t_accounts d)}) (2 ^ 64 - 1) \<and>
    rr_rows_updated report = rr_accounts_scanned report"
proof -
  from assms(1) obtain at where at: "current = RpcOk at"
    and run: "reconcile_loop rf net sid rk at [] \<lparr> rr_network_id = net, rr_head_block = at_number at,
      rr_accounts_scanned = 0, rr_rows_updated = 0 \<rparr> d = (Inr report, d')"
    by (auto simp: reconcile_network_def with_timeout_def bind_r_Inr_iff split: sum.splits rpc.splits)
  have A: "accounts_after sid [] d = {a. (sid, a) \<in> dom (t_accounts d)}"
    using assms(3) by (auto simp: accounts_after_def neq_Nil_conv)
  have "finite {a. (sid, a) \<in> dom (t_accounts d)}"
    using finite_vimageI [OF assms(2), of "Pair sid"] by (simp add: vimage_def inj_def)
  from reconcile_loop_spec [OF run, unfolded A, OF this] have
    sw: "t_accounts d' = swept sid {a. (sid, a) \<in> dom (t_accounts d)} at rk (t_accounts d)" and
    rw: "rewritten (card {a. (sid, a) \<in> dom (t_accounts d)}) \<lparr> rr_network_id = net, rr_head_block = at_number at,
      rr_accounts_scanned = 0, rr_rows_updated = 0 \<rparr> report" by simp_all
  have "t_accounts d' (s, a) = (if s = sid then map_option (reconciled (head_snapshot at rk a)) (t_accounts d (s, a))
       else t_accounts d (s, a))" for s a
    using sw by (auto simp: swept_def domIff)
  then show ?thesis using at rw by (auto simp: rewritten_def word_unat_eq_iff)
qed


lemma Nil_less_iff: "[] < xs \<longleftrightarrow> xs \<noteq> []" for xs :: bytes
  by (cases xs) simp_all

definition example_accounts_db :: db where
  "example_accounts_db = empty_db\<lparr> t_accounts := [(1, replicate 32 7) \<mapsto> account_db_of 3 30 default_snapshot] \<rparr>"

lemma reconcile_network_exact_witness:
  "\<exists>report d'. reconcile_network \<lparr> rf_scan = \<lambda>_. None, rf_begin = \<lambda>_. None, rf_update = no_faults, rf_commit = \<lambda>_. None \<rparr>
      ''allfeat'' 1 Allfeat (Inr ()) (RpcOk (example_at 9 [] [])) example_accounts_db = (Inr report, d') \<and>
    unat (rr_accounts_scanned report) = 1"
proof -
  let ?rf = "\<lparr> rf_scan = \<lambda>_. None, rf_begin = \<lambda>_. None, rf_update = no_faults, rf_commit = \<lambda>_. None \<rparr>"
  let ?a = "replicate 32 7 :: bytes"
  have A: "accounts_after 1 [] example_accounts_db = {?a}"
    by (auto simp: accounts_after_def example_accounts_db_def Nil_less_iff)
  then have s: "select_accounts 1 [] batch_size example_accounts_db = [?a]"
    by (simp add: select_accounts_def batch_size_def)
  have one: "Suc 0 < batch_size" by (simp add: batch_size_def)
  have c: "chunks (max_binds_per_query div 5) [x] = [[x]]" for x :: "bytes \<times> account_snapshot"
    by (subst chunks.simps) (simp add: max_binds_per_query_def chunks.simps)
  obtain d' n where b: "reconcile_batch ?rf ''allfeat'' 1 Allfeat (example_at 9 [] []) [] [?a] example_accounts_db = Inr (d', n)"
    by (simp add: reconcile_batch_def fetch_account_at_def example_at_def reconcile_account_balances_def c
        reconcile_stmt_def)
  have "\<exists>report. reconcile_network ?rf ''allfeat'' 1 Allfeat (Inr ()) (RpcOk (example_at 9 [] [])) example_accounts_db = (Inr report, d')"
  proof -
    have "reconcile_loop ?rf ''allfeat'' 1 Allfeat (example_at 9 [] []) [] r example_accounts_db =
        (Inr (add_report 1 n r), d')" for r
      using b by (subst reconcile_loop.simps) (simp add: s one)
    then show ?thesis by (simp add: reconcile_network_def with_timeout_def)
  qed
  then obtain report where r: "reconcile_network ?rf ''allfeat'' 1 Allfeat (Inr ()) (RpcOk (example_at 9 [] [])) example_accounts_db = (Inr report, d')"
    by blast
  have d: "dom (t_accounts example_accounts_db) = {(1, ?a)}" by (simp add: example_accounts_db_def)
  from reconcile_network_exact [OF r] d r show ?thesis by auto
qed

end
