(* ===== verification/Paging.thy ===== *)
theory Paging
  imports Keyset Cursor
begin

text \<open>
  The cursor contract of the list endpoints: \<^verbatim>\<open>ORDER BY key DESC LIMIT n\<close> over a finite table, the
  page built from one row more than asked for, and the client that follows \<^verbatim>\<open>next_cursor\<close> until
  there is none. The locale \<^verbatim>\<open>paged_query\<close> states what a list query owes that client; the queries
  over blocks, extrinsics, transfers and ATS are interpretations of it.
\<close>

section \<open>Rows and pages\<close>

text \<open>The keys of a set, greatest first: \<^verbatim>\<open>ORDER BY key DESC\<close>.\<close>

definition desc_keys :: "'k::linorder set \<Rightarrow> 'k list" where
  "desc_keys K = rev (sorted_list_of_set K)"

definition last_opt :: "'a list \<Rightarrow> 'a option" where
  "last_opt xs = (if xs = [] then None else Some (last xs))"

text \<open>The fetch-N+1 page: a probe of at most one row more than the page, the surplus row dropped, the
  cursor of the last row kept.\<close>

definition page_of :: "('r \<Rightarrow> 'a) \<Rightarrow> ('r \<Rightarrow> string) \<Rightarrow> nat \<Rightarrow> 'r list \<Rightarrow> 'a page" where
  "page_of conv tok n probe =
     (let has_more = length probe > n;
          kept = (if has_more then take n probe else probe)
      in \<lparr> pg_items = map conv kept,
           pg_info = \<lparr> pi_total = None,
             pi_next_cursor = (if has_more then map_option tok (last_opt kept) else None),
             pi_has_more = has_more \<rparr> \<rparr>)"

text \<open>The client: it asks for the next page with the cursor it was given, until there is none. The
  fuel bounds the number of requests; \<^verbatim>\<open>None\<close> is an error or the fuel used up.\<close>

fun follow :: "(page_request \<Rightarrow> 'a page data_result) \<Rightarrow> u32 \<Rightarrow> nat \<Rightarrow> string option \<Rightarrow> 'a list option" where
  "follow q n 0 c = None"
| "follow q n (Suc f) c = (case q \<lparr> pr_count = n, pr_cursor = c \<rparr> of
       Inl e \<Rightarrow> None
     | Inr p \<Rightarrow> (case pi_next_cursor (pg_info p) of
           None \<Rightarrow> Some (pg_items p)
         | Some c' \<Rightarrow> map_option ((@) (pg_items p)) (follow q n f (Some c'))))"

lemma set_desc_keys [simp]: "finite K \<Longrightarrow> set (desc_keys K) = K"
  by (simp add: desc_keys_def)

lemma sorted_desc_keys: "sorted_wrt (\<lambda>x y. y < x) (desc_keys K)"
  by (simp add: desc_keys_def sorted_wrt_rev strict_sorted_list_of_set)

lemma distinct_desc_keys [simp]: "distinct (desc_keys K)"
  by (simp add: desc_keys_def)

lemma sorted_list_filter:
  assumes "finite K"
  shows "filter p (sorted_list_of_set K) = sorted_list_of_set {k \<in> K. p k}"
  using assms
  by (intro sorted_distinct_set_unique) (simp_all add: sorted_filter [where f = id, simplified])

lemma desc_keys_filter:
  "finite K \<Longrightarrow> filter p (desc_keys K) = desc_keys {k \<in> K. p k}"
  by (simp add: desc_keys_def sorted_list_filter flip: rev_filter)

lemma desc_keys_empty [simp]: "desc_keys {} = []"
  by (simp add: desc_keys_def)

lemma page_of_take [simp]: "n < m \<Longrightarrow> page_of conv tok n (take m rows) = page_of conv tok n rows"
  by (simp add: page_of_def Let_def min_def)

section \<open>The contract\<close>

text \<open>Two pages a client cannot tell apart while it follows the cursors: the total may differ.\<close>

definition same_page :: "'a page \<Rightarrow> 'a page \<Rightarrow> bool" where
  "same_page p q \<longleftrightarrow> pg_items p = pg_items q \<and> pi_next_cursor (pg_info p) = pi_next_cursor (pg_info q)"

lemma same_page_refl [simp]: "same_page p p"
  by (simp add: same_page_def)

locale paged_query =
  fixes query :: "'d \<Rightarrow> page_request \<Rightarrow> 'a page data_result"
    and good :: "'d \<Rightarrow> bool"
    and rows :: "'d \<Rightarrow> 'r list"
    and key :: "'r \<Rightarrow> 'k::linorder"
    and conv :: "'d \<Rightarrow> 'r \<Rightarrow> 'a"
    and tok :: "'r \<Rightarrow> string"
  assumes newest_first: "good d \<Longrightarrow> sorted_wrt (\<lambda>x y. key y < key x) (rows d)"
    and first_page: "good d \<Longrightarrow> 0 < unat n \<Longrightarrow> unat n < 2 ^ 32 - 1 \<Longrightarrow>
      \<exists>p. query d \<lparr> pr_count = n, pr_cursor = None \<rparr> = Inr p \<and>
        same_page p (page_of (conv d) tok (unat n) (rows d))"
    and next_page: "good d \<Longrightarrow> 0 < unat n \<Longrightarrow> unat n < 2 ^ 32 - 1 \<Longrightarrow>
      r \<in> set (rows d) \<Longrightarrow> y \<in> set (rows d) \<Longrightarrow> key y < key r \<Longrightarrow>
      \<exists>p. query d \<lparr> pr_count = n, pr_cursor = Some (tok r) \<rparr> = Inr p \<and>
        same_page p (page_of (conv d) tok (unat n) (filter (\<lambda>x. key x < key r) (rows d)))"
begin

lemma rest_of_rows:
  assumes "good d" and "xs @ r # ys = rows d"
  shows "filter (\<lambda>x. key x < key r) (rows d) = ys"
proof -
  have "sorted_wrt (\<lambda>x y. key y < key x) (xs @ r # ys)" using newest_first assms by simp
  then have "filter (\<lambda>x. key x < key r) xs = []" "filter (\<lambda>x. key x < key r) ys = ys"
    by (auto simp: sorted_wrt_append filter_empty_conv filter_id_conv dest: less_imp_not_less)
  then show ?thesis using assms(2) [symmetric] by simp
qed

text \<open>The pages after a row are the rows after it.\<close>

lemma follow_rest:
  assumes "good d" and "0 < unat n" and "unat n < 2 ^ 32 - 1"
  shows "xs @ r # ys = rows d \<Longrightarrow> ys \<noteq> [] \<Longrightarrow> length ys \<le> f \<Longrightarrow>
    follow (query d) n f (Some (tok r)) = Some (map (conv d) ys)"
proof (induction f arbitrary: xs r ys)
  case (Suc f)
  then obtain y zs where ys: "ys = y # zs" by (cases ys) auto
  have "sorted_wrt (\<lambda>x y. key y < key x) (xs @ r # y # zs)"
    using newest_first [OF assms(1)] Suc.prems(1) ys by simp
  then have "key y < key r" by (simp add: sorted_wrt_append)
  moreover have "r \<in> set (rows d)" "y \<in> set (rows d)" using ys by (auto simp flip: Suc.prems(1))
  ultimately obtain p where
    p: "query d \<lparr> pr_count = n, pr_cursor = Some (tok r) \<rparr> = Inr p"
      "pg_items p = pg_items (page_of (conv d) tok (unat n) ys)"
      "pi_next_cursor (pg_info p) = pi_next_cursor (pg_info (page_of (conv d) tok (unat n) ys))"
    using next_page [OF assms, of r y] rest_of_rows [OF assms(1) Suc.prems(1)] by (auto simp: same_page_def)
  show ?case
  proof (cases "unat n < length ys")
    case True
    let ?l = "last (take (unat n) ys)"
    have ne: "take (unat n) ys \<noteq> []" using assms(2) Suc.prems(2) by auto
    have "butlast (take (unat n) ys) @ [?l] @ drop (unat n) ys = ys"
      using append_butlast_last_id [OF ne] by (metis append_assoc append_take_drop_id)
    then have "(xs @ r # butlast (take (unat n) ys)) @ ?l # drop (unat n) ys = rows d"
      using Suc.prems(1) by simp
    from Suc.IH [OF this] have "follow (query d) n f (Some (tok ?l)) = Some (map (conv d) (drop (unat n) ys))"
      using True Suc.prems(3) assms(2) by simp
    then show ?thesis
      using p True ne by (simp add: page_of_def last_opt_def Let_def flip: map_append)
  next
    case False
    then show ?thesis using p by (simp add: page_of_def)
  qed
qed simp

lemma follow_complete:
  assumes "good d" and "0 < unat n" and "unat n < 2 ^ 32 - 1" and "length (rows d) \<le> f"
  shows "follow (query d) n (Suc f) None = Some (map (conv d) (rows d))"
proof -
  let ?ys = "rows d"
  from first_page [OF assms(1-3)] obtain p where
    p: "query d \<lparr> pr_count = n, pr_cursor = None \<rparr> = Inr p"
      "pg_items p = pg_items (page_of (conv d) tok (unat n) ?ys)"
      "pi_next_cursor (pg_info p) = pi_next_cursor (pg_info (page_of (conv d) tok (unat n) ?ys))" unfolding same_page_def by blast
  show ?thesis
  proof (cases "unat n < length ?ys")
    case True
    let ?l = "last (take (unat n) ?ys)"
    have ne: "take (unat n) ?ys \<noteq> []" using assms(2) True by auto
    have "butlast (take (unat n) ?ys) @ ?l # drop (unat n) ?ys = ?ys"
      using append_butlast_last_id [OF ne] by (metis append.assoc append_Cons append_Nil append_take_drop_id)
    from follow_rest [OF assms(1-3) this] have
      "follow (query d) n f (Some (tok ?l)) = Some (map (conv d) (drop (unat n) ?ys))"
      using True assms(2,4) by simp
    then show ?thesis
      using p True ne by (simp add: page_of_def last_opt_def Let_def flip: map_append)
  next
    case False
    then show ?thesis using p by (simp add: page_of_def)
  qed
qed

end

end
