(* ===== verification/BlockQueries.thy ===== *)
theory BlockQueries
  imports Paging Filters Ss58 Replay "HOL-Library.List_Lexorder"
begin

text \<open>
  The block reads of \<^verbatim>\<open>src/data/indexed/queries/blocks.rs\<close> over the tables of the sink. The argument
  \<^verbatim>\<open>enc\<close> is \<^verbatim>\<open>encode_ss58_bytes\<close> with its hash and alphabet; \<^verbatim>\<open>flt\<close> is the error of the database, if
  any, and \<^verbatim>\<open>dbg\<close> the \<^verbatim>\<open>Debug\<close> text of the arguments, which only an error message shows.
\<close>

section \<open>Reading\<close>

definition run_query :: "string option \<Rightarrow> string \<Rightarrow> 'a \<Rightarrow> 'a data_result" where
  "run_query flt label a = (case flt of Some e \<Rightarrow> Inl (Rpc (label @ '': '' @ e)) | None \<Rightarrow> Inr a)"

definition block_nums :: "int \<Rightarrow> db \<Rightarrow> int set" where
  "block_nums sid d = {n. (sid, n) \<in> dom (t_blocks d)}"

text \<open>The left join with the author table: the identifier is its primary key.\<close>

definition author_bytes :: "db \<Rightarrow> int \<Rightarrow> bytes option" where
  "author_bytes d i = (case sorted_list_of_set {k. t_authors d k = Some i} of
       [] \<Rightarrow> None | k # _ \<Rightarrow> Some (snd k))"

type_synonym block_out = "int \<times> block_db \<times> bytes option"

definition block_out :: "int \<Rightarrow> db \<Rightarrow> int \<Rightarrow> block_out" where
  "block_out sid d n = (let k = the (t_blocks d (sid, n)) in
     (n, k, Option.bind (kb_author_id k) (author_bytes d)))"

definition row_to_block :: "(bytes \<Rightarrow> u16 \<Rightarrow> string option) \<Rightarrow> u16 \<Rightarrow> block_out \<Rightarrow> block" where
  "row_to_block enc pfx r = (case r of (num, k, author) \<Rightarrow>
     (let (author_ss58, author_name) = (case Option.bind author (\<lambda>b. enc b pfx) of
            Some ss58 \<Rightarrow> (ss58, short_label ss58)
          | None \<Rightarrow> (''unknown'', ''unknown''))
      in \<lparr> bk_number = word_of_int num, bk_hash = hex_bytes (kb_hash k),
           bk_parent_hash = hex_bytes (kb_parent_hash k), bk_state_root = hex_bytes (kb_state_root k),
           bk_extrinsics_root = hex_bytes (kb_extrinsics_root k), bk_timestamp_ms = kb_timestamp_ms k,
           bk_finalized = True, bk_extrinsic_count = word_of_int (max (kb_extrinsic_count k) 0),
           bk_event_count = word_of_int (max (kb_event_count k) 0), bk_author = author_ss58,
           bk_author_name = author_name, bk_ref_time = word_of_int (max (kb_ref_time k) 0),
           bk_ref_time_pct = word_of_int (min (max (kb_ref_time_pct k) 0) 100),
           bk_proof_size = word_of_int (max (kb_proof_size k) 0),
           bk_spec_version = word_of_int (max (kb_spec_version k) 0),
           bk_size_bytes = word_of_int (max (kb_size_bytes k) 0) \<rparr>))"

definition indexed_head :: "string option \<Rightarrow> int \<Rightarrow> db \<Rightarrow> u64 option data_result" where
  "indexed_head flt sid d = run_query flt (''indexed_head(net='' @ show_int sid @ '')'')
     (case desc_keys (block_nums sid d) of [] \<Rightarrow> None | n # _ \<Rightarrow> Some (word_of_int n))"

definition block_by_number ::
  "(bytes \<Rightarrow> u16 \<Rightarrow> string option) \<Rightarrow> string option \<Rightarrow> int \<Rightarrow> u64 \<Rightarrow> u16 \<Rightarrow> db \<Rightarrow> block option data_result" where
  "block_by_number enc flt sid num pfx d =
     run_query flt (''block_by_number(net='' @ show_int sid @ ''/'' @ show_word num @ '')'')
       (if sint num \<in> block_nums sid d then Some (row_to_block enc pfx (block_out sid d (sint num))) else None)"

definition latest_blocks ::
  "(bytes \<Rightarrow> u16 \<Rightarrow> string option) \<Rightarrow> string option \<Rightarrow> string \<Rightarrow> int \<Rightarrow> u32 \<Rightarrow> u64 option \<Rightarrow> u16 \<Rightarrow> db \<Rightarrow> block list data_result" where
  "latest_blocks enc flt dbg sid count from_num pfx d =
     (if count = 0 then Inr []
      else map_ok (map (row_to_block enc pfx)) (run_query flt (''latest_blocks('' @ dbg @ '')'')
        (map (block_out sid d) (take (unat count) (desc_keys (case from_num of
            Some f \<Rightarrow> {n \<in> block_nums sid d. n \<le> sint f}
          | None \<Rightarrow> block_nums sid d))))))"

definition rows_to_page ::
  "(bytes \<Rightarrow> u16 \<Rightarrow> string option) \<Rightarrow> block_out list \<Rightarrow> u32 \<Rightarrow> u16 \<Rightarrow> block page" where
  "rows_to_page enc rows count pfx =
     (let has_more = length rows > unat count;
          kept = (if has_more then take (unat count) rows else rows);
          next_cursor = (if has_more
            then map_option (\<lambda>row. show_block_cursor (BlockCursor (word_of_int (max (fst row) 0)))) (last_opt kept)
            else None)
      in \<lparr> pg_items = map (row_to_block enc pfx) kept,
           pg_info = \<lparr> pi_total = None, pi_next_cursor = next_cursor, pi_has_more = has_more \<rparr> \<rparr>)"

definition num_bound :: "block_cursor option \<Rightarrow> u64 option \<Rightarrow> int option" where
  "num_bound cursor upper_bound = (case (cursor, upper_bound) of
       (Some c, Some upper) \<Rightarrow> Some (sint (min upper (sat_sub (bc_block c) 1)))
     | (Some c, None) \<Rightarrow> Some (sint (sat_sub (bc_block c) 1))
     | (None, Some upper) \<Rightarrow> Some (sint upper)
     | (None, None) \<Rightarrow> None)"

definition block_where :: "block_filters \<Rightarrow> int option \<Rightarrow> int \<Rightarrow> db \<Rightarrow> int \<Rightarrow> bool" where
  "block_where filters bound sid d n \<longleftrightarrow>
     (case bound of Some b \<Rightarrow> n \<le> b | None \<Rightarrow> True) \<and>
     (case bf_min_extrinsics filters of
        Some m \<Rightarrow> kb_extrinsic_count (the (t_blocks d (sid, n))) \<ge> sint m | None \<Rightarrow> True)"

definition list_blocks_page_bounded ::
  "(bytes \<Rightarrow> u16 \<Rightarrow> string option) \<Rightarrow> string option \<Rightarrow> string \<Rightarrow> int \<Rightarrow> u32 \<Rightarrow> block_cursor option \<Rightarrow> u64 option
   \<Rightarrow> block_filters \<Rightarrow> u16 \<Rightarrow> db \<Rightarrow> block page data_result" where
  "list_blocks_page_bounded enc flt dbg sid count cursor upper_bound filters pfx d =
     (if count = 0 then Inr empty_page
      else if bf_finalized filters = Some False then Inr empty_page
      else map_ok (\<lambda>rows. rows_to_page enc rows count pfx)
        (run_query flt (''list_blocks_page('' @ dbg @ '')'')
          (map (block_out sid d) (take (unat (sat_add count 1)) (desc_keys
            {n \<in> block_nums sid d. block_where filters (num_bound cursor upper_bound) sid d n})))))"

definition list_blocks_page ::
  "(bytes \<Rightarrow> u16 \<Rightarrow> string option) \<Rightarrow> string option \<Rightarrow> string \<Rightarrow> int \<Rightarrow> page_request \<Rightarrow> block_filters \<Rightarrow> u16 \<Rightarrow> db
   \<Rightarrow> block page data_result" where
  "list_blocks_page enc flt dbg sid req filters pfx d =
     bind_r (parse_cursor block_cursor_from_str req) (\<lambda>cursor.
     list_blocks_page_bounded enc flt dbg sid (pr_count req) cursor None filters pfx d)"

section \<open>Pages\<close>

definition block_key_token :: "int \<Rightarrow> string" where
  "block_key_token n = show_block_cursor (BlockCursor (word_of_int (max n 0)))"

definition blocks_ok :: "int \<Rightarrow> db \<Rightarrow> bool" where
  "blocks_ok sid d \<longleftrightarrow> finite (dom (t_blocks d)) \<and> (\<forall>n\<in>block_nums sid d. 0 \<le> n \<and> n < 2 ^ 63)"

definition matching_blocks :: "block_filters \<Rightarrow> int \<Rightarrow> db \<Rightarrow> int set" where
  "matching_blocks filters sid d = {n \<in> block_nums sid d. block_where filters None sid d n}"

lemma finite_block_nums: "finite (dom (t_blocks d)) \<Longrightarrow> finite (block_nums sid d)"
  using finite_vimageI [of "dom (t_blocks d)" "Pair sid"]
  by (simp add: block_nums_def vimage_def inj_def)

lemma rows_to_page_map:
  "rows_to_page enc (map (block_out sid d) ns) count pfx =
     page_of (\<lambda>n. row_to_block enc pfx (block_out sid d n)) block_key_token (unat count) ns"
  by (simp add: rows_to_page_def page_of_def block_key_token_def last_opt_def block_out_def Let_def
      take_map last_map comp_def)

lemma sint_word_of_int_small: "0 \<le> n \<Longrightarrow> n < 2 ^ 63 \<Longrightarrow> sint (word_of_int n :: u64) = n"
  by (simp add: int_word_sint mod_pos_pos_trivial)

lemma unat_probe: "unat count < 2 ^ 32 - 1 \<Longrightarrow> unat (sat_add count 1) = Suc (unat count)" for count :: u32
  by (simp add: unat_sat_add)

text \<open>The bound a cursor gives, on the numbers of the table.\<close>

lemma cursor_bound:
  assumes "0 < n" and "n < 2 ^ 63"
  shows "num_bound (Some (BlockCursor (word_of_int n))) None = Some (n - 1)"
proof -
  have u: "unat (word_of_int n :: u64) = nat n"
    using assms by (simp add: unat_eq_nat_uint uint_word_of_int_eq take_bit_int_eq_self)
  then have "(1 :: u64) \<le> word_of_int n" using assms by (simp add: word_le_nat_alt)
  then have "sat_sub (word_of_int n :: u64) 1 = word_of_int (n - 1)" by (simp add: sat_sub_def)
  then show ?thesis using assms sint_word_of_int_small [of "n - 1"] by (simp add: num_bound_def)
qed

text \<open>The page of a request, whatever its cursor.\<close>

lemma list_blocks_page_eq:
  assumes "0 < unat n" and "unat n < 2 ^ 32 - 1" and "bf_finalized filters \<noteq> Some False"
    and "parse_cursor block_cursor_from_str \<lparr> pr_count = n, pr_cursor = c \<rparr> = Inr bc"
  shows "list_blocks_page enc None dbg sid \<lparr> pr_count = n, pr_cursor = c \<rparr> filters pfx d =
    Inr (page_of (\<lambda>n. row_to_block enc pfx (block_out sid d n)) block_key_token (unat n)
      (desc_keys {k \<in> block_nums sid d. block_where filters (num_bound bc None) sid d k}))"
proof -
  have "n \<noteq> 0" using assms(1) by auto
  then show ?thesis
    using assms unat_probe [OF assms(2)]
    by (simp add: list_blocks_page_def list_blocks_page_bounded_def run_query_def rows_to_page_map)
qed

interpretation blocks: paged_query
  "\<lambda>d req. list_blocks_page enc None dbg sid req filters pfx d"
  "\<lambda>d. blocks_ok sid d \<and> bf_finalized filters \<noteq> Some False"
  "\<lambda>d. desc_keys (matching_blocks filters sid d)"
  "\<lambda>n. n"
  "\<lambda>d n. row_to_block enc pfx (block_out sid d n)"
  block_key_token for enc dbg sid filters pfx
proof
  fix d and n :: u32 and r y :: int
  let ?M = "matching_blocks filters sid d"
  assume g: "blocks_ok sid d \<and> bf_finalized filters \<noteq> Some False"
  have fin: "finite ?M" using finite_block_nums g by (simp add: matching_blocks_def blocks_ok_def)
  show "sorted_wrt (\<lambda>x y. y < x) (desc_keys ?M)" by (rule sorted_desc_keys)
  assume n: "0 < unat n" "unat n < 2 ^ 32 - 1"
  show "\<exists>p. list_blocks_page enc None dbg sid \<lparr> pr_count = n, pr_cursor = None \<rparr> filters pfx d = Inr p \<and>
      same_page p (page_of (\<lambda>n. row_to_block enc pfx (block_out sid d n)) block_key_token (unat n) (desc_keys ?M))"
    using list_blocks_page_eq [OF n, of filters None None] g
    by (simp add: parse_cursor_def num_bound_def matching_blocks_def)
  assume mem: "r \<in> set (desc_keys ?M)" "y \<in> set (desc_keys ?M)" "y < r"
  then have r: "0 < r" "r < 2 ^ 63" using g fin by (fastforce simp: matching_blocks_def blocks_ok_def)+
  have "{k \<in> block_nums sid d. block_where filters (Some (r - 1)) sid d k} = {k \<in> ?M. k < r}"
    by (auto simp: matching_blocks_def block_where_def)
  then show "\<exists>p. list_blocks_page enc None dbg sid \<lparr> pr_count = n, pr_cursor = Some (block_key_token r) \<rparr> filters pfx d = Inr p \<and>
      same_page p (page_of (\<lambda>n. row_to_block enc pfx (block_out sid d n)) block_key_token (unat n)
        (filter (\<lambda>x. x < r) (desc_keys ?M)))"
    using list_blocks_page_eq [OF n, of filters "Some (block_key_token r)"] g r
    by (simp add: block_key_token_def block_codec.parse_cursor_shw cursor_bound [OF r] desc_keys_filter [OF fin])
qed


section \<open>Reading back what the indexer wrote\<close>

definition authors_ok :: "store \<Rightarrow> bool" where
  "authors_ok st \<longleftrightarrow> (case st of (cache, d) \<Rightarrow>
     (\<forall>k i. t_authors d k = Some i \<longrightarrow> i < t_next_author d) \<and>
     (\<forall>k k' i. t_authors d k = Some i \<longrightarrow> t_authors d k' = Some i \<longrightarrow> k = k') \<and>
     (\<forall>k i. cache k = Some i \<longrightarrow> t_authors d k = Some i))"

lemma author_bytes_eq:
  assumes "\<forall>k'. t_authors d k' = Some i \<longrightarrow> k' = (sid, bs)" and "t_authors d (sid, bs) = Some i"
  shows "author_bytes d i = Some bs"
proof -
  have "{k. t_authors d k = Some i} = {(sid, bs)}" using assms by blast
  then show ?thesis by (simp add: author_bytes_def)
qed

lemma author_resolve_ok:
  assumes "authors_ok (cache, d)" and "author_resolve flt sid bs (cache, d) = (Inr i, cache', d')"
  shows "authors_ok (cache', d') \<and> author_bytes d' i = Some bs"
proof -
  have inj: "\<And>k k' i. t_authors d k = Some i \<Longrightarrow> t_authors d k' = Some i \<Longrightarrow> k = k'"
    and lt: "\<And>k i. t_authors d k = Some i \<Longrightarrow> i < t_next_author d"
    and co: "\<And>k i. cache k = Some i \<Longrightarrow> t_authors d k = Some i"
    using assms(1) by (auto simp: authors_ok_def)
  show ?thesis
  proof (cases "cache (sid, bs)")
    case (Some j)
    then have "j = i" "cache' = cache" "d' = d" using assms(2) by (simp_all add: author_resolve_def)
    then show ?thesis using assms(1) author_bytes_eq [OF _ co [OF Some]] inj [OF _ co [OF Some]] by simp
  next
    case None
    let ?i = "case t_authors d (sid, bs) of Some i \<Rightarrow> i | None \<Rightarrow> t_next_author d"
    have d': "i = ?i" "cache' = cache((sid, bs) \<mapsto> ?i)"
      "d' = d\<lparr> t_authors := (t_authors d)((sid, bs) \<mapsto> ?i), t_next_author := t_next_author d + 1 \<rparr>"
      using assms(2) None by (auto simp: author_resolve_def Let_def split: option.splits)
    have only: "k' = (sid, bs)" if "t_authors d k' = Some ?i" for k'
      using that inj lt [of k'] by (cases "t_authors d (sid, bs)") (simp_all split: if_splits)
    have "?i < t_next_author d + 1" using lt [of "(sid, bs)"] by (cases "t_authors d (sid, bs)") (simp_all add: less_imp_le)
    moreover have "j < t_next_author d + 1" if "t_authors d k = Some j" for k j using lt [OF that] by simp
    ultimately have "authors_ok (cache', d')"
      using inj co only None unfolding d' authors_ok_def by auto
    moreover have "author_bytes d' i = Some bs"
      using only by (intro author_bytes_eq [where sid = sid]) (auto simp: d')
    ultimately show ?thesis by blast
  qed
qed

text \<open>The ATS statements touch the two ATS tables only.\<close>

definition ats_frame :: "db \<Rightarrow> db \<Rightarrow> bool" where
  "ats_frame d d' \<longleftrightarrow> t_authors d' = t_authors d \<and> t_blocks d' = t_blocks d"

lemma apply_ats_frame:
  assumes "apply_ats flt sid ops d = Inr d'"
  shows "ats_frame d d'"
proof -
  from assms obtain d1 d2 d3 where
    1: "registry_inserts ops = [] \<and> d1 = d \<or> registry_stmt sid (registry_inserts ops) d = Inr d1" and
    2: "version_inserts ops = [] \<and> d2 = d1 \<or> versions_stmt sid (version_inserts ops) d1 = Inr d2" and
    3: "exec_each flt StBump (\<lambda>b e. Rpc (''bump_version_count(net='' @ show_int sid @ ''/'' @
         show_word (vb_ats_id b) @ '', '' @ show_word (vb_version_count b) @ ''): '' @ e))
         (bump_version_count sid) 0 (version_count_bumps ops) d2 = Inr d3" and
    4: "exec_each flt StRevoke (\<lambda>i e. Rpc (''revoke_ats(net='' @ show_int sid @ ''/'' @ show_word i @
         ''): '' @ e)) (revoke_ats sid) 0 (revocations ops) d3 = Inr d'"
    unfolding apply_ats_def bind_r_Inr_iff by (fastforce simp: run_stmt_Inr_iff split: if_splits)
  have "ats_frame d d2" using 1 2 by (auto simp: ats_frame_def registry_stmt_def versions_stmt_def map_ok_Inr_iff)
  then have "ats_frame d d3"
    by (rule exec_each_keeps [OF 3]) (auto simp: ats_frame_def bump_version_count_def split: option.splits)
  then show ?thesis by (rule exec_each_keeps [OF 4]) (simp add: ats_frame_def revoke_ats_def)
qed

lemma write_block_stored:
  assumes "write_block flt w n p a d = Inr d'" and "t_blocks d (wk_sid w, sint (br_num (pp_row p))) = None"
  shows "t_blocks d' (wk_sid w, sint (br_num (pp_row p))) = Some (block_db_of (pp_row p) a) \<and> t_authors d' = t_authors d"
proof -
  let ?sid = "wk_sid w" and ?ts = "br_timestamp_ms (pp_row p)"
  from assms(1) obtain b d1 d2 d3 d4 d5 d6 where
    1: "insert_block flt ?sid (pp_row p) a d = Inr (b, d1)" and
    2: "insert_extrinsics flt ?sid ?ts (pp_extrinsics p) d1 = Inr d2" and
    3: "insert_events flt ?sid ?ts (pp_events p) d2 = Inr d3" and
    4: "insert_balance_movements flt ?sid (pp_movements p) d3 = Inr d4" and
    5: "apply_account_snapshots flt StSnapshots ?sid n ?ts (pp_snapshots p) d4 = Inr d5" and
    6: "(if n = 0 then apply_account_snapshots flt StGenesisSnapshots ?sid 0 ?ts (pp_genesis p) d5
         else Inr d5) = Inr d6" and
    7: "apply_ats flt ?sid (pp_ats p) d6 = Inr d'"
    unfolding write_block_def Let_def bind_r_Inr_iff
    by (clarsimp simp: bind_r_Inr_iff split: prod.splits)
  have "t_blocks d1 (?sid, sint (br_num (pp_row p))) = Some (block_db_of (pp_row p) a) \<and> t_authors d1 = t_authors d"
    using 1 assms(2) by (auto simp: insert_block_def run_stmt_Inr_iff Let_def split: option.splits)
  moreover have "t_blocks d6 = t_blocks d1 \<and> t_authors d6 = t_authors d1"
    using 6 apply_account_snapshots_eq [OF 5]
    by (auto simp: insert_movements_eq [OF 4] insert_events_eq [OF 3] insert_extrinsics_eq [OF 2]
        dest!: apply_account_snapshots_eq split: if_splits)
  ultimately show ?thesis using apply_ats_frame [OF 7] by (simp add: ats_frame_def)
qed

text \<open>What a successful run of either worker leaves of a block that was not there.\<close>

lemma index_job_stored:
  assumes "index_job w j (cache, d) = (Inr (), cache', d')" and "authors_ok (cache, d)"
    and "t_blocks d (wk_sid w, sint (jb_num j)) = None"
  shows "\<exists>p a. prepare_block w (jb_node j) (jb_num j) = Inr p \<and>
    t_blocks d' (wk_sid w, sint (jb_num j)) = Some (block_db_of (pp_row p) a) \<and>
    Option.bind a (author_bytes d') = br_author (pp_row p)"
proof -
  let ?n = "jb_num j" and ?an = "jb_attempt j"
  obtain p where p: "prepare_block w (jb_node j) ?n = Inr p"
    using assms(1) by (cases "prepare_block w (jb_node j) ?n")
      (auto simp: index_job_def live_index_block_def backfill_index_block_def split: if_splits)
  obtain ra c0 d0 where ra: "resolve_author_id ?an w p (cache, d) = (ra, c0, d0)" by (metis prod_cases3)
  have num: "br_num (pp_row p) = ?n" by (rule prepare_block_num [OF p])
  obtain a d1 where a: "ra = Inr a" and wb: "write_block (an_faults ?an) w ?n p a d0 = Inr d1"
    and d1: "t_blocks d' = t_blocks d1 \<and> t_authors d' = t_authors d1"
    using assms(1) p ra
    by (cases ra) (auto simp: index_job_def live_index_block_def backfill_index_block_def in_tx_def
        bind_r_Inr_iff run_stmt_def bump_cursor_def split: if_splits sum.splits option.splits)
  have "same_but_authors d d0" using resolve_author_id_db [OF ra] .
  then have "t_blocks d0 (wk_sid w, sint (br_num (pp_row p))) = None"
    using assms(3) num by (auto simp: same_but_authors_def)
  note stored = write_block_stored [OF wb this]
  have "Option.bind a (author_bytes d0) = br_author (pp_row p)"
  proof (cases "br_author (pp_row p)")
    case None
    then show ?thesis using ra a by (simp add: resolve_author_id_def)
  next
    case (Some bs)
    obtain i where i: "author_resolve (an_author_fault ?an) (wk_sid w) bs (cache, d) = (Inr i, c0, d0)" "a = Some i"
      using ra a Some by (auto simp: resolve_author_id_def map_ok_Inr_iff split: prod.splits)
    show ?thesis using author_resolve_ok [OF assms(2) i(1)] Some i(2) by simp
  qed
  moreover have "author_bytes d' = author_bytes d0" using d1 stored by (intro ext) (simp add: author_bytes_def)
  ultimately show ?thesis using p stored d1 num by auto
qed

text \<open>A value the signed column holds comes back as it was.\<close>

lemma signed_column_32: "unat w < 2 ^ 31 \<Longrightarrow> word_of_int (max (sint w) 0) = w" for w :: u32
proof -
  assume "unat w < 2 ^ 31"
  then have "int (unat w) < int (2 ^ 31)" by (simp only: of_nat_less_iff)
  then have "uint w < 2 ^ 31" by simp
  then have "sint w = uint w" by (simp only: sint_uint) (auto intro!: signed_take_bit_int_eq_self intro: order_trans [of _ 0])
  then show ?thesis by simp
qed

lemma signed_column_64: "unat w < 2 ^ 63 \<Longrightarrow> word_of_int (max (sint w) 0) = w" for w :: u64
proof -
  assume "unat w < 2 ^ 63"
  then have "int (unat w) < int (2 ^ 63)" by (simp only: of_nat_less_iff)
  then have "uint w < 2 ^ 63" by simp
  then have "sint w = uint w" by (simp only: sint_uint) (auto intro!: signed_take_bit_int_eq_self intro: order_trans [of _ 0])
  then show ?thesis by simp
qed

definition block_fits :: "block \<Rightarrow> bool" where
  "block_fits b \<longleftrightarrow> unat (bk_extrinsic_count b) < 2 ^ 31 \<and> unat (bk_event_count b) < 2 ^ 31 \<and>
     unat (bk_spec_version b) < 2 ^ 31 \<and> unat (bk_size_bytes b) < 2 ^ 31 \<and>
     unat (bk_ref_time b) < 2 ^ 63 \<and> unat (bk_proof_size b) < 2 ^ 63"

text \<open>The block of the RPC path, field by field, from the row of the indexer.\<close>

lemma blocks_map_cases:
  assumes "blocks_map at n rk = Inr row"
  obtains hdr ts author ec se rt ps pct evts where "fetch_header at = Inr hdr" "fetch_timestamp at rk = Inr ts"
    "resolve_author_bytes at (hd_digest hdr) rk = Inr author" "fetch_extrinsics_summary at = Inr (ec, se)"
    "fetch_weights at rk = Inr (rt, ps, pct)" "fetch_block_events at = Inr (map Inr evts)"
    "row = \<lparr> br_num = n, br_hash = at_hash at, br_parent_hash = hd_parent_hash hdr,
       br_state_root = hd_state_root hdr, br_extrinsics_root = hd_extrinsics_root hdr,
       br_author = author, br_timestamp_ms = ts, br_spec_version = at_spec_version at, br_extrinsic_count = ec,
       br_event_count = word_of_nat (length evts), br_ref_time = rt, br_proof_size = ps,
       br_ref_time_pct = pct, br_size_bytes = word_of_nat (hd_encoded_size hdr + se) \<rparr>"
proof -
  from assms obtain hdr ts author e w evs evts where f: "fetch_header at = Inr hdr" "fetch_timestamp at rk = Inr ts"
    "resolve_author_bytes at (hd_digest hdr) rk = Inr author" "fetch_extrinsics_summary at = Inr e"
    "fetch_weights at rk = Inr w" "fetch_block_events at = Inr evs" "collect_ok decode_event_err evs = Inr evts"
    and row: "\<lparr> br_num = n, br_hash = at_hash at, br_parent_hash = hd_parent_hash hdr,
       br_state_root = hd_state_root hdr, br_extrinsics_root = hd_extrinsics_root hdr,
       br_author = author, br_timestamp_ms = ts, br_spec_version = at_spec_version at, br_extrinsic_count = fst e,
       br_event_count = word_of_nat (length evts), br_ref_time = fst w, br_proof_size = fst (snd w),
       br_ref_time_pct = snd (snd w), br_size_bytes = word_of_nat (hd_encoded_size hdr + snd e) \<rparr> = row"
    unfolding blocks_map_def bind_r_Inr_iff case_prod_beta by blast
  show ?thesis
    by (rule that [OF f(1-3), of "fst e" "snd e" "fst w" "fst (snd w)" "snd (snd w)" evts])
      (use f row in \<open>auto simp: collect_ok_Inr_iff\<close>)
qed

lemma map_block_row:
  assumes "map_block encode at fin rk pfx = Inr b" and "blocks_map at n rk = Inr row"
  shows "b = \<lparr> bk_number = at_number at, bk_hash = hex_bytes (br_hash row),
    bk_parent_hash = hex_bytes (br_parent_hash row), bk_state_root = hex_bytes (br_state_root row),
    bk_extrinsics_root = hex_bytes (br_extrinsics_root row), bk_timestamp_ms = br_timestamp_ms row,
    bk_finalized = (at_number at \<le> fin), bk_extrinsic_count = br_extrinsic_count row,
    bk_event_count = br_event_count row,
    bk_author = (case br_author row of None \<Rightarrow> ''unknown'' | Some a \<Rightarrow> encode a pfx),
    bk_author_name = (case br_author row of None \<Rightarrow> ''unknown'' | Some a \<Rightarrow> short_label (encode a pfx)),
    bk_ref_time = br_ref_time row, bk_ref_time_pct = br_ref_time_pct row,
    bk_proof_size = br_proof_size row, bk_spec_version = br_spec_version row, bk_size_bytes = br_size_bytes row \<rparr>"
proof -
  from assms(2) obtain hdr ts author ec se rt ps pct evts where
    f: "fetch_header at = Inr hdr" "fetch_timestamp at rk = Inr ts" "fetch_extrinsics_summary at = Inr (ec, se)"
      "fetch_weights at rk = Inr (rt, ps, pct)" "fetch_block_events at = Inr (map Inr evts)"
    and a: "resolve_author_bytes at (hd_digest hdr) rk = Inr author"
    and row: "row = \<lparr> br_num = n, br_hash = at_hash at, br_parent_hash = hd_parent_hash hdr,
       br_state_root = hd_state_root hdr, br_extrinsics_root = hd_extrinsics_root hdr,
       br_author = author, br_timestamp_ms = ts, br_spec_version = at_spec_version at, br_extrinsic_count = ec,
       br_event_count = word_of_nat (length evts), br_ref_time = rt, br_proof_size = ps,
       br_ref_time_pct = pct, br_size_bytes = word_of_nat (hd_encoded_size hdr + se) \<rparr>"
    by (rule blocks_map_cases)
  have "resolve_author encode at (hd_digest hdr) rk pfx = Inr (case author of None \<Rightarrow> (''unknown'', ''unknown'')
      | Some x \<Rightarrow> (encode x pfx, short_label (encode x pfx)))"
    using a by (auto simp: resolve_author_def resolve_author_bytes_def bind_r_Inr_iff Let_def split: option.splits)
  then show ?thesis
    using assms(1) f row by (cases author) (simp_all add: map_block_def hash_string_def)
qed

lemma blocks_map_pct:
  assumes "blocks_map at n rk = Inr row"
  shows "word_of_int (min (max (uint (br_ref_time_pct row)) 0) 100) = br_ref_time_pct row"
proof -
  from assms obtain rt ps pct where w: "fetch_weights at rk = Inr (rt, ps, pct)" and row: "br_ref_time_pct row = pct"
    by (rule blocks_map_cases) simp
  from w obtain v where "(rt, ps, pct) = (case v of None \<Rightarrow> (0, 0, 0)
      | Some consumed \<Rightarrow> (let (ref_time, proof_size) = weight_total consumed;
                max_block = (case at_max_block at rk of None \<Rightarrow> 0 | Some m \<Rightarrow> m)
            in (ref_time, proof_size, ref_time_percent ref_time max_block)))"
    unfolding fetch_weights_def map_ok_Inr_iff by blast
  then have "unat pct \<le> 100"
    by (cases v) (auto simp: Let_def weight_total_def intro: ref_time_percent_le)
  then have "int (unat pct) \<le> int 100" by (simp only: of_nat_le_iff)
  then have "uint pct \<le> 100" by simp
  then show ?thesis by (simp add: row min_def)
qed

lemma blocks_map_author:
  assumes "blocks_map at n rk = Inr row" and "br_author row = Some a"
    and "\<And>vs. at_validators at rk = RpcOk (Value vs) \<Longrightarrow> \<forall>v\<in>set vs. length v = 32"
  shows "length a = 32"
proof -
  from assms(1) obtain hdr :: header where "resolve_author_bytes at (hd_digest hdr) rk = Inr (Some a)"
    by (rule blocks_map_cases) (use assms(2) in \<open>auto intro: that\<close>)
  then obtain slot vs where "fetch_validators at rk = Inr (Some vs)" "author_from_slot slot vs = Some a"
    by (auto simp: resolve_author_bytes_def bind_r_Inr_iff split: option.splits)
  then have "at_validators at rk = RpcOk (Value vs)" "a \<in> set vs"
    by (auto simp: fetch_validators_def fetch_storage_def with_timeout_def bind_r_Inr_iff
        split: rpc.splits stored.splits dest: author_from_slot_mem)
  then show ?thesis using assms(3) by blast
qed

section \<open>Properties\<close>


definition example_block_db :: "int \<Rightarrow> block_db" where
  "example_block_db n = \<lparr> kb_hash = [word_of_int n], kb_parent_hash = [], kb_state_root = [],
     kb_extrinsics_root = [], kb_author_id = None, kb_timestamp_ms = 6000 * n, kb_spec_version = 1,
     kb_extrinsic_count = 2, kb_event_count = 3, kb_ref_time = 5, kb_proof_size = 7,
     kb_ref_time_pct = 4, kb_size_bytes = 100 \<rparr>"

definition example_blocks_db :: db where
  "example_blocks_db = empty_db\<lparr> t_blocks := [(1, 0) \<mapsto> example_block_db 0, (1, 1) \<mapsto> example_block_db 1,
     (1, 2) \<mapsto> example_block_db 2] \<rparr>"

lemma example_block_nums: "block_nums 1 example_blocks_db = {0, 1, 2}"
  by (auto simp: block_nums_def example_blocks_db_def)

lemma example_blocks_ok: "blocks_ok 1 example_blocks_db"
  using example_block_nums by (simp add: blocks_ok_def) (simp add: example_blocks_db_def)


text \<open>C10: What is indexed is what the node says. After a worker indexed a block that was not stored,
  the indexed read of that block returns exactly the block the RPC path would have built from the same
  node answers, author address and label included, provided the counters fit the signed columns.\<close>

theorem indexed_block_equals_rpc:
  assumes "index_job w j (cache, d) = (Inr (), cache', d')" and "authors_ok (cache, d)"
    and "t_blocks d (wk_sid w, sint (jb_num j)) = None"
    and "nd_at_block (jb_node j) (jb_num j) = RpcOk at" and "at_number at = jb_num j" and "jb_num j \<le> fin"
    and "map_block (encode_ss58 blake2b512 to_base58) at fin (wk_runtime_kind w) pfx = Inr b" and "block_fits b"
    and "\<And>vs. at_validators at (wk_runtime_kind w) = RpcOk (Value vs) \<Longrightarrow> \<forall>v\<in>set vs. length v = 32"
  shows "block_by_number (encode_ss58_bytes blake2b512 to_base58) None (wk_sid w) (jb_num j) pfx d' = Inr (Some b)"
proof -
  obtain p a where p: "prepare_block w (jb_node j) (jb_num j) = Inr p"
    and st: "t_blocks d' (wk_sid w, sint (jb_num j)) = Some (block_db_of (pp_row p) a)"
    and a: "Option.bind a (author_bytes d') = br_author (pp_row p)"
    using index_job_stored [OF assms(1-3)] by blast
  have row: "blocks_map at (jb_num j) (wk_runtime_kind w) = Inr (pp_row p)"
    using p assms(4) by (auto simp: prepare_block_def with_timeout_def Let_def bind_r_Inr_iff)
  note b = map_block_row [OF assms(7) row]
  note fits = assms(8) [unfolded b block_fits_def, simplified]
  have len: "br_author (pp_row p) = Some x \<Longrightarrow> length x = 32" for x
    using blocks_map_author [OF row] assms(9) by blast
  have mem: "sint (jb_num j) \<in> block_nums (wk_sid w) d'" using st by (simp add: block_nums_def domIff)
  have "row_to_block (encode_ss58_bytes blake2b512 to_base58) pfx (block_out (wk_sid w) d' (sint (jb_num j))) = b"
    using fits a assms(5,6) blocks_map_pct [OF row]
    by (cases "br_author (pp_row p)")
      (simp_all add: b row_to_block_def block_out_def st block_db_of_def Let_def signed_column_32 signed_column_64
        encode_ss58_bytes_def len)
  then show ?thesis using mem by (simp add: block_by_number_def run_query_def)
qed

lemma example_map_block:
  "\<exists>b. map_block encode (example_at 5
     [example_event ''Balances'' ''Transfer'' (ApplyExtrinsic 1) (example_fields [1] [2] 500)] []) 9 Allfeat 42 = Inr b \<and>
   block_fits b"
  by (simp add: map_block_def fetch_header_def fetch_timestamp_def fetch_storage_def resolve_author_def aura_slot_def
      fetch_extrinsics_summary_def fetch_weights_def fetch_block_events_def example_at_def with_timeout_def block_fits_def)

lemma indexed_block_equals_rpc_witness:
  "\<exists>cache d' b. index_job example_worker (example_job False) (Map.empty, empty_db) = (Inr (), cache, d') \<and>
     block_by_number (encode_ss58_bytes (\<lambda>_. []) (\<lambda>_. [])) None 1 5 42 d' = Inr (Some b)"
proof -
  obtain r cache d' where j: "index_job example_worker (example_job False) (Map.empty, empty_db) = (r, cache, d')"
    by (metis prod_cases3)
  then have r: "r = Inr ()" using example_job_ok [of empty_db False Map.empty] by (simp add: empty_db_def)
  let ?at = "example_at 5 [example_event ''Balances'' ''Transfer'' (ApplyExtrinsic 1) (example_fields [1] [2] 500)] []"
  obtain b where b: "map_block (encode_ss58 (\<lambda>_. []) (\<lambda>_. [])) ?at 9 Allfeat 42 = Inr b" "block_fits b"
    using example_map_block by blast
  have "authors_ok (Map.empty, empty_db)" by (simp add: authors_ok_def empty_db_def)
  moreover have "t_blocks empty_db (wk_sid example_worker, sint (jb_num (example_job False))) = None"
    by (simp add: empty_db_def)
  moreover have "nd_at_block (jb_node (example_job False)) (jb_num (example_job False)) = RpcOk ?at"
    "at_number ?at = jb_num (example_job False)" "jb_num (example_job False) \<le> 9"
    "wk_runtime_kind example_worker = Allfeat" "wk_sid example_worker = 1"
    by (simp_all add: example_job_def example_node_def example_worker_def) (simp add: example_at_def)
  ultimately have "block_by_number (encode_ss58_bytes (\<lambda>_. []) (\<lambda>_. [])) None 1 (jb_num (example_job False)) 42 d' = Inr (Some b)"
    using indexed_block_equals_rpc [OF j [unfolded r], of ?at 9 "\<lambda>_. []" "\<lambda>_. []" 42 b] b
    by (simp add: example_at_def)
  then show ?thesis using j r by (auto simp: example_job_def)
qed

text \<open>The cursor of block 0 is not exclusive. The page after block 0 should be empty; the
  saturating subtraction turns the cursor into the bound 0 and the page holds block 0 again.\<close>

theorem block_cursor_zero_repeats:
  assumes "blocks_ok sid d" and "0 \<in> block_nums sid d" and "0 < unat n" and "unat n < 2 ^ 32 - 1"
  shows "map_ok (\<lambda>p. map bk_number (pg_items p)) (list_blocks_page enc None dbg sid
      \<lparr> pr_count = n, pr_cursor = Some (show_block_cursor (BlockCursor 0)) \<rparr> no_block_filters pfx d) = Inr [0]"
proof -
  have b: "num_bound (Some (BlockCursor 0)) None = Some 0" by (simp add: num_bound_def sat_sub_def)
  have "{k \<in> block_nums sid d. block_where no_block_filters (Some 0) sid d k} = {0}"
    using assms(1,2) by (force simp: blocks_ok_def block_where_def no_block_filters_def)
  moreover have "desc_keys {0 :: int} = [0]" by (simp add: desc_keys_def)
  ultimately show ?thesis
    using list_blocks_page_eq [OF assms(3,4), of no_block_filters "Some (show_block_cursor (BlockCursor 0))"] assms(3)
    by (simp add: block_codec.parse_cursor_shw b no_block_filters_def page_of_def row_to_block_def block_out_def
        Let_def split: option.splits)
qed

lemma block_cursor_zero_repeats_witness:
  "map_ok (\<lambda>p. map bk_number (pg_items p)) (list_blocks_page (\<lambda>_ _. None) None [] 1
      \<lparr> pr_count = 2, pr_cursor = Some (show_block_cursor (BlockCursor 0)) \<rparr> no_block_filters 42 example_blocks_db) = Inr [0]"
  by (rule block_cursor_zero_repeats [OF example_blocks_ok]) (simp_all add: example_block_nums)

end
