(* ===== verification/Metadata.thy ===== *)
theory Metadata
  imports Network Ss58
begin

text \<open>
  The bundled runtime metadata and the decoding of event and call fields: \<^verbatim>\<open>src/data/metadata.rs\<close>.
  The metadata blobs, their decoding (\<^verbatim>\<open>subxt\<close>) and the walk of the SCALE bytes
  (\<^verbatim>\<open>decode_as_fields\<close>) are parameters, kept in the record \<^verbatim>\<open>runtime_metadata\<close>; the text of a
  decoded value (\<^verbatim>\<open>Display\<close> of the library) is the parameter \<^verbatim>\<open>to_text\<close>.
\<close>

section \<open>Metadata\<close>

text \<open>The value tree of the \<^verbatim>\<open>scale_value\<close> library.\<close>

datatype primitive = PBool bool | PChar nat | PString string | PU128 u128 | PI128 int | PU256 bytes | PI256 bytes

datatype scale_value = VPrim primitive | VComposite composite | VVariant string composite | VBits "bool list"
and composite = Named "(string \<times> scale_value) list" | Unnamed "scale_value list"

record field_meta =
  fm_name :: "string option"
  fm_type_name :: "string option"
  fm_type_id :: nat

record pallet_meta =
  pm_name :: string
  pm_event_variants :: "(string \<times> field_meta list) list option"
  pm_call_variants :: "(string \<times> field_meta list) list option"

record runtime_metadata =
  rm_bytes :: bytes
  rm_pallets :: "pallet_meta list"
  rm_decode_fields :: "bytes \<Rightarrow> (nat \<times> string option) list \<Rightarrow> composite option"

text \<open>The version is the fifth byte of the blob, after the magic number.\<close>

definition detect_metadata_version :: "bytes \<Rightarrow> u8" where
  "detect_metadata_version blob =
     (if length blob < 5 \<or> blob ! 0 \<noteq> 0x6d \<or> blob ! 1 \<noteq> 0x65 \<or> blob ! 2 \<noteq> 0x74 \<or> blob ! 3 \<noteq> 0x61 then 0
      else blob ! 4)"

definition runtime_for :: "(runtime_kind \<Rightarrow> runtime_metadata) \<Rightarrow> string \<Rightarrow> runtime_metadata" where
  "runtime_for bundle network_id = bundle (ns_runtime_kind (network_by_id_or_default network_id))"

definition metadata_bytes_for :: "(runtime_kind \<Rightarrow> runtime_metadata) \<Rightarrow> string \<Rightarrow> bytes" where
  "metadata_bytes_for bundle network_id = rm_bytes (runtime_for bundle network_id)"

definition metadata_version_for :: "(runtime_kind \<Rightarrow> runtime_metadata) \<Rightarrow> string \<Rightarrow> u8" where
  "metadata_version_for bundle network_id = detect_metadata_version (rm_bytes (runtime_for bundle network_id))"

definition callable_pallet_names :: "(runtime_kind \<Rightarrow> runtime_metadata) \<Rightarrow> string \<Rightarrow> string list" where
  "callable_pallet_names bundle network_id = map pm_name
     (filter (\<lambda>p. case pm_call_variants p of Some v \<Rightarrow> v \<noteq> [] | None \<Rightarrow> False)
       (rm_pallets (runtime_for bundle network_id)))"

definition pallet_by_name :: "runtime_metadata \<Rightarrow> string \<Rightarrow> pallet_meta option" where
  "pallet_by_name md name = List.find (\<lambda>p. pm_name p = name) (rm_pallets md)"

section \<open>Rendering a value\<close>

definition is_account_like_type_name :: "string option \<Rightarrow> bool" where
  "is_account_like_type_name type_name = (case type_name of
       None \<Rightarrow> False
     | Some tn \<Rightarrow> sublist ''AccountId'' tn \<or> sublist ''MultiAddress'' tn)"

fun item_byte :: "scale_value \<Rightarrow> u8 option" where
  "item_byte (VPrim (PU128 n)) = (if n \<le> 255 then Some (ucast n) else None)"
| "item_byte _ = None"

fun item_bytes :: "scale_value list \<Rightarrow> bytes option" where
  "item_bytes [] = Some []"
| "item_bytes (v # vs) = (case item_byte v of
       None \<Rightarrow> None | Some b \<Rightarrow> map_option (\<lambda>bs. b # bs) (item_bytes vs))"

fun try_extract_32_bytes :: "scale_value \<Rightarrow> bytes option" where
  "try_extract_32_bytes (VPrim (PU256 b)) = Some b"
| "try_extract_32_bytes (VComposite (Unnamed [x])) = try_extract_32_bytes x"
| "try_extract_32_bytes (VComposite (Unnamed items)) = (if length items = 32 then item_bytes items else None)"
| "try_extract_32_bytes _ = None"

fun render_value ::
  "(scale_value \<Rightarrow> string) \<Rightarrow> (bytes \<Rightarrow> u16 \<Rightarrow> string) \<Rightarrow> scale_value \<Rightarrow> string option \<Rightarrow> u16 \<Rightarrow> string" where
  "render_value to_text encode (VVariant n (Unnamed [x])) type_name pfx = render_value to_text encode x type_name pfx"
| "render_value to_text encode v type_name pfx = (case try_extract_32_bytes v of
       Some bs \<Rightarrow> if is_account_like_type_name type_name then encode bs pfx else hex_bytes bs
     | None \<Rightarrow> to_text v)"

section \<open>Decoding fields\<close>

text \<open>The composite as named values, and the type name of every position.\<close>

fun composite_fields :: "composite \<Rightarrow> (string option \<times> scale_value) list" where
  "composite_fields (Named xs) = map (\<lambda>(n, v). (Some n, v)) xs"
| "composite_fields (Unnamed xs) = map (\<lambda>v. (None, v)) xs"

definition type_name_at :: "field_meta list \<Rightarrow> nat \<Rightarrow> string option" where
  "type_name_at fs i = (if i < length fs then fm_type_name (fs ! i) else None)"

definition fields_iter :: "field_meta list \<Rightarrow> (nat \<times> string option) list" where
  "fields_iter fs = map (\<lambda>f. (fm_type_id f, fm_name f)) fs"

record decoder =
  dc_bundle :: "runtime_kind \<Rightarrow> runtime_metadata"
  dc_to_text :: "scale_value \<Rightarrow> string"
  dc_encode :: "bytes \<Rightarrow> u16 \<Rightarrow> string"

definition decode_event_fields ::
  "decoder \<Rightarrow> string \<Rightarrow> string \<Rightarrow> string \<Rightarrow> bytes \<Rightarrow> u16 \<Rightarrow> event_field list" where
  "decode_event_fields dc network_id pallet_name variant_name data pfx =
     (let md = runtime_for (dc_bundle dc) network_id in
      case pallet_by_name md pallet_name of
        None \<Rightarrow> []
      | Some pallet \<Rightarrow>
          (case Option.bind (pm_event_variants pallet) (List.find (\<lambda>v. fst v = variant_name)) of
             None \<Rightarrow> []
           | Some (_, fs) \<Rightarrow>
               (case rm_decode_fields md data (fields_iter fs) of
                  None \<Rightarrow> []
                | Some c \<Rightarrow> map (\<lambda>(i, name, value). \<lparr> ef_name = name,
                      ef_value = render_value (dc_to_text dc) (dc_encode dc) value (type_name_at fs i) pfx \<rparr>)
                    (enumerate 0 (composite_fields c)))))"

definition decode_call_fields ::
  "decoder \<Rightarrow> string \<Rightarrow> string \<Rightarrow> string \<Rightarrow> bytes \<Rightarrow> u16 \<Rightarrow> call_field list" where
  "decode_call_fields dc network_id pallet_name call_name data pfx =
     (let md = runtime_for (dc_bundle dc) network_id in
      case pallet_by_name md pallet_name of
        None \<Rightarrow> []
      | Some pallet \<Rightarrow>
          (case Option.bind (pm_call_variants pallet) (List.find (\<lambda>v. fst v = call_name)) of
             None \<Rightarrow> []
           | Some (_, fs) \<Rightarrow>
               (case rm_decode_fields md data (fields_iter fs) of
                  None \<Rightarrow> []
                | Some c \<Rightarrow> map (\<lambda>(i, name, value). \<lparr> cf_name = name, cf_type_name = type_name_at fs i,
                      cf_value = render_value (dc_to_text dc) (dc_encode dc) value (type_name_at fs i) pfx \<rparr>)
                    (enumerate 0 (composite_fields c)))))"

text \<open>The stored buffer opens with the pallet and call indexes; \<^verbatim>\<open>data.get(2..)\<close> fails below two
  bytes.\<close>

definition decode_call_args ::
  "decoder \<Rightarrow> string \<Rightarrow> string \<Rightarrow> string \<Rightarrow> bytes \<Rightarrow> u16 \<Rightarrow> extrinsic_args" where
  "decode_call_args dc network_id pallet_name call_name data pfx =
     (if length data < 2 then Raw (hex_bytes data)
      else let args_only = drop 2 data;
               fields = decode_call_fields dc network_id pallet_name call_name args_only pfx
           in if fields = [] \<and> args_only \<noteq> [] then Raw (hex_bytes data) else Decoded fields)"

section \<open>Lemmas\<close>

lemma item_bytes_length: "item_bytes vs = Some bs \<Longrightarrow> length bs = length vs"
  by (induction vs arbitrary: bs) (auto split: option.splits)

text \<open>A value that reads as bytes reads as 32 of them, when the library's 256-bit primitives do.\<close>

fun wide_ok :: "scale_value \<Rightarrow> bool" where
  "wide_ok (VPrim (PU256 b)) \<longleftrightarrow> length b = 32"
| "wide_ok (VComposite (Unnamed [x])) \<longleftrightarrow> wide_ok x"
| "wide_ok _ \<longleftrightarrow> True"

lemma try_extract_length: "try_extract_32_bytes v = Some bs \<Longrightarrow> wide_ok v \<Longrightarrow> length bs = 32"
  by (induction v rule: try_extract_32_bytes.induct) (auto dest: item_bytes_length split: if_splits simp del: item_bytes.simps)

lemma detect_version_known:
  "detect_metadata_version (0x6d # 0x65 # 0x74 # 0x61 # v # rest) = v"
  by (simp add: detect_metadata_version_def)

text \<open>A single-field unnamed wrapper is rendered as what it wraps.\<close>

lemma render_wrapper [simp]: "render_value t e (VVariant n (Unnamed [x])) tn pfx = render_value t e x tn pfx"
  by simp

section \<open>Properties\<close>


end
