(* ===== verification/RpcExtrinsics.thy ===== *)
theory RpcExtrinsics
  imports Projections Metadata "HOL-Library.Multiset"
begin

text \<open>
  The RPC path of extrinsics and transfers: \<^verbatim>\<open>src/data/rpc/mappers/extrinsics.rs\<close> and
  \<^verbatim>\<open>mappers/transfers.rs\<close>. The client library's \<^verbatim>\<open>is_signed\<close> is the presence of an address.
\<close>

section \<open>Identifiers\<close>

definition extrinsic_id :: "u64 \<Rightarrow> u32 \<Rightarrow> string" where
  "extrinsic_id block index = show_word block @ ''-'' @ show_word index"

definition parse_extrinsic_id :: "string \<Rightarrow> (u64 \<times> u32) option" where
  "parse_extrinsic_id i = (case split_once CHR ''-'' i of
       None \<Rightarrow> None
     | Some (b, x) \<Rightarrow> Option.bind (parse_word b) (\<lambda>block. map_option (\<lambda>index. (block, index)) (parse_word x)))"

section \<open>Extrinsics\<close>

definition decode_signer_ss58 :: "(bytes \<Rightarrow> u16 \<Rightarrow> string) \<Rightarrow> multi_address \<Rightarrow> u16 \<Rightarrow> string option" where
  "decode_signer_ss58 encode addr pfx = (case addr of
       AddrId i \<Rightarrow> Some (encode i pfx) | AddrOther \<Rightarrow> None | AddrUndecodable \<Rightarrow> None)"

text \<open>One round of the loop over the events of an extrinsic; the state is (result, fee).\<close>

definition rpc_outcome_step :: "runtime_kind \<Rightarrow> call_result \<times> u128 \<Rightarrow> chain_event \<Rightarrow> call_result \<times> u128" where
  "rpc_outcome_step rk st evt = (case st of (result, fee) \<Rightarrow>
     (if ev_pallet evt = ''System'' \<and> ev_name evt = ''ExtrinsicFailed'' then (Failed, fee)
      else if ev_pallet evt = ''TransactionPayment'' \<and> ev_name evt = ''TransactionFeePaid'' then
        (case ok_opt (ev_decode evt rk) of
           None \<Rightarrow> (result, fee) | Some paid \<Rightarrow> (result, df_u128 paid ''actual_fee''))
      else (result, fee)))"

definition event_ref_of :: "decoder \<Rightarrow> string \<Rightarrow> u16 \<Rightarrow> string \<Rightarrow> string \<Rightarrow> bytes \<Rightarrow> event_ref" where
  "event_ref_of dc net pfx pallet name data = \<lparr> er_module = pallet, er_name = name,
     er_fields = decode_event_fields dc net pallet name data pfx \<rparr>"

definition map_extrinsic ::
  "decoder \<Rightarrow> pinned_block \<Rightarrow> int \<Rightarrow> (u32 \<Rightarrow> chain_event list) \<Rightarrow> string \<Rightarrow> runtime_kind \<Rightarrow> u16
   \<Rightarrow> chain_extrinsic \<Rightarrow> extrinsic" where
  "map_extrinsic dc at timestamp_ms events_by_phase net rk pfx ext =
     (let idx = word_of_nat (cx_index ext);
          evts = events_by_phase idx;
          (result, fee) = foldl (rpc_outcome_step rk) (Success, 0) evts;
          (nonce, tip) = (case cx_extensions ext of
              None \<Rightarrow> (None, 0)
            | Some (n, t) \<Rightarrow> (map_option ucast n, case t of None \<Rightarrow> 0 | Some x \<Rightarrow> x))
      in \<lparr> xt_id = extrinsic_id (at_number at) idx, xt_block_number = at_number at, xt_index = idx,
           xt_hash = hash_string (cx_hash ext), xt_module = cx_pallet ext, xt_call = cx_call ext,
           xt_signed = (cx_address ext \<noteq> None),
           xt_signer = Option.bind (cx_address ext) (\<lambda>a. decode_signer_ss58 (dc_encode dc) a pfx),
           xt_args = decode_call_args dc net (cx_pallet ext) (cx_call ext) (cx_call_data ext) pfx,
           xt_result = result, xt_nonce = nonce, xt_tip = tip, xt_fee = fee, xt_timestamp_ms = timestamp_ms,
           xt_events = map (\<lambda>e. event_ref_of dc net pfx (ev_pallet e) (ev_name e) (ev_field_bytes e)) evts \<rparr>)"

text \<open>The loop stops at the first extrinsic that does not decode.\<close>

definition map_extrinsics ::
  "decoder \<Rightarrow> pinned_block \<Rightarrow> int \<Rightarrow> (u32 \<Rightarrow> chain_event list) \<Rightarrow> string \<Rightarrow> runtime_kind \<Rightarrow> u16
   \<Rightarrow> extrinsic list data_result" where
  "map_extrinsics dc at timestamp_ms events_by_phase net rk pfx =
     bind_r (with_timeout ''map_extrinsics_fetch'' (\<lambda>e. Rpc (''fetch extrinsics: '' @ e)) (at_extrinsics at)) (\<lambda>raw.
     bind_r (collect_ok (\<lambda>e. Decode (''decode extrinsic: '' @ e)) raw) (\<lambda>exts.
     Inr (map (map_extrinsic dc at timestamp_ms events_by_phase net rk pfx) exts)))"

section \<open>Transfers\<close>

text \<open>The events of the phase map with the extrinsic they belong to, in the order the hash map is
  walked, which is the parameter \<^verbatim>\<open>keys\<close>.\<close>

definition transfer_of ::
  "decoder \<Rightarrow> runtime_kind \<Rightarrow> u16 \<Rightarrow> extrinsic \<Rightarrow> chain_event \<Rightarrow> (transfer \<times> u32) data_result" where
  "transfer_of dc rk pfx x evt =
     bind_r (map_err (\<lambda>e. Decode (''decode Balances.Transfer: '' @ e)) (ev_decode evt rk)) (\<lambda>decoded.
     Inr (\<lparr> tr_extrinsic = x, tr_from = dc_encode dc (df_bytes decoded ''from'') pfx,
            tr_to = dc_encode dc (df_bytes decoded ''to'') pfx, tr_amount = df_u128 decoded ''amount'' \<rparr>,
          ev_index evt))"

fun transfers_of_events ::
  "decoder \<Rightarrow> runtime_kind \<Rightarrow> u16 \<Rightarrow> extrinsic \<Rightarrow> chain_event list \<Rightarrow> (transfer \<times> u32) list
   \<Rightarrow> (transfer \<times> u32) list data_result" where
  "transfers_of_events dc rk pfx x [] out = Inr out"
| "transfers_of_events dc rk pfx x (evt # evts) out =
     (if ev_pallet evt \<noteq> ''Balances'' \<or> ev_name evt \<noteq> ''Transfer''
      then transfers_of_events dc rk pfx x evts out
      else bind_r (transfer_of dc rk pfx x evt) (\<lambda>t. transfers_of_events dc rk pfx x evts (out @ [t])))"

fun transfers_of_phases ::
  "decoder \<Rightarrow> runtime_kind \<Rightarrow> u16 \<Rightarrow> extrinsic list \<Rightarrow> (u32 \<Rightarrow> chain_event list) \<Rightarrow> u32 list
   \<Rightarrow> (transfer \<times> u32) list \<Rightarrow> (transfer \<times> u32) list data_result" where
  "transfers_of_phases dc rk pfx xs m [] out = Inr out"
| "transfers_of_phases dc rk pfx xs m (idx # keys) out =
     (case List.find (\<lambda>e. xt_index e = idx) xs of
        None \<Rightarrow> transfers_of_phases dc rk pfx xs m keys out
      | Some x \<Rightarrow> bind_r (transfers_of_events dc rk pfx x (m idx) out) (transfers_of_phases dc rk pfx xs m keys))"

definition map_transfers_with_event_idx ::
  "decoder \<Rightarrow> extrinsic list \<Rightarrow> (u32 \<Rightarrow> chain_event list) \<Rightarrow> u32 list \<Rightarrow> runtime_kind \<Rightarrow> u16
   \<Rightarrow> (transfer \<times> u32) list data_result" where
  "map_transfers_with_event_idx dc xs m keys rk pfx =
     bind_r (transfers_of_phases dc rk pfx xs m keys []) (\<lambda>out. Inr (sort_key snd out))"

definition map_transfers ::
  "decoder \<Rightarrow> extrinsic list \<Rightarrow> (u32 \<Rightarrow> chain_event list) \<Rightarrow> u32 list \<Rightarrow> runtime_kind \<Rightarrow> u16
   \<Rightarrow> transfer list data_result" where
  "map_transfers dc xs m keys rk pfx =
     bind_r (map_transfers_with_event_idx dc xs m keys rk pfx) (\<lambda>ts. Inr (map fst ts))"

section \<open>Lemmas\<close>

text \<open>The transfers of the phases, when every transfer event decodes.\<close>

definition is_transfer :: "chain_event \<Rightarrow> bool" where
  "is_transfer e \<longleftrightarrow> ev_pallet e = ''Balances'' \<and> ev_name e = ''Transfer''"

definition phase_transfers ::
  "decoder \<Rightarrow> runtime_kind \<Rightarrow> u16 \<Rightarrow> extrinsic list \<Rightarrow> (u32 \<Rightarrow> chain_event list) \<Rightarrow> u32 \<Rightarrow> (transfer \<times> u32) list" where
  "phase_transfers dc rk pfx xs m idx = (case List.find (\<lambda>e. xt_index e = idx) xs of
       None \<Rightarrow> []
     | Some x \<Rightarrow> map (\<lambda>e. case transfer_of dc rk pfx x e of Inr t \<Rightarrow> t) (filter is_transfer (m idx)))"

definition phase_decodes :: "runtime_kind \<Rightarrow> extrinsic list \<Rightarrow> (u32 \<Rightarrow> chain_event list) \<Rightarrow> u32 \<Rightarrow> bool" where
  "phase_decodes rk xs m idx \<longleftrightarrow> idx \<notin> xt_index ` set xs \<or>
     (\<forall>e\<in>set (m idx). is_transfer e \<longrightarrow> (\<exists>f. ev_decode e rk = Inr f))"

lemma transfers_of_events_Inr:
  "transfers_of_events dc rk pfx x evts out = Inr r \<longleftrightarrow>
     (\<forall>e\<in>set evts. is_transfer e \<longrightarrow> (\<exists>f. ev_decode e rk = Inr f)) \<and>
     r = out @ map (\<lambda>e. case transfer_of dc rk pfx x e of Inr t \<Rightarrow> t) (filter is_transfer evts)"
proof (induction evts arbitrary: out)
  case (Cons e evts)
  show ?case
  proof (cases "is_transfer e")
    case True
    then show ?thesis
      using Cons.IH
      by (cases "ev_decode e rk") (auto simp: is_transfer_def transfer_of_def)
  next
    case False
    then show ?thesis using Cons.IH by (auto simp: is_transfer_def)
  qed
qed auto

lemma transfers_of_phases_Inr:
  "transfers_of_phases dc rk pfx xs m keys out = Inr r \<longleftrightarrow>
     (\<forall>i\<in>set keys. phase_decodes rk xs m i) \<and> r = out @ concat (map (phase_transfers dc rk pfx xs m) keys)"
proof (induction keys arbitrary: out)
  case (Cons i keys)
  show ?case
  proof (cases "List.find (\<lambda>e. xt_index e = i) xs")
    case None
    then have "i \<notin> xt_index ` set xs" by (auto simp: find_None_iff)
    then show ?thesis using Cons.IH None by (auto simp: phase_decodes_def phase_transfers_def)
  next
    case (Some x)
    then have "i \<in> xt_index ` set xs" by (auto simp: find_Some_iff)
    then show ?thesis
      using Cons.IH Some
      by (auto simp: phase_decodes_def phase_transfers_def bind_r_Inr_iff transfers_of_events_Inr)
  qed
qed auto

lemma phase_transfers_indexes:
  assumes "phase_decodes rk xs m i"
  shows "subseq (map snd (phase_transfers dc rk pfx xs m i)) (map ev_index (m i))"
proof (cases "List.find (\<lambda>e. xt_index e = i) xs")
  case None
  then show ?thesis by (simp add: phase_transfers_def)
next
  case (Some x)
  then have "i \<in> xt_index ` set xs" by (auto simp: find_Some_iff)
  then have dec: "\<forall>e\<in>set (m i). is_transfer e \<longrightarrow> (\<exists>f. ev_decode e rk = Inr f)"
    using assms by (simp add: phase_decodes_def)
  have "map snd (phase_transfers dc rk pfx xs m i) = map ev_index (filter is_transfer (m i))"
    using dec by (auto simp: phase_transfers_def Some transfer_of_def)
  then show ?thesis by (simp add: subseq_map)
qed

lemma subseq_concat_map:
  "\<forall>i\<in>set is. subseq (f i) (g i) \<Longrightarrow> subseq (concat (map f is)) (concat (map g is))"
  by (induction "is") (auto intro: list_emb_append_mono)

lemma phases_indexes_distinct:
  assumes "\<forall>i\<in>set keys. phase_decodes rk xs m i" and "distinct (map ev_index (concat (map m keys)))"
  shows "distinct (map snd (concat (map (phase_transfers dc rk pfx xs m) keys)))"
proof -
  have "subseq (concat (map (\<lambda>i. map snd (phase_transfers dc rk pfx xs m i)) keys))
      (concat (map (\<lambda>i. map ev_index (m i)) keys))"
    using assms(1) phase_transfers_indexes by (intro subseq_concat_map) blast
  then have "subseq (map snd (concat (map (phase_transfers dc rk pfx xs m) keys))) (map ev_index (concat (map m keys)))"
    by (simp add: map_concat comp_def)
  then show ?thesis using assms(2) by (metis distinct_nthsI subseq_conv_nths)
qed

lemma mset_concat_map: "mset xs = mset ys \<Longrightarrow> mset (concat (map f xs)) = mset (concat (map f ys))"
proof -
  have "mset (concat (map f zs)) = (\<Sum>x\<in>#mset zs. mset (f x))" for zs by (induction zs) simp_all
  then show "mset xs = mset ys \<Longrightarrow> mset (concat (map f xs)) = mset (concat (map f ys))" by simp
qed

section \<open>Properties\<close>

text \<open>The identifier of an extrinsic round-trips, and what parses as one is the pair it prints, up
  to leading zeros and a plus sign.\<close>

theorem extrinsic_id_roundtrip: "parse_extrinsic_id (extrinsic_id b i) = Some (b, i)"
  by (simp add: parse_extrinsic_id_def extrinsic_id_def parse_word_show_word)

text \<open>C37: The transfers of a block do not depend on the order in which the hash map of phases is walked:
  if the events have different indexes, two walks over the same phases give the same list, in the
  order of emission.\<close>

theorem transfers_order_independent:
  assumes "map_transfers_with_event_idx dc xs m keys rk pfx = Inr ts" and "set keys = set keys'"
    and "distinct keys" and "distinct keys'"
    and "distinct (map ev_index (concat (map m keys)))"
  shows "map_transfers_with_event_idx dc xs m keys' rk pfx = Inr ts \<and> sorted (map snd ts)"
proof -
  let ?all = "\<lambda>ks. concat (map (phase_transfers dc rk pfx xs m) ks)"
  from assms(1) have dec: "\<forall>i\<in>set keys. phase_decodes rk xs m i" and ts: "ts = sort_key snd (?all keys)"
    by (auto simp: map_transfers_with_event_idx_def bind_r_Inr_iff transfers_of_phases_Inr)
  have "mset keys = mset keys'" by (rule iffD1 [OF set_eq_iff_mset_eq_distinct [OF assms(3,4)] assms(2)])
  then have ms: "mset (?all keys) = mset (?all keys')"
    by (rule mset_concat_map)
  have "inj_on snd (set (?all keys'))"
    using phases_indexes_distinct [OF dec assms(5), of dc pfx] mset_eq_setD [OF ms] by (simp only: distinct_map)
  then have "sort_key snd (?all keys') = ts"
    using ms ts by (intro sort_key_inj_key_eq) simp_all
  moreover have "\<forall>i\<in>set keys'. phase_decodes rk xs m i" using dec assms(2) by simp
  ultimately show ?thesis
    using ts by (auto simp: map_transfers_with_event_idx_def bind_r_Inr_iff transfers_of_phases_Inr)
qed


definition example_decoder :: decoder where
  "example_decoder = \<lparr> dc_bundle = (\<lambda>_. \<lparr> rm_bytes = [], rm_pallets = [], rm_decode_fields = (\<lambda>_ _. None) \<rparr>),
     dc_to_text = (\<lambda>_. []), dc_encode = (\<lambda>b _. map (\<lambda>x. char_of (unat x)) b) \<rparr>"

definition example_transfer_event :: "u32 \<Rightarrow> chain_event" where
  "example_transfer_event i =
     (example_event ''Balances'' ''Transfer'' (ApplyExtrinsic i) (example_fields [1] [2] 500))\<lparr> ev_index := i \<rparr>"

lemma transfers_order_independent_witness:
  "\<exists>ts. map_transfers_with_event_idx example_decoder [example_extrinsic 5 1 [], example_extrinsic 5 2 []]
     (\<lambda>i. [example_transfer_event i]) [2, 1] Allfeat 42 = Inr ts \<and> sorted (map snd ts) \<and>
   map_transfers_with_event_idx example_decoder [example_extrinsic 5 1 [], example_extrinsic 5 2 []]
     (\<lambda>i. [example_transfer_event i]) [1, 2] Allfeat 42 = Inr ts"
proof -
  obtain ts where ts: "map_transfers_with_event_idx example_decoder [example_extrinsic 5 1 [], example_extrinsic 5 2 []]
     (\<lambda>i. [example_transfer_event i]) [2, 1] Allfeat 42 = Inr ts"
    by (simp add: map_transfers_with_event_idx_def transfer_of_def example_transfer_event_def example_event_def
        example_extrinsic_def)
  have "distinct (map ev_index (concat (map (\<lambda>i. [example_transfer_event i]) [2, 1])))"
    by (simp add: example_transfer_event_def)
  from transfers_order_independent [OF ts _ _ _ this, of "[1, 2]"] ts show ?thesis by auto
qed

end
