(* ===== verification/EventQueries.thy ===== *)
theory EventQueries
  imports RpcExtrinsics BlockQueries
begin

text \<open>
  The event reads of \<^verbatim>\<open>src/data/indexed/queries/events.rs\<close>: the events of one extrinsic, of one block
  grouped by extrinsic, and of a list of extrinsics. Only events of the apply-extrinsic phase are read.
\<close>

section \<open>Reading\<close>

text \<open>What every read of extrinsics carries along: the network, its number in the tables, the address
  prefix and the decoder of the fields.\<close>

record reader =
  rd_net :: string
  rd_sid :: int
  rd_pfx :: u16
  rd_dec :: decoder

definition rd_enc :: "reader \<Rightarrow> bytes \<Rightarrow> string option" where
  "rd_enc rd bs = (if length bs \<noteq> 32 then None else Some (dc_encode (rd_dec rd) bs (rd_pfx rd)))"

definition event_ref_db :: "reader \<Rightarrow> event_db \<Rightarrow> event_ref" where
  "event_ref_db rd e = event_ref_of (rd_dec rd) (rd_net rd) (rd_pfx rd) (ke_pallet e) (ke_variant e) (ke_data_scale e)"

text \<open>The rows of a block that satisfy a condition, \<^verbatim>\<open>ORDER BY idx ASC\<close>.\<close>

definition block_events :: "(event_db \<Rightarrow> bool) \<Rightarrow> int \<Rightarrow> int \<Rightarrow> db \<Rightarrow> event_db list" where
  "block_events p sid blk d = map (\<lambda>i. the (t_events d (sid, blk, i)))
     (sorted_list_of_set {i. \<exists>e. t_events d (sid, blk, i) = Some e \<and> p e})"

definition applied :: "event_db \<Rightarrow> bool" where
  "applied e \<longleftrightarrow> ke_phase_kind e = phase_apply_extrinsic"

definition push_event :: "'k \<Rightarrow> event_ref \<Rightarrow> ('k \<rightharpoonup> event_ref list) \<Rightarrow> ('k \<rightharpoonup> event_ref list)" where
  "push_event k e m = m(k \<mapsto> (case m k of None \<Rightarrow> [] | Some es \<Rightarrow> es) @ [e])"

definition events_by_ext_idx_in_block ::
  "string option \<Rightarrow> reader \<Rightarrow> u64 \<Rightarrow> db \<Rightarrow> (u32 \<rightharpoonup> event_ref list) data_result" where
  "events_by_ext_idx_in_block flt rd block_num d =
     map_ok (\<lambda>rows. foldl (\<lambda>m e. push_event (word_of_int (max (the (ke_phase_idx e)) 0)) (event_ref_db rd e) m) Map.empty rows)
       (run_query flt (''events_by_ext_idx_in_block(net='' @ show_int (rd_sid rd) @ ''/'' @ show_word block_num @ '')'')
         (block_events (\<lambda>e. applied e \<and> ke_phase_idx e \<noteq> None) (rd_sid rd) (sint block_num) d))"

definition events_for_extrinsic ::
  "string option \<Rightarrow> reader \<Rightarrow> u64 \<Rightarrow> u32 \<Rightarrow> db \<Rightarrow> event_ref list data_result" where
  "events_for_extrinsic flt rd block_num ext_idx d =
     map_ok (map (event_ref_db rd))
       (run_query flt (''events_for_extrinsic(net='' @ show_int (rd_sid rd) @ ''/'' @ show_word block_num @ '','' @
           show_word ext_idx @ '')'')
         (block_events (\<lambda>e. applied e \<and> ke_phase_idx e = Some (sint ext_idx)) (rd_sid rd) (sint block_num) d))"

text \<open>The join with the two arrays: a row appears once per pair it matches. The keys are read newest
  block first, events of a block in their order: the ascending order of \<^verbatim>\<open>(- block_num, idx)\<close>.\<close>

definition pair_matches :: "int \<Rightarrow> event_db \<Rightarrow> u64 \<times> u32 \<Rightarrow> bool" where
  "pair_matches blk e p \<longleftrightarrow> sint (fst p) = blk \<and> ke_phase_idx e = Some (sint (snd p))"

definition events_for_pairs ::
  "string option \<Rightarrow> reader \<Rightarrow> (u64 \<times> u32) list \<Rightarrow> db \<Rightarrow> (u64 \<times> u32 \<rightharpoonup> event_ref list) data_result" where
  "events_for_pairs flt rd pairs d =
     (if pairs = [] then Inr Map.empty
      else map_ok (\<lambda>rows. foldl (\<lambda>m (b, e). push_event (word_of_int (max b 0), word_of_int (max (the (ke_phase_idx e)) 0))
            (event_ref_db rd e) m) Map.empty rows)
        (run_query flt (''events_for_pairs(net='' @ show_int (rd_sid rd) @ '', '' @ show_nat (length pairs) @ '' pairs)'')
          (concat (map (\<lambda>(nb, i). let e = the (t_events d (rd_sid rd, - nb, i)) in
              replicate (length (filter (pair_matches (- nb) e) pairs)) (- nb, e))
            (sorted_list_of_set {(nb, i). \<exists>e. t_events d (rd_sid rd, - nb, i) = Some e \<and> applied e \<and>
                (\<exists>p\<in>set pairs. pair_matches (- nb) e p)})))))"

section \<open>Lemmas\<close>

lemma push_events_lookup:
  "foldl (\<lambda>m e. push_event (f e) (g e) m) m es k =
     (if filter (\<lambda>e. f e = k) es = [] then m k
      else Some ((case m k of None \<Rightarrow> [] | Some l \<Rightarrow> l) @ map g (filter (\<lambda>e. f e = k) es)))"
  by (induction es arbitrary: m) (auto simp: push_event_def split: option.splits)

definition events_ok :: "int \<Rightarrow> db \<Rightarrow> bool" where
  "events_ok sid d \<longleftrightarrow> finite (dom (t_events d)) \<and>
     (\<forall>b i e. t_events d (sid, b, i) = Some e \<longrightarrow> 0 \<le> b \<and> b < 2 ^ 63 \<and>
        (\<forall>j. ke_phase_idx e = Some j \<longrightarrow> 0 \<le> j \<and> j < 2 ^ 31))"

lemma finite_block_events: "finite (dom (t_events d)) \<Longrightarrow> finite {i. \<exists>e. t_events d (sid, b, i) = Some e \<and> p e}"
  by (rule finite_subset [OF _ finite_vimageI [of "dom (t_events d)" "\<lambda>i. (sid, b, i)"]]) (auto simp: inj_def)

lemma filter_block_events:
  assumes "finite (dom (t_events d))"
  shows "filter q (block_events p sid b d) = block_events (\<lambda>e. p e \<and> q e) sid b d"
proof -
  have "{k \<in> {i. \<exists>e. t_events d (sid, b, i) = Some e \<and> p e}. q (the (t_events d (sid, b, k)))} =
      {i. \<exists>e. t_events d (sid, b, i) = Some e \<and> p e \<and> q e}" by auto
  then show ?thesis
    using sorted_list_filter [OF finite_block_events [OF assms], of "\<lambda>i. q (the (t_events d (sid, b, i)))" sid b p]
    by (simp add: block_events_def filter_map comp_def)
qed

lemma block_events_mem:
  "finite (dom (t_events d)) \<Longrightarrow> e \<in> set (block_events p sid b d) \<Longrightarrow> \<exists>i. t_events d (sid, b, i) = Some e \<and> p e"
  by (auto simp: block_events_def finite_block_events)

lemma block_events_cong:
  "(\<And>i e. t_events d (sid, b, i) = Some e \<Longrightarrow> p e = q e) \<Longrightarrow> block_events p sid b d = block_events q sid b d"
  unfolding block_events_def by (metis (no_types, lifting))

text \<open>An index column in range determines the index.\<close>

lemma index_column:
  fixes w :: u32
  assumes "0 \<le> j" and "j < 2 ^ 31" and "unat w < 2 ^ 31"
  shows "word_of_int (max j 0) = w \<longleftrightarrow> j = sint w"
proof -
  have "sint (word_of_int j :: u32) = j" using assms(1,2) by (simp add: int_word_sint mod_pos_pos_trivial)
  then show ?thesis using assms(1) signed_column_32 [OF assms(3)] by (auto simp: max_def split: if_splits)
qed

lemma block_column:
  fixes w :: u64
  assumes "0 \<le> b" and "b < 2 ^ 63" and "unat w < 2 ^ 63"
  shows "word_of_int (max b 0) = w \<longleftrightarrow> b = sint w"
  using sint_word_of_int_small [OF assms(1,2)] signed_column_64 [OF assms(3)] assms(1)
  by (auto simp: max_def split: if_splits)

text \<open>The events of one extrinsic.\<close>

definition ext_events :: "reader \<Rightarrow> u64 \<Rightarrow> u32 \<Rightarrow> db \<Rightarrow> event_ref list" where
  "ext_events rd b i d = map (event_ref_db rd)
     (block_events (\<lambda>e. applied e \<and> ke_phase_idx e = Some (sint i)) (rd_sid rd) (sint b) d)"

lemma events_for_extrinsic_ok: "events_for_extrinsic None rd b i d = Inr (ext_events rd b i d)"
  by (simp add: events_for_extrinsic_def run_query_def ext_events_def)

definition or_nil :: "'a list option \<Rightarrow> 'a list" where
  "or_nil x = (case x of None \<Rightarrow> [] | Some xs \<Rightarrow> xs)"

lemma events_by_ext_idx_ok:
  assumes "events_ok (rd_sid rd) d"
  obtains m where "events_by_ext_idx_in_block None rd b d = Inr m"
    and "\<And>i. unat i < 2 ^ 31 \<Longrightarrow> or_nil (m i) = ext_events rd b i d"
proof -
  let ?f = "\<lambda>e. word_of_int (max (the (ke_phase_idx e)) 0) :: u32"
  let ?rows = "block_events (\<lambda>e. applied e \<and> ke_phase_idx e \<noteq> None) (rd_sid rd) (sint b) d"
  let ?m = "foldl (\<lambda>m e. push_event (?f e) (event_ref_db rd e) m) Map.empty ?rows"
  have fin: "finite (dom (t_events d))" using assms by (simp add: events_ok_def)
  have "or_nil (?m i) = ext_events rd b i d" if i: "unat i < 2 ^ 31" for i
  proof -
    have "filter (\<lambda>e. ?f e = i) ?rows = block_events (\<lambda>e. (applied e \<and> ke_phase_idx e \<noteq> None) \<and> ?f e = i) (rd_sid rd) (sint b) d"
      by (rule filter_block_events [OF fin])
    also have "\<dots> = block_events (\<lambda>e. applied e \<and> ke_phase_idx e = Some (sint i)) (rd_sid rd) (sint b) d"
      using assms index_column [OF _ _ i] by (intro block_events_cong) (force simp: events_ok_def)
    finally show ?thesis by (auto simp: push_events_lookup or_nil_def ext_events_def)
  qed
  then show ?thesis using that by (simp add: events_by_ext_idx_in_block_def run_query_def)
qed

lemma filter_unique: "distinct xs \<Longrightarrow> x \<in> set xs \<Longrightarrow> (\<And>y. y \<in> set xs \<Longrightarrow> P y \<longleftrightarrow> y = x) \<Longrightarrow> filter P xs = [x]"
proof (induction xs)
  case (Cons a xs)
  show ?case
  proof (cases "a = x")
    case True
    then have "filter P xs = []" using Cons.prems by (auto simp: filter_empty_conv)
    then show ?thesis using Cons.prems(3) [of a] True by simp
  next
    case False
    then show ?thesis using Cons by auto
  qed
qed simp

lemma sorted_list_Pair:
  "finite S \<Longrightarrow> sorted_list_of_set (Pair c ` S) = map (Pair c) (sorted_list_of_set S)"
proof -
  assume "finite S"
  moreover have "sorted (map (Pair c) (sorted_list_of_set S))"
    by (rule sorted_wrt_mono_rel [THEN sorted_wrt_map [THEN iffD2], of _ "(\<le>)"]) auto
  ultimately show ?thesis
    by (intro sorted_distinct_set_unique) (simp_all add: distinct_map inj_on_def)
qed

lemma events_for_pairs_ok:
  assumes "events_ok (rd_sid rd) d" and "distinct pairs"
    and ranges: "\<And>b i. (b, i) \<in> set pairs \<Longrightarrow> unat b < 2 ^ 63 \<and> unat i < 2 ^ 31"
  obtains m where "events_for_pairs None rd pairs d = Inr m"
    and "\<And>b i. (b, i) \<in> set pairs \<Longrightarrow> or_nil (m (b, i)) = ext_events rd b i d"
proof (cases "pairs = []")
  case False
  let ?sid = "rd_sid rd"
  let ?ev = "\<lambda>(nb, i). the (t_events d (?sid, - nb, i))"
  let ?K = "{(nb, i). \<exists>e. t_events d (?sid, - nb, i) = Some e \<and> applied e \<and> (\<exists>p\<in>set pairs. pair_matches (- nb) e p)}"
  let ?row = "\<lambda>k. (- fst k, ?ev k)"
  let ?f = "\<lambda>r. (word_of_int (max (fst r) 0) :: u64, word_of_int (max (the (ke_phase_idx (snd r))) 0) :: u32)"
  have fin: "finite (dom (t_events d))" using assms(1) by (simp add: events_ok_def)
  have "?K \<subseteq> (\<lambda>(nb, i). (?sid, - nb, i)) -` dom (t_events d)" by auto
  then have finK: "finite ?K"
    by (rule finite_subset) (intro finite_vimageI fin, auto simp: inj_def)
  have one: "filter (pair_matches (- nb) (?ev (nb, i))) pairs = [p]"
    if "pair_matches (- nb) (?ev (nb, i)) p" "p \<in> set pairs" for nb i p
    using assms(2) that
    by (intro filter_unique) (auto simp: pair_matches_def prod_eq_iff, metis sint_eq_iff)
  have "concat (map (\<lambda>(nb, i). let e = the (t_events d (?sid, - nb, i)) in
      replicate (length (filter (pair_matches (- nb) e) pairs)) (- nb, e)) (sorted_list_of_set ?K)) =
    concat (map (\<lambda>k. [?row k]) (sorted_list_of_set ?K))"
  proof (rule arg_cong [where f = concat], rule map_cong [OF refl])
    fix k assume "k \<in> set (sorted_list_of_set ?K)"
    then have "k \<in> ?K" using finK by simp
    then obtain nb i p where "k = (nb, i)" "pair_matches (- nb) (?ev (nb, i)) p" "p \<in> set pairs" by auto
    then show "(case k of (nb, i) \<Rightarrow> let e = the (t_events d (?sid, - nb, i)) in
      replicate (length (filter (pair_matches (- nb) e) pairs)) (- nb, e)) = [?row k]"
      using one by (simp add: Let_def)
  qed
  then have rows: "concat (map (\<lambda>(nb, i). let e = the (t_events d (?sid, - nb, i)) in
      replicate (length (filter (pair_matches (- nb) e) pairs)) (- nb, e)) (sorted_list_of_set ?K)) =
    map ?row (sorted_list_of_set ?K)" by simp
  let ?m = "foldl (\<lambda>m r. push_event (?f r) (event_ref_db rd (snd r)) m) Map.empty (map ?row (sorted_list_of_set ?K))"
  have run: "events_for_pairs None rd pairs d = Inr ?m"
    using False unfolding events_for_pairs_def rows by (simp add: run_query_def case_prod_unfold)
  have "or_nil (?m (b, i)) = ext_events rd b i d" if p: "(b, i) \<in> set pairs" for b i
  proof -
    note r = ranges [OF p]
    let ?S = "{k. \<exists>e. t_events d (?sid, sint b, k) = Some e \<and> (applied e \<and> ke_phase_idx e = Some (sint i))}"
    have "{k \<in> ?K. ?f (?row k) = (b, i)} = Pair (- sint b) ` ?S"
    proof (intro equalityI subsetI)
      fix k assume k: "k \<in> {k \<in> ?K. ?f (?row k) = (b, i)}"
      then obtain nb x e q where e: "k = (nb, x)" "t_events d (?sid, - nb, x) = Some e" "applied e" "q \<in> set pairs"
        "pair_matches (- nb) e q" by auto
      then obtain j where j: "0 \<le> - nb" "- nb < 2 ^ 63" "ke_phase_idx e = Some j" "0 \<le> j" "j < 2 ^ 31"
        using assms(1) unfolding events_ok_def pair_matches_def by blast
      moreover have "?f (- nb, e) = (b, i)" using k e by simp
      ultimately have "- nb = sint b" "ke_phase_idx e = Some (sint i)"
        using block_column [OF j(1,2), of b] index_column [OF j(4,5), of i] r by simp_all
      then show "k \<in> Pair (- sint b) ` ?S" using e by (auto simp: image_iff)
    next
      fix k assume "k \<in> Pair (- sint b) ` ?S"
      then obtain x e where e: "k = (- sint b, x)" "t_events d (?sid, sint b, x) = Some e" "applied e"
        "ke_phase_idx e = Some (sint i)" by auto
      moreover from this have "pair_matches (sint b) e (b, i)" by (simp add: pair_matches_def)
      ultimately show "k \<in> {k \<in> ?K. ?f (?row k) = (b, i)}"
        using p r signed_column_32 signed_column_64 by auto
    qed
    then have "filter (\<lambda>r. ?f r = (b, i)) (map ?row (sorted_list_of_set ?K)) =
        map ?row (map (Pair (- sint b)) (sorted_list_of_set ?S))"
      using sorted_list_filter [OF finK, of "\<lambda>k. ?f (?row k) = (b, i)"] 
        sorted_list_Pair [OF finite_block_events [OF fin], of "- sint b" ?sid "sint b" "\<lambda>e. applied e \<and> ke_phase_idx e = Some (sint i)"]
      by (simp add: filter_map comp_def)
    then show ?thesis
      by (auto simp: push_events_lookup or_nil_def ext_events_def block_events_def comp_def)
  qed
  then show ?thesis using that run by blast
qed (use that in \<open>simp add: events_for_pairs_def\<close>)

end
