(* ===== verification/ExtrinsicQueries.thy ===== *)
theory ExtrinsicQueries
  imports EventQueries
begin

text \<open>
  The extrinsic reads of \<^verbatim>\<open>src/data/indexed/queries/extrinsics.rs\<close>, with the events of a list of
  extrinsics filled in by one bulk query. The argument \<^verbatim>\<open>flt\<close> gives the database error of the
  first query of a read (0) and of the one that hydrates its events (1).
\<close>

section \<open>Rows\<close>

type_synonym ext_key = "int \<times> int"

definition ext_keys :: "int \<Rightarrow> db \<Rightarrow> ext_key set" where
  "ext_keys sid d = {(b, i). (sid, b, i) \<in> dom (t_extrinsics d)}"

definition ext_row :: "int \<Rightarrow> db \<Rightarrow> ext_key \<Rightarrow> ext_key \<times> extrinsic_db" where
  "ext_row sid d k = (k, the (t_extrinsics d (sid, fst k, snd k)))"

text \<open>NUMERIC columns travel as text: an absent tip is 0, and the texts of the table always parse.\<close>

definition row_to_extrinsic :: "reader \<Rightarrow> ext_key \<times> extrinsic_db \<Rightarrow> extrinsic" where
  "row_to_extrinsic rd r = (case r of ((block_num, idx), k) \<Rightarrow>
     (let block = word_of_int (max block_num 0);
          index = word_of_int (max idx 0);
          tip = (case kx_tip k of None \<Rightarrow> 0 | Some t \<Rightarrow> word_of_nat t);
          signer_ss58 = Option.bind (kx_signer k) (rd_enc rd)
      in \<lparr> xt_id = extrinsic_id block index, xt_block_number = block, xt_index = index,
           xt_hash = hex_bytes (kx_hash k), xt_module = kx_pallet k, xt_call = kx_call k,
           xt_signed = (signer_ss58 \<noteq> None), xt_signer = signer_ss58,
           xt_args = decode_call_args (rd_dec rd) (rd_net rd) (kx_pallet k) (kx_call k) (kx_args_scale k) (rd_pfx rd),
           xt_result = (if kx_success k then Success else Failed),
           xt_nonce = map_option word_of_int (kx_nonce k), xt_tip = tip, xt_fee = word_of_nat (kx_fee k),
           xt_timestamp_ms = kx_timestamp_ms k, xt_events = [] \<rparr>))"

section \<open>Hydration\<close>

fun hydrate_pairs :: "(u64 \<times> u32 \<rightharpoonup> event_ref list) \<Rightarrow> extrinsic list \<Rightarrow> extrinsic list" where
  "hydrate_pairs m [] = []"
| "hydrate_pairs m (x # xs) =
     (case m (xt_block_number x, xt_index x) of
        None \<Rightarrow> x # hydrate_pairs m xs
      | Some evs \<Rightarrow> x\<lparr> xt_events := evs \<rparr> # hydrate_pairs (m((xt_block_number x, xt_index x) := None)) xs)"

definition hydrate_events :: "string option \<Rightarrow> reader \<Rightarrow> extrinsic list \<Rightarrow> db \<Rightarrow> extrinsic list data_result" where
  "hydrate_events flt rd xts d = (case xts of
       [] \<Rightarrow> Inr []
     | x # _ \<Rightarrow>
         (let first_block = xt_block_number x in
          if list_all (\<lambda>e. xt_block_number e = first_block) xts
          then map_ok (\<lambda>by_idx. map (\<lambda>e. case by_idx (xt_index e) of
                 Some evs \<Rightarrow> e\<lparr> xt_events := evs \<rparr> | None \<Rightarrow> e) xts)
            (events_by_ext_idx_in_block flt rd first_block d)
          else map_ok (\<lambda>by_pair. hydrate_pairs by_pair xts)
            (events_for_pairs flt rd (map (\<lambda>e. (xt_block_number e, xt_index e)) xts) d)))"

section \<open>Reads\<close>

definition extrinsics_in_block ::
  "(nat \<Rightarrow> string option) \<Rightarrow> reader \<Rightarrow> u64 \<Rightarrow> db \<Rightarrow> extrinsic list data_result" where
  "extrinsics_in_block flt rd block_num d =
     bind_r (run_query (flt 0) (''extrinsics_in_block(net='' @ show_int (rd_sid rd) @ ''/'' @ show_word block_num @ '')'')
       (map (ext_row (rd_sid rd) d) (sorted_list_of_set {k \<in> ext_keys (rd_sid rd) d. fst k = sint block_num}))) (\<lambda>rows.
     hydrate_events (flt 1) rd (map (row_to_extrinsic rd) rows) d)"

text \<open>The timestamp inherent: the first extrinsic of a block, unsigned.\<close>

definition inherent_row :: "int \<Rightarrow> db \<Rightarrow> ext_key \<Rightarrow> bool" where
  "inherent_row sid d k \<longleftrightarrow> snd k = 0 \<and> kx_signer (the (t_extrinsics d (sid, fst k, snd k))) = None"

definition latest_extrinsics ::
  "(nat \<Rightarrow> string option) \<Rightarrow> reader \<Rightarrow> u32 \<Rightarrow> db \<Rightarrow> extrinsic list data_result" where
  "latest_extrinsics flt rd cnt d =
     (if cnt = 0 then Inr []
      else bind_r (run_query (flt 0) (''latest_extrinsics(net='' @ show_int (rd_sid rd) @ '', '' @ show_word cnt @ '')'')
        (map (ext_row (rd_sid rd) d) (take (unat cnt)
          (desc_keys {k \<in> ext_keys (rd_sid rd) d. \<not> inherent_row (rd_sid rd) d k})))) (\<lambda>rows.
        hydrate_events (flt 1) rd (map (row_to_extrinsic rd) rows) d))"

definition tightest :: "('a::linorder \<times> 'b::linorder) option \<Rightarrow> ('a \<times> 'b) option \<Rightarrow> ('a \<times> 'b) option" where
  "tightest cursor strict_upper = (case (cursor, strict_upper) of
       (Some c, Some u) \<Rightarrow> Some (min c u)
     | (Some c, None) \<Rightarrow> Some c
     | (None, Some u) \<Rightarrow> Some u
     | (None, None) \<Rightarrow> None)"

definition ext_where :: "extrinsic_filters \<Rightarrow> (u64 \<times> u32) option \<Rightarrow> int \<Rightarrow> db \<Rightarrow> ext_key \<Rightarrow> bool" where
  "ext_where f upper sid d k =
     (let r = the (t_extrinsics d (sid, fst k, snd k));
          hide_timestamp_inherent = (xf_signed f \<noteq> Some False \<and> xf_pallet f \<noteq> Some ''Timestamp'')
      in (hide_timestamp_inherent \<longrightarrow> \<not> inherent_row sid d k) \<and>
         (case upper of Some (block, idx) \<Rightarrow> k < (sint block, sint idx) | None \<Rightarrow> True) \<and>
         (case xf_signed f of Some sg \<Rightarrow> if sg then kx_signer r \<noteq> None else kx_signer r = None | None \<Rightarrow> True) \<and>
         (case xf_pallet f of Some p \<Rightarrow> kx_pallet r = p | None \<Rightarrow> True) \<and>
         (case xf_call f of Some c \<Rightarrow> kx_call r = c | None \<Rightarrow> True) \<and>
         (case xf_status f of Some st \<Rightarrow> kx_success r = (st = Success) | None \<Rightarrow> True))"

definition list_extrinsics_page_bounded ::
  "(nat \<Rightarrow> string option) \<Rightarrow> string \<Rightarrow> reader \<Rightarrow> page_request \<Rightarrow> (u64 \<times> u32) option \<Rightarrow> extrinsic_filters \<Rightarrow> db
   \<Rightarrow> extrinsic page data_result" where
  "list_extrinsics_page_bounded flt dbg rd req strict_upper f d =
     (if pr_count req = 0 then Inr empty_page
      else bind_r (parse_cursor extrinsic_cursor_from_str req) (\<lambda>cursor.
        let upper = tightest (map_option (\<lambda>c. (ec_block c, ec_index c)) cursor) strict_upper in
        bind_r (run_query (flt 0) (''list_extrinsics_page('' @ dbg @ '')'')
          (map (ext_row (rd_sid rd) d) (take (Suc (unat (pr_count req)))
            (desc_keys {k \<in> ext_keys (rd_sid rd) d. ext_where f upper (rd_sid rd) d k})))) (\<lambda>rows.
        let items = map (row_to_extrinsic rd) rows;
            has_more = length items > unat (pr_count req);
            kept = (if has_more then take (unat (pr_count req)) items else items)
        in bind_r (hydrate_events (flt 1) rd kept d) (\<lambda>hydrated.
           Inr \<lparr> pg_items = hydrated, pg_info = \<lparr> pi_total = None,
             pi_next_cursor = (if has_more then map_option (\<lambda>e. show_extrinsic_cursor
                 (ExtrinsicCursor (xt_block_number e) (xt_index e))) (last_opt hydrated) else None),
             pi_has_more = has_more \<rparr> \<rparr>))))"

definition list_extrinsics_page ::
  "(nat \<Rightarrow> string option) \<Rightarrow> string \<Rightarrow> reader \<Rightarrow> page_request \<Rightarrow> extrinsic_filters \<Rightarrow> db \<Rightarrow> extrinsic page data_result" where
  "list_extrinsics_page flt dbg rd req f d = list_extrinsics_page_bounded flt dbg rd req None f d"

definition with_events :: "string option \<Rightarrow> reader \<Rightarrow> extrinsic \<Rightarrow> db \<Rightarrow> extrinsic option data_result" where
  "with_events flt rd x d = map_ok (\<lambda>evs. Some (x\<lparr> xt_events := evs \<rparr>))
     (events_for_extrinsic flt rd (xt_block_number x) (xt_index x) d)"

definition extrinsic_row_by_block_idx ::
  "(nat \<Rightarrow> string option) \<Rightarrow> reader \<Rightarrow> u64 \<Rightarrow> u32 \<Rightarrow> db \<Rightarrow> extrinsic option data_result" where
  "extrinsic_row_by_block_idx flt rd block_num idx d =
     bind_r (run_query (flt 0) (''extrinsic_by_block_idx(net='' @ show_int (rd_sid rd) @ ''/'' @ show_word block_num @
         '','' @ show_word idx @ '')'')
       (if (sint block_num, sint idx) \<in> ext_keys (rd_sid rd) d
        then Some (ext_row (rd_sid rd) d (sint block_num, sint idx)) else None)) (\<lambda>row.
     case row of None \<Rightarrow> Inr None | Some r \<Rightarrow> with_events (flt 1) rd (row_to_extrinsic rd r) d)"

definition extrinsic_row_by_hash ::
  "(nat \<Rightarrow> string option) \<Rightarrow> reader \<Rightarrow> bytes \<Rightarrow> db \<Rightarrow> extrinsic option data_result" where
  "extrinsic_row_by_hash flt rd hash d =
     (if length hash \<noteq> 32 then Inr None
      else bind_r (run_query (flt 0) (''extrinsic_by_hash(net='' @ show_int (rd_sid rd) @ '')'')
        (case desc_keys {k \<in> ext_keys (rd_sid rd) d. kx_hash (snd (ext_row (rd_sid rd) d k)) = hash} of
           [] \<Rightarrow> None | k # _ \<Rightarrow> Some (ext_row (rd_sid rd) d k))) (\<lambda>row.
        case row of None \<Rightarrow> Inr None | Some r \<Rightarrow> with_events (flt 1) rd (row_to_extrinsic rd r) d))"

datatype extrinsic_lookup = BlockIdx u64 u32 | HashLookup bytes

definition parse_lookup :: "(string \<Rightarrow> bytes option) \<Rightarrow> string \<Rightarrow> extrinsic_lookup option" where
  "parse_lookup hex_to_32 i =
     (case parse_extrinsic_id i of
        Some (block, idx) \<Rightarrow> Some (BlockIdx block idx)
      | None \<Rightarrow> map_option HashLookup (decode_hex32 hex_to_32 i))"

section \<open>Hydration is exact\<close>

definition xt_key :: "extrinsic \<Rightarrow> u64 \<times> u32" where
  "xt_key x = (xt_block_number x, xt_index x)"

definition hydrated :: "reader \<Rightarrow> db \<Rightarrow> extrinsic \<Rightarrow> extrinsic" where
  "hydrated rd d x = x\<lparr> xt_events := ext_events rd (xt_block_number x) (xt_index x) d \<rparr>"

definition bare :: "extrinsic \<Rightarrow> bool" where
  "bare x \<longleftrightarrow> xt_events x = [] \<and> unat (xt_block_number x) < 2 ^ 63 \<and> unat (xt_index x) < 2 ^ 31"

lemma hydrate_one:
  assumes "bare x" and "or_nil evs = ext_events rd (xt_block_number x) (xt_index x) d"
  shows "(case evs of Some es \<Rightarrow> x\<lparr> xt_events := es \<rparr> | None \<Rightarrow> x) = hydrated rd d x"
  using assms by (cases evs; cases x) (auto simp: hydrated_def or_nil_def bare_def)

lemma hydrate_pairs_ok:
  assumes "\<forall>x\<in>set xts. bare x \<and> or_nil (m (xt_key x)) = ext_events rd (xt_block_number x) (xt_index x) d"
    and "distinct (map xt_key xts)"
  shows "hydrate_pairs m xts = map (hydrated rd d) xts"
  using assms
proof (induction xts arbitrary: m)
  case (Cons x xts)
  have x: "(case m (xt_key x) of Some es \<Rightarrow> x\<lparr> xt_events := es \<rparr> | None \<Rightarrow> x) = hydrated rd d x"
    using Cons.prems(1) hydrate_one by simp
  show ?case
  proof (cases "m (xt_key x)")
    case None
    then show ?thesis using x Cons by (simp add: xt_key_def)
  next
    case (Some evs)
    have "xt_key y \<noteq> xt_key x" if "y \<in> set xts" for y using Cons.prems(2) that by (metis distinct.simps(2) image_eqI list.simps(9) set_map)
    then have "hydrate_pairs (m(xt_key x := None)) xts = map (hydrated rd d) xts"
      using Cons.prems by (intro Cons.IH) simp_all
    then show ?thesis using x Some by (simp add: xt_key_def)
  qed
qed simp

lemma hydrate_events_unfold:
  "xts \<noteq> [] \<Longrightarrow> hydrate_events flt rd xts d =
     (if list_all (\<lambda>e. xt_block_number e = xt_block_number (hd xts)) xts
      then map_ok (\<lambda>by_idx. map (\<lambda>e. case by_idx (xt_index e) of
             Some evs \<Rightarrow> e\<lparr> xt_events := evs \<rparr> | None \<Rightarrow> e) xts)
           (events_by_ext_idx_in_block flt rd (xt_block_number (hd xts)) d)
      else map_ok (\<lambda>by_pair. hydrate_pairs by_pair xts) (events_for_pairs flt rd (map xt_key xts) d))"
  by (cases xts) (simp_all add: hydrate_events_def Let_def xt_key_def [abs_def] del: hydrate_pairs.simps)

lemma hydrate_events_ok:
  assumes "events_ok (rd_sid rd) d" and "\<forall>x\<in>set xts. bare x" and "distinct (map xt_key xts)"
  shows "hydrate_events None rd xts d = Inr (map (hydrated rd d) xts)"
proof (cases xts)
  case (Cons y ys)
  let ?b = "xt_block_number y"
  show ?thesis
  proof (cases "list_all (\<lambda>e. xt_block_number e = ?b) xts")
    case True
    obtain m where m: "events_by_ext_idx_in_block None rd ?b d = Inr m"
      "\<And>i. unat i < 2 ^ 31 \<Longrightarrow> or_nil (m i) = ext_events rd ?b i d"
      using events_by_ext_idx_ok [OF assms(1)] by blast
    have "map (\<lambda>e. case m (xt_index e) of Some evs \<Rightarrow> e\<lparr> xt_events := evs \<rparr> | None \<Rightarrow> e) xts = map (hydrated rd d) xts"
    proof (rule map_cong [OF refl])
      fix x assume x: "x \<in> set xts"
      then have "bare x" "xt_block_number x = ?b" using assms(2) True by (auto simp: list_all_iff)
      then show "(case m (xt_index x) of Some evs \<Rightarrow> x\<lparr> xt_events := evs \<rparr> | None \<Rightarrow> x) = hydrated rd d x"
        using m(2) by (intro hydrate_one) (simp_all add: bare_def)
    qed
    then show ?thesis using m(1) True Cons by (subst hydrate_events_unfold) simp_all
  next
    case False
    have "\<And>b i. (b, i) \<in> set (map xt_key xts) \<Longrightarrow> unat b < 2 ^ 63 \<and> unat i < 2 ^ 31"
      using assms(2) by (auto simp: bare_def xt_key_def)
    then obtain m where m: "events_for_pairs None rd (map xt_key xts) d = Inr m"
      "\<And>b i. (b, i) \<in> set (map xt_key xts) \<Longrightarrow> or_nil (m (b, i)) = ext_events rd b i d"
      using events_for_pairs_ok [OF assms(1,3)] by blast
    have "hydrate_pairs m xts = map (hydrated rd d) xts"
      using assms(2,3) m(2) by (intro hydrate_pairs_ok) (auto simp: xt_key_def)
    then show ?thesis using m(1) False Cons by (subst hydrate_events_unfold) simp_all
  qed
qed (simp add: hydrate_events_def)

section \<open>Pages\<close>

definition exts_ok :: "int \<Rightarrow> db \<Rightarrow> bool" where
  "exts_ok sid d \<longleftrightarrow> finite (dom (t_extrinsics d)) \<and>
     (\<forall>(b, i)\<in>ext_keys sid d. 0 \<le> b \<and> b < 2 ^ 63 \<and> 0 \<le> i \<and> i < 2 ^ 31)"

definition matching_exts :: "extrinsic_filters \<Rightarrow> int \<Rightarrow> db \<Rightarrow> ext_key set" where
  "matching_exts f sid d = {k \<in> ext_keys sid d. ext_where f None sid d k}"

definition ext_token :: "ext_key \<Rightarrow> string" where
  "ext_token k = show_extrinsic_cursor (ExtrinsicCursor (word_of_int (fst k)) (word_of_int (snd k)))"

definition read_ext :: "reader \<Rightarrow> db \<Rightarrow> ext_key \<Rightarrow> extrinsic" where
  "read_ext rd d k = hydrated rd d (row_to_extrinsic rd (ext_row (rd_sid rd) d k))"

lemma finite_ext_keys: "finite (dom (t_extrinsics d)) \<Longrightarrow> finite (ext_keys sid d)"
  by (rule finite_subset [OF _ finite_vimageI [of "dom (t_extrinsics d)" "\<lambda>(b, i). (sid, b, i)"]])
    (auto simp: ext_keys_def inj_def)

lemma unat_word_of_int_32: "0 \<le> i \<Longrightarrow> i < 2 ^ 32 \<Longrightarrow> unat (word_of_int i :: u32) = nat i"
  by (simp add: unat_eq_nat_uint uint_word_of_int_eq take_bit_int_eq_self)

lemma unat_word_of_int_64: "0 \<le> i \<Longrightarrow> i < 2 ^ 64 \<Longrightarrow> unat (word_of_int i :: u64) = nat i"
  by (simp add: unat_eq_nat_uint uint_word_of_int_eq take_bit_int_eq_self)

lemma row_key:
  assumes "exts_ok (rd_sid rd) d" and "k \<in> ext_keys (rd_sid rd) d"
  shows "xt_key (row_to_extrinsic rd (ext_row (rd_sid rd) d k)) = (word_of_int (fst k), word_of_int (snd k))
    \<and> bare (row_to_extrinsic rd (ext_row (rd_sid rd) d k))"
proof -
  obtain b i where k: "k = (b, i)" by (cases k)
  then have "0 \<le> b" "b < 2 ^ 63" "0 \<le> i" "i < 2 ^ 31" using assms by (auto simp: exts_ok_def)
  then show ?thesis
    by (simp add: k row_to_extrinsic_def ext_row_def xt_key_def bare_def Let_def unat_word_of_int_32
        unat_word_of_int_64 nat_less_iff max_def)
qed

lemma key_words_inj:
  assumes "exts_ok sid d"
  shows "inj_on (\<lambda>k. (word_of_int (fst k) :: u64, word_of_int (snd k) :: u32)) (ext_keys sid d)"
proof (rule inj_onI)
  fix k l assume "k \<in> ext_keys sid d" "l \<in> ext_keys sid d"
    and eq: "(word_of_int (fst k) :: u64, word_of_int (snd k) :: u32) = (word_of_int (fst l), word_of_int (snd l))"
  then have r: "0 \<le> fst k \<and> fst k < 2 ^ 63 \<and> 0 \<le> snd k \<and> snd k < 2 ^ 31"
    "0 \<le> fst l \<and> fst l < 2 ^ 63 \<and> 0 \<le> snd l \<and> snd l < 2 ^ 31"
    using assms by (auto simp: exts_ok_def)
  from eq have "unat (word_of_int (fst k) :: u64) = unat (word_of_int (fst l) :: u64)"
    "unat (word_of_int (snd k) :: u32) = unat (word_of_int (snd l) :: u32)" by simp_all
  then show "k = l" using r by (simp add: unat_word_of_int_32 unat_word_of_int_64 prod_eq_iff eq_nat_nat_iff)
qed

lemma read_page:
  assumes "exts_ok (rd_sid rd) d" and "events_ok (rd_sid rd) d" and "set ks \<subseteq> ext_keys (rd_sid rd) d" and "distinct ks"
  shows "hydrate_events None rd (map (row_to_extrinsic rd) (map (ext_row (rd_sid rd) d) ks)) d = Inr (map (read_ext rd d) ks)"
proof -
  let ?xs = "map (row_to_extrinsic rd) (map (ext_row (rd_sid rd) d) ks)"
  have "map xt_key ?xs = map (\<lambda>k. (word_of_int (fst k), word_of_int (snd k))) ks"
    using row_key [OF assms(1)] assms(3) by auto
  moreover have "inj_on (\<lambda>k. (word_of_int (fst k) :: u64, word_of_int (snd k) :: u32)) (set ks)"
    using key_words_inj [OF assms(1)] assms(3) by (rule inj_on_subset)
  ultimately have "distinct (map xt_key ?xs)" using assms(4) by (simp only: distinct_map)
  moreover have "\<forall>x\<in>set ?xs. bare x" using row_key [OF assms(1)] assms(3) by auto
  ultimately show ?thesis using hydrate_events_ok [OF assms(2)] by (simp add: read_ext_def comp_def)
qed

lemma list_extrinsics_page_eq:
  assumes "exts_ok (rd_sid rd) d" and "events_ok (rd_sid rd) d" and "0 < unat n"
    and "parse_cursor extrinsic_cursor_from_str \<lparr> pr_count = n, pr_cursor = c \<rparr> = Inr ec"
  shows "list_extrinsics_page_bounded (\<lambda>_. None) dbg rd \<lparr> pr_count = n, pr_cursor = c \<rparr> upper f d =
    Inr (page_of (read_ext rd d) ext_token (unat n) (desc_keys {k \<in> ext_keys (rd_sid rd) d.
      ext_where f (tightest (map_option (\<lambda>c. (ec_block c, ec_index c)) ec) upper) (rd_sid rd) d k}))"
proof -
  let ?ks = "desc_keys {k \<in> ext_keys (rd_sid rd) d.
      ext_where f (tightest (map_option (\<lambda>c. (ec_block c, ec_index c)) ec) upper) (rd_sid rd) d k}"
  let ?probe = "take (Suc (unat n)) ?ks"
  have n0: "n \<noteq> 0" using assms(3) by auto
  have "finite (ext_keys (rd_sid rd) d)" using assms(1) finite_ext_keys by (simp add: exts_ok_def)
  then have sub: "set ?ks \<subseteq> ext_keys (rd_sid rd) d" by auto
  have page: "hydrate_events None rd (map (row_to_extrinsic rd) (map (ext_row (rd_sid rd) d) (take m ?ks))) d =
      Inr (map (read_ext rd d) (take m ?ks))" for m
    using sub by (intro read_page assms(1,2)) (auto dest: in_set_takeD)
  have tok: "show_extrinsic_cursor (ExtrinsicCursor (xt_block_number (read_ext rd d k)) (xt_index (read_ext rd d k))) =
      ext_token k" if "k \<in> set ?ks" for k
    using row_key [OF assms(1), of k] sub that
    by (auto simp: read_ext_def hydrated_def ext_token_def xt_key_def)
  have last_tok: "map_option (\<lambda>e. show_extrinsic_cursor (ExtrinsicCursor (xt_block_number e) (xt_index e)))
      (last_opt (map (read_ext rd d) (take m ?ks))) = map_option ext_token (last_opt (take m ?ks))" for m
  proof (cases "take m ?ks = []")
    case False
    then have "last (take m ?ks) \<in> set ?ks" by (meson in_set_takeD last_in_set)
    from tok [OF this] False show ?thesis by (simp add: last_opt_def last_map)
  qed (simp add: last_opt_def)
  show ?thesis
  proof (cases "unat n < length ?ks")
    case True
    then show ?thesis
      using page [of "unat n"] last_tok [of "unat n"] n0 assms(4)
      by (simp add: list_extrinsics_page_bounded_def run_query_def page_of_def Let_def take_map min_def)
  next
    case False
    then show ?thesis
      using page [of "Suc (unat n)"] n0 assms(4)
      by (simp add: list_extrinsics_page_bounded_def run_query_def page_of_def Let_def)
  qed
qed

interpretation extrinsics: paged_query
  "\<lambda>d req. list_extrinsics_page (\<lambda>_. None) dbg rd req f d"
  "\<lambda>d. exts_ok (rd_sid rd) d \<and> events_ok (rd_sid rd) d"
  "\<lambda>d. desc_keys (matching_exts f (rd_sid rd) d)"
  "\<lambda>k. k" "read_ext rd" ext_token for dbg rd f
proof
  fix d and n :: u32 and r y :: ext_key
  let ?M = "matching_exts f (rd_sid rd) d"
  assume g: "exts_ok (rd_sid rd) d \<and> events_ok (rd_sid rd) d"
  have fin: "finite ?M" using finite_ext_keys g by (simp add: matching_exts_def exts_ok_def)
  show "sorted_wrt (\<lambda>x y. y < x) (desc_keys ?M)" by (rule sorted_desc_keys)
  assume n: "0 < unat n" "unat n < 2 ^ 32 - 1"
  show "\<exists>p. list_extrinsics_page (\<lambda>_. None) dbg rd \<lparr> pr_count = n, pr_cursor = None \<rparr> f d = Inr p \<and>
      same_page p (page_of (read_ext rd d) ext_token (unat n) (desc_keys ?M))"
    using list_extrinsics_page_eq [of rd d n None None] g n
    by (simp add: list_extrinsics_page_def parse_cursor_def tightest_def matching_exts_def)
  assume mem: "r \<in> set (desc_keys ?M)" "y \<in> set (desc_keys ?M)" "y < r"
  then have "0 \<le> fst r" "fst r < 2 ^ 63" "0 \<le> snd r" "snd r < 2 ^ 31"
    using g fin by (auto simp: matching_exts_def exts_ok_def)
  then have r: "(sint (word_of_int (fst r) :: u64), sint (word_of_int (snd r) :: u32)) = r"
    using sint_word_of_int_small [of "fst r"] by (simp add: int_word_sint mod_pos_pos_trivial)
  have "{k \<in> ext_keys (rd_sid rd) d. ext_where f (Some (word_of_int (fst r), word_of_int (snd r))) (rd_sid rd) d k} =
      {k \<in> ?M. k < r}"
    using r by (auto simp: matching_exts_def ext_where_def Let_def)
  then show "\<exists>p. list_extrinsics_page (\<lambda>_. None) dbg rd \<lparr> pr_count = n, pr_cursor = Some (ext_token r) \<rparr> f d = Inr p \<and>
      same_page p (page_of (read_ext rd d) ext_token (unat n) (filter (\<lambda>x. x < r) (desc_keys ?M)))"
    using list_extrinsics_page_eq [of rd d n "Some (ext_token r)"] g n
    by (simp add: list_extrinsics_page_def ext_token_def extrinsic_codec.parse_cursor_shw tightest_def desc_keys_filter [OF fin])
qed

section \<open>Properties\<close>

text \<open>C9: The extrinsic list is complete and its events are right. Following \<^verbatim>\<open>next_cursor\<close> from
  the first page yields every stored extrinsic that matches the filters, newest first, each once; and
  the events that the bulk query attaches to each are those the single-extrinsic query returns,
  whether a page lies in one block or in many.\<close>

theorem extrinsic_pages_complete:
  assumes "exts_ok (rd_sid rd) d" and "events_ok (rd_sid rd) d" and "0 < unat n" and "unat n < 2 ^ 32 - 1"
  shows "follow (\<lambda>req. list_extrinsics_page (\<lambda>_. None) dbg rd req f d) n
      (Suc (card (matching_exts f (rd_sid rd) d))) None =
    Some (map (read_ext rd d) (desc_keys (matching_exts f (rd_sid rd) d))) \<and>
    events_for_extrinsic None rd (xt_block_number (read_ext rd d k)) (xt_index (read_ext rd d k)) d =
      Inr (xt_events (read_ext rd d k))"
  using extrinsics.follow_complete [OF conjI [OF assms(1,2)] assms(3,4)]
  by (simp add: desc_keys_def events_for_extrinsic_ok) (simp add: read_ext_def hydrated_def)

definition example_extrinsic_db :: "string \<Rightarrow> bytes option \<Rightarrow> extrinsic_db" where
  "example_extrinsic_db call who = \<lparr> kx_hash = [], kx_pallet = ''Balances'', kx_call = call, kx_signer = who,
     kx_tip = None, kx_fee = 0, kx_nonce = None, kx_success = True, kx_args_scale = [], kx_timestamp_ms = 0 \<rparr>"

definition example_event_db :: event_db where
  "example_event_db = \<lparr> ke_phase_kind = phase_apply_extrinsic, ke_phase_idx = Some 1, ke_pallet = ''Balances'',
     ke_variant = ''Transfer'', ke_data_scale = [], ke_timestamp_ms = 0 \<rparr>"

definition example_exts_db :: db where
  "example_exts_db = empty_db\<lparr> t_extrinsics := [(1, 5, 0) \<mapsto> example_extrinsic_db ''set'' None,
       (1, 5, 1) \<mapsto> example_extrinsic_db ''transfer'' (Some [7]), (1, 6, 1) \<mapsto> example_extrinsic_db ''burn'' (Some [7])],
     t_events := [(1, 5, 0) \<mapsto> example_event_db, (1, 6, 0) \<mapsto> example_event_db] \<rparr>"

definition example_reader :: reader where
  "example_reader = \<lparr> rd_net = ''allfeat'', rd_sid = 1, rd_pfx = 42, rd_dec = example_decoder \<rparr>"

lemma example_ext_keys: "ext_keys 1 example_exts_db = {(5, 0), (5, 1), (6, 1)}"
  by (auto simp: ext_keys_def example_exts_db_def)

lemma example_exts_ok: "exts_ok 1 example_exts_db"
  using example_ext_keys by (simp add: exts_ok_def) (simp add: example_exts_db_def)

lemma example_events_ok: "events_ok 1 example_exts_db"
  by (simp add: events_ok_def example_exts_db_def example_event_db_def empty_db_def)

text \<open>One extrinsic per page: the two signed ones, without the timestamp inherent.\<close>

lemma extrinsic_pages_complete_witness:
  "\<exists>items. follow (\<lambda>req. list_extrinsics_page (\<lambda>_. None) [] example_reader req no_extrinsic_filters example_exts_db) 1 3 None =
     Some items \<and> map xt_call items = [''burn'', ''transfer'']"
proof -
  have m: "matching_exts no_extrinsic_filters 1 example_exts_db = {(5, 1), (6, 1)}"
    using example_ext_keys
    by (auto simp: matching_exts_def ext_where_def no_extrinsic_filters_def inherent_row_def example_exts_db_def
        example_extrinsic_db_def)
  have sid: "rd_sid example_reader = 1" by (simp add: example_reader_def)
  have d: "desc_keys {(5, 1), (6, 1 :: int)} = [(6, 1), (5 :: int, 1)]" by (simp add: desc_keys_def)
  have "0 < unat (1 :: u32)" "unat (1 :: u32) < 2 ^ 32 - 1" by simp_all
  then have c: "follow (\<lambda>req. list_extrinsics_page (\<lambda>_. None) [] example_reader req no_extrinsic_filters example_exts_db) 1
      (Suc (card {(5, 1), (6 :: int, 1 :: int)})) None = Some (map (read_ext example_reader example_exts_db) [(6, 1), (5, 1)])"
    using extrinsic_pages_complete [of example_reader, unfolded sid, OF example_exts_ok example_events_ok,
        of 1 "[]" no_extrinsic_filters] unfolding m d by blast
  have n: "Suc (card {(5, 1), (6 :: int, 1 :: int)}) = 3" by simp
  have calls: "map xt_call (map (read_ext example_reader example_exts_db) [(6, 1), (5, 1)]) = [''burn'', ''transfer'']"
    by (simp add: read_ext_def hydrated_def row_to_extrinsic_def ext_row_def sid)
      (simp add: example_exts_db_def example_extrinsic_db_def Let_def)
  show ?thesis by (intro exI conjI) (rule c [unfolded n], rule calls)
qed

end
