(* ===== verification/TransferQueries.thy ===== *)
theory TransferQueries
  imports ExtrinsicQueries
begin

text \<open>
  The transfer reads of \<^verbatim>\<open>src/data/indexed/queries/transfers.rs\<close>: movement rows of the transfer kind
  joined with the event and the extrinsic they come from. \<^verbatim>\<open>parse_id\<close> is the address parser of the
  client library and \<^verbatim>\<open>dbg\<close> the \<^verbatim>\<open>Debug\<close> text of a request or of a string, for error messages only.
  Rows of one block and event index have no order of their own in the source; here the account breaks
  the tie.
\<close>

section \<open>Rows\<close>

definition parse_ss58_filter ::
  "(string \<Rightarrow> bytes option) \<Rightarrow> (string \<Rightarrow> string) \<Rightarrow> string \<Rightarrow> string \<Rightarrow> bytes data_result" where
  "parse_ss58_filter parse_id dbg value field = (case parse_id value of
       Some i \<Rightarrow> Inr i
     | None \<Rightarrow> Inl (BadRequest (''invalid SS58 address in '' @ field @ '': '' @ dbg value)))"

type_synonym mov_key = "int \<times> int \<times> bytes"

record transfer_row =
  rw_key :: mov_key
  rw_mov :: movement_db
  rw_ev :: event_db
  rw_ext :: "int \<times> extrinsic_db"

text \<open>The two inner joins: the event of the movement, and the extrinsic the event's phase names.\<close>

definition join_row :: "int \<Rightarrow> db \<Rightarrow> mov_key \<Rightarrow> transfer_row option" where
  "join_row sid d k = (case k of (b, i, a) \<Rightarrow>
     Option.bind (t_movements d (sid, b, i, a)) (\<lambda>m.
     Option.bind (t_events d (sid, b, i)) (\<lambda>e.
     Option.bind (ke_phase_idx e) (\<lambda>j.
     Option.bind (t_extrinsics d (sid, b, j)) (\<lambda>x.
       Some \<lparr> rw_key = k, rw_mov = m, rw_ev = e, rw_ext = (j, x) \<rparr>)))))"

definition joined_rows :: "int \<Rightarrow> (transfer_row \<Rightarrow> bool) \<Rightarrow> db \<Rightarrow> transfer_row list" where
  "joined_rows sid p d = map (\<lambda>k. the (join_row sid d k))
     (desc_keys {k. \<exists>r. join_row sid d k = Some r \<and> p r})"

definition sender_row :: "transfer_row \<Rightarrow> bool" where
  "sender_row r \<longleftrightarrow> km_kind (rw_mov r) = 0 \<and> km_delta (rw_mov r) < 0"

text \<open>A row to a transfer. The identifier, signer, arguments and result of the extrinsic are built as
  in \<^verbatim>\<open>row_to_extrinsic\<close>.\<close>

definition row_to_transfer :: "reader \<Rightarrow> transfer_row \<Rightarrow> transfer option" where
  "row_to_transfer rd r = (case rw_key r of (block_num, event_idx, account) \<Rightarrow>
     Option.bind (ke_phase_idx (rw_ev r)) (\<lambda>phase_idx.
     Option.bind (rd_enc rd account) (\<lambda>account_str.
     Option.bind (Option.bind (km_counterparty (rw_mov r)) (rd_enc rd)) (\<lambda>counterparty_str.
     let delta = km_delta (rw_mov r) in
     if \<not> (- (2 ^ 127) \<le> delta \<and> delta < 2 ^ 127) then None
     else
       let (frm, to) = (if delta < 0 then (account_str, counterparty_str) else (counterparty_str, account_str)) in
       Some \<lparr> tr_extrinsic = row_to_extrinsic rd ((block_num, phase_idx), snd (rw_ext r)),
              tr_from = frm, tr_to = to, tr_amount = word_of_int \<bar>delta\<bar> \<rparr>))))"

section \<open>Reads\<close>

definition latest_transfers ::
  "string option \<Rightarrow> reader \<Rightarrow> u32 \<Rightarrow> db \<Rightarrow> transfer list data_result" where
  "latest_transfers flt rd cnt d =
     (if cnt = 0 then Inr []
      else map_ok (List.map_filter (row_to_transfer rd))
        (run_query flt (''latest_transfers(net='' @ show_int (rd_sid rd) @ '', '' @ show_word cnt @ '')'')
          (take (unat cnt) (joined_rows (rd_sid rd) sender_row d))))"

definition transfer_where ::
  "bytes option \<Rightarrow> bytes option \<Rightarrow> (u64 \<times> u32) option \<Rightarrow> transfer_row \<Rightarrow> bool" where
  "transfer_where from_bytes to_bytes upper r = (case rw_key r of (b, i, a) \<Rightarrow>
     sender_row r \<and>
     (case upper of Some (block, event_idx) \<Rightarrow> (b, i) < (sint block, sint event_idx) | None \<Rightarrow> True) \<and>
     (case from_bytes of Some x \<Rightarrow> a = x | None \<Rightarrow> True) \<and>
     (case to_bytes of Some x \<Rightarrow> km_counterparty (rw_mov r) = Some x | None \<Rightarrow> True))"

definition row_cursor :: "mov_key \<Rightarrow> transfer_cursor" where
  "row_cursor k = (case k of (b, i, a) \<Rightarrow> TransferCursor (word_of_int (max b 0)) (word_of_int (max i 0)))"

definition filter_bytes ::
  "(string \<Rightarrow> bytes option) \<Rightarrow> (string \<Rightarrow> string) \<Rightarrow> string option \<Rightarrow> string \<Rightarrow> bytes option data_result" where
  "filter_bytes parse_id dbg value field = (case value of
       Some s \<Rightarrow> map_ok Some (parse_ss58_filter parse_id dbg s field) | None \<Rightarrow> Inr None)"

definition list_transfers_page_bounded ::
  "(string \<Rightarrow> bytes option) \<Rightarrow> (string \<Rightarrow> string) \<Rightarrow> string \<Rightarrow> string option \<Rightarrow> reader \<Rightarrow> page_request
   \<Rightarrow> (u64 \<times> u32) option \<Rightarrow> transfer_filters \<Rightarrow> db \<Rightarrow> transfer page data_result" where
  "list_transfers_page_bounded parse_id dbg req_dbg flt rd req strict_upper f d =
     (if pr_count req = 0 then Inr empty_page
      else bind_r (parse_cursor transfer_cursor_from_str req) (\<lambda>cursor.
        let upper = tightest (map_option (\<lambda>c. (tc_block c, tc_event_idx c)) cursor) strict_upper in
        bind_r (filter_bytes parse_id dbg (tf_from f) ''from'') (\<lambda>from_bytes.
        bind_r (filter_bytes parse_id dbg (tf_to f) ''to'') (\<lambda>to_bytes.
        map_ok (\<lambda>rows.
            let probed = List.map_filter (\<lambda>r. map_option (\<lambda>t. (t, row_cursor (rw_key r))) (row_to_transfer rd r)) rows;
                has_more = length probed > unat (pr_count req);
                kept = (if has_more then take (unat (pr_count req)) probed else probed)
            in \<lparr> pg_items = map fst kept, pg_info = \<lparr> pi_total = None,
                 pi_next_cursor = (if has_more then map_option (show_transfer_cursor \<circ> snd) (last_opt kept) else None),
                 pi_has_more = has_more \<rparr> \<rparr>)
          (run_query flt (''list_transfers_page('' @ req_dbg @ '')'')
            (take (Suc (unat (pr_count req))) (joined_rows (rd_sid rd) (transfer_where from_bytes to_bytes upper) d)))))))"

definition list_transfers_page ::
  "(string \<Rightarrow> bytes option) \<Rightarrow> (string \<Rightarrow> string) \<Rightarrow> string \<Rightarrow> string option \<Rightarrow> reader \<Rightarrow> page_request
   \<Rightarrow> transfer_filters \<Rightarrow> db \<Rightarrow> transfer page data_result" where
  "list_transfers_page parse_id dbg req_dbg flt rd req f d =
     list_transfers_page_bounded parse_id dbg req_dbg flt rd req None f d"

definition account_transfer_history ::
  "string option \<Rightarrow> reader \<Rightarrow> bytes \<Rightarrow> u32 \<Rightarrow> db \<Rightarrow> transfer list data_result" where
  "account_transfer_history flt rd account cnt d =
     (if cnt = 0 then Inr []
      else map_ok (List.map_filter (row_to_transfer rd))
        (run_query flt (''account_transfer_history(net='' @ show_int (rd_sid rd) @ '')'')
          (take (unat cnt) (joined_rows (rd_sid rd)
            (\<lambda>r. km_kind (rw_mov r) = 0 \<and> snd (snd (rw_key r)) = account) d))))"

section \<open>Joined rows\<close>

definition transfers_ok :: "int \<Rightarrow> db \<Rightarrow> bool" where
  "transfers_ok sid d \<longleftrightarrow> finite (dom (t_movements d)) \<and>
     (\<forall>b i a m. t_movements d (sid, b, i, a) = Some m \<longrightarrow>
        0 \<le> b \<and> b < 2 ^ 63 \<and> 0 \<le> i \<and> i < 2 ^ 31 \<and> length a = 32 \<and>
        - (2 ^ 127) \<le> km_delta m \<and> km_delta m < 2 ^ 127 \<and>
        (km_kind m = 0 \<longrightarrow> (\<exists>c. km_counterparty m = Some c \<and> length c = 32))) \<and>
     (\<forall>b i a a' m m'. t_movements d (sid, b, i, a) = Some m \<longrightarrow> t_movements d (sid, b, i, a') = Some m' \<longrightarrow>
        km_kind m = 0 \<longrightarrow> km_kind m' = 0 \<longrightarrow> km_delta m < 0 \<longrightarrow> km_delta m' < 0 \<longrightarrow> a = a')"

lemma join_row_Some:
  "join_row sid d (b, i, a) = Some r \<longleftrightarrow> (\<exists>m e j x. t_movements d (sid, b, i, a) = Some m \<and> t_events d (sid, b, i) = Some e \<and>
     ke_phase_idx e = Some j \<and> t_extrinsics d (sid, b, j) = Some x \<and>
     r = \<lparr> rw_key = (b, i, a), rw_mov = m, rw_ev = e, rw_ext = (j, x) \<rparr>)"
  by (auto simp: join_row_def bind_eq_Some_conv)

lemma finite_joined: "finite (dom (t_movements d)) \<Longrightarrow> finite {k. \<exists>r. join_row sid d k = Some r \<and> p r}"
  by (rule finite_subset [OF _ finite_vimageI [of "dom (t_movements d)" "\<lambda>(b, i, a). (sid, b, i, a)"]])
    (auto simp: inj_def join_row_Some)

lemma join_row_key: "join_row sid d k = Some r \<Longrightarrow> rw_key r = k"
  by (cases k) (auto simp: join_row_Some)

lemma joined_rows_mem:
  assumes "finite (dom (t_movements d))"
  shows "r \<in> set (joined_rows sid p d) \<longleftrightarrow> join_row sid d (rw_key r) = Some r \<and> p r"
proof -
  let ?K = "{k. \<exists>r. join_row sid d k = Some r \<and> p r}"
  have "r \<in> set (joined_rows sid p d) \<longleftrightarrow> (\<exists>k\<in>?K. r = the (join_row sid d k))"
    using finite_joined [OF assms] by (simp add: joined_rows_def image_iff)
  also have "\<dots> \<longleftrightarrow> (\<exists>k. join_row sid d k = Some r \<and> p r)" by force
  also have "\<dots> \<longleftrightarrow> join_row sid d (rw_key r) = Some r \<and> p r" using join_row_key by blast
  finally show ?thesis .
qed

lemma joined_rows_filter:
  assumes "finite (dom (t_movements d))"
  shows "filter q (joined_rows sid p d) = joined_rows sid (\<lambda>r. p r \<and> q r) d"
proof -
  have "{k \<in> {k. \<exists>r. join_row sid d k = Some r \<and> p r}. q (the (join_row sid d k))} =
      {k. \<exists>r. join_row sid d k = Some r \<and> p r \<and> q r}" by auto
  then show ?thesis
    using desc_keys_filter [OF finite_joined [OF assms], of "\<lambda>k. q (the (join_row sid d k))" sid p]
    by (simp add: joined_rows_def filter_map comp_def)
qed

lemma joined_rows_sorted:
  assumes "finite (dom (t_movements d))"
  shows "sorted_wrt (\<lambda>r s. rw_key s < rw_key r) (joined_rows sid p d)"
proof -
  let ?ks = "desc_keys {k. \<exists>r. join_row sid d k = Some r \<and> p r}"
  have "map rw_key (joined_rows sid p d) = map (\<lambda>k. k) ?ks"
    unfolding joined_rows_def map_map
    using finite_joined [OF assms] by (intro map_cong refl) (auto dest: join_row_key)
  then have "sorted_wrt (\<lambda>k l. l < k) (map rw_key (joined_rows sid p d))" using sorted_desc_keys by simp
  then show ?thesis by (simp add: sorted_wrt_map)
qed

section \<open>Pages\<close>

definition read_transfer :: "reader \<Rightarrow> transfer_row \<Rightarrow> transfer" where
  "read_transfer rd r = the (row_to_transfer rd r)"

definition transfer_token :: "transfer_row \<Rightarrow> string" where
  "transfer_token r = show_transfer_cursor (row_cursor (rw_key r))"

definition row_pos :: "transfer_row \<Rightarrow> int \<times> int" where
  "row_pos r = (fst (rw_key r), fst (snd (rw_key r)))"

lemma row_converts:
  assumes "transfers_ok (rd_sid rd) d" and "join_row (rd_sid rd) d (rw_key r) = Some r" and "km_kind (rw_mov r) = 0"
  shows "row_to_transfer rd r = Some (read_transfer rd r)"
proof -
  obtain b i a where k: "rw_key r = (b, i, a)" by (metis prod_cases3)
  obtain m e j x where r: "t_movements d (rd_sid rd, b, i, a) = Some m" "ke_phase_idx e = Some j"
    "r = \<lparr> rw_key = (b, i, a), rw_mov = m, rw_ev = e, rw_ext = (j, x) \<rparr>"
    using assms(2) unfolding k by (auto simp: join_row_Some)
  then have m: "length a = 32" "- (2 ^ 127) \<le> km_delta m" "km_delta m < 2 ^ 127"
    using assms(1) unfolding transfers_ok_def by blast+
  obtain c where c: "km_counterparty m = Some c" "length c = 32"
    using assms(1,3) r(1,3) unfolding transfers_ok_def by force
  show ?thesis using r m c by (auto simp: read_transfer_def row_to_transfer_def rd_enc_def Let_def)
qed

lemma map_filter_total: "(\<And>x. x \<in> set xs \<Longrightarrow> f x = Some (g x)) \<Longrightarrow> List.map_filter f xs = map g xs"
  by (induction xs) (simp_all add: List.map_filter_simps)

lemma list_transfers_page_eq:
  assumes "transfers_ok (rd_sid rd) d" and "n \<noteq> 0"
    and "parse_cursor transfer_cursor_from_str \<lparr> pr_count = n, pr_cursor = c \<rparr> = Inr tc"
    and "filter_bytes parse_id dbg (tf_from f) ''from'' = Inr fb" and "filter_bytes parse_id dbg (tf_to f) ''to'' = Inr tb"
  shows "list_transfers_page_bounded parse_id dbg rq None rd \<lparr> pr_count = n, pr_cursor = c \<rparr> upper f d =
    Inr (page_of (read_transfer rd) transfer_token (unat n) (joined_rows (rd_sid rd)
      (transfer_where fb tb (tightest (map_option (\<lambda>c. (tc_block c, tc_event_idx c)) tc) upper)) d))"
proof -
  let ?rows = "joined_rows (rd_sid rd)
      (transfer_where fb tb (tightest (map_option (\<lambda>c. (tc_block c, tc_event_idx c)) tc) upper)) d"
  have fin: "finite (dom (t_movements d))" using assms(1) by (simp add: transfers_ok_def)
  have conv: "row_to_transfer rd r = Some (read_transfer rd r)" if "r \<in> set ?rows" for r
    using that row_converts [OF assms(1)] joined_rows_mem [OF fin]
    by (auto simp: transfer_where_def sender_row_def split: prod.splits)
  have probed: "List.map_filter (\<lambda>r. map_option (\<lambda>t. (t, row_cursor (rw_key r))) (row_to_transfer rd r)) (take m ?rows) =
      map (\<lambda>r. (read_transfer rd r, row_cursor (rw_key r))) (take m ?rows)" for m
    using conv by (intro map_filter_total) (auto dest: in_set_takeD)
  have all: "List.map_filter (\<lambda>r. map_option (\<lambda>t. (t, row_cursor (rw_key r))) (row_to_transfer rd r)) ?rows =
      map (\<lambda>r. (read_transfer rd r, row_cursor (rw_key r))) ?rows"
    using conv by (intro map_filter_total) auto
  show ?thesis
    using assms(2-5)
    by (simp add: probed all list_transfers_page_bounded_def run_query_def page_of_def Let_def transfer_token_def comp_def
        take_map last_opt_def last_map min_def)
qed

definition filter_row :: "transfer_filters \<Rightarrow> (string \<Rightarrow> bytes option) \<Rightarrow> transfer_row \<Rightarrow> bool" where
  "filter_row f parse_id = transfer_where (Option.bind (tf_from f) parse_id) (Option.bind (tf_to f) parse_id) None"

text \<open>The addresses of the filters parse.\<close>

definition filters_parse :: "(string \<Rightarrow> bytes option) \<Rightarrow> transfer_filters \<Rightarrow> bool" where
  "filters_parse parse_id f \<longleftrightarrow> (\<forall>s. tf_from f = Some s \<or> tf_to f = Some s \<longrightarrow> parse_id s \<noteq> None)"

lemma filter_bytes_ok:
  "filters_parse parse_id f \<Longrightarrow>
     filter_bytes parse_id dbg (tf_from f) ''from'' = Inr (Option.bind (tf_from f) parse_id) \<and>
     filter_bytes parse_id dbg (tf_to f) ''to'' = Inr (Option.bind (tf_to f) parse_id)"
  by (auto simp: filters_parse_def filter_bytes_def parse_ss58_filter_def split: option.splits)

interpretation transfers: paged_query
  "\<lambda>d req. list_transfers_page parse_id dbg rq None rd req f d"
  "\<lambda>d. transfers_ok (rd_sid rd) d \<and> filters_parse parse_id f"
  "\<lambda>d. joined_rows (rd_sid rd) (filter_row f parse_id) d"
  row_pos "\<lambda>_. read_transfer rd" transfer_token for parse_id dbg rq rd f
proof
  fix d and n :: u32 and r y
  let ?M = "joined_rows (rd_sid rd) (filter_row f parse_id) d"
  assume g: "transfers_ok (rd_sid rd) d \<and> filters_parse parse_id f"
  then have fin: "finite (dom (t_movements d))" by (simp add: transfers_ok_def)
  note fb = filter_bytes_ok [OF conjunct2 [OF g], THEN conjunct1, of dbg] filter_bytes_ok [OF conjunct2 [OF g], THEN conjunct2, of dbg]
  have mem: "join_row (rd_sid rd) d (rw_key s) = Some s" "sender_row s" if "s \<in> set ?M" for s
    using that by (auto simp: joined_rows_mem [OF fin] filter_row_def transfer_where_def split: prod.splits)
  show "sorted_wrt (\<lambda>x y. row_pos y < row_pos x) ?M"
  proof (rule sorted_wrt_mono_rel [OF _ joined_rows_sorted [OF fin]])
    fix s t assume st: "s \<in> set ?M" "t \<in> set ?M" "rw_key t < rw_key s"
    obtain b i a b' i' a' where k: "rw_key s = (b, i, a)" "rw_key t = (b', i', a')" by (metis prod_cases3)
    have "row_pos t = row_pos s \<Longrightarrow> a = a'"
      using g mem [OF st(1)] mem [OF st(2)] unfolding k join_row_Some transfers_ok_def
      by (auto simp: row_pos_def k sender_row_def)
    then show "row_pos t < row_pos s" using st(3) by (fastforce simp: row_pos_def k)
  qed
  assume n: "0 < unat n" "unat n < 2 ^ 32 - 1"
  then have n0: "n \<noteq> 0" by auto
  show "\<exists>p. list_transfers_page parse_id dbg rq None rd \<lparr> pr_count = n, pr_cursor = None \<rparr> f d = Inr p \<and>
      same_page p (page_of (read_transfer rd) transfer_token (unat n) ?M)"
    using list_transfers_page_eq [OF _ n0 _ fb, of rd d None None rq None] g
    by (simp add: list_transfers_page_def parse_cursor_def tightest_def filter_row_def)
  assume ry: "r \<in> set ?M" "y \<in> set ?M" "row_pos y < row_pos r"
  obtain b i a where k: "rw_key r = (b, i, a)" by (metis prod_cases3)
  have rng: "0 \<le> b" "b < 2 ^ 63" "0 \<le> i" "i < 2 ^ 31"
    using g mem [OF ry(1)] unfolding k join_row_Some transfers_ok_def by blast+
  then have "(sint (word_of_int b :: u64), sint (word_of_int i :: u32)) = (b, i)"
    using sint_word_of_int_small [of b] by (simp add: int_word_sint mod_pos_pos_trivial)
  then have "transfer_where fb tb (Some (word_of_int b, word_of_int i)) = (\<lambda>s. transfer_where fb tb None s \<and> row_pos s < row_pos r)" for fb tb
    by (auto simp: transfer_where_def row_pos_def k fun_eq_iff split: prod.splits)
  then have "joined_rows (rd_sid rd) (transfer_where (Option.bind (tf_from f) parse_id) (Option.bind (tf_to f) parse_id)
      (Some (word_of_int b, word_of_int i))) d = filter (\<lambda>x. row_pos x < row_pos r) ?M"
    by (simp add: joined_rows_filter [OF fin] filter_row_def)
  then show "\<exists>p. list_transfers_page parse_id dbg rq None rd \<lparr> pr_count = n, pr_cursor = Some (transfer_token r) \<rparr> f d = Inr p \<and>
      same_page p (page_of (read_transfer rd) transfer_token (unat n) (filter (\<lambda>x. row_pos x < row_pos r) ?M))"
    using list_transfers_page_eq [OF _ n0 _ fb, of rd d "Some (transfer_token r)" _ rq None] g rng
    by (simp add: list_transfers_page_def transfer_token_def transfer_codec.parse_cursor_shw tightest_def row_cursor_def k)
qed

section \<open>Properties\<close>


definition example_movement :: "int \<Rightarrow> bytes \<Rightarrow> movement_db" where
  "example_movement delta other = \<lparr> km_kind = 0, km_delta = delta, km_counterparty = Some other \<rparr>"

text \<open>Two transfers in one block, each with the row of its recipient beside it.\<close>

definition example_transfers_db :: db where
  "example_transfers_db = example_exts_db\<lparr>
     t_events := [(1, 5, 0) \<mapsto> example_event_db, (1, 5, 1) \<mapsto> example_event_db],
     t_movements := [(1, 5, 0, replicate 32 7) \<mapsto> example_movement (- 10) (replicate 32 8),
       (1, 5, 0, replicate 32 8) \<mapsto> example_movement 10 (replicate 32 7),
       (1, 5, 1, replicate 32 8) \<mapsto> example_movement (- 4) (replicate 32 7),
       (1, 5, 1, replicate 32 7) \<mapsto> example_movement 4 (replicate 32 8)] \<rparr>"

lemma example_bytes_differ: "(replicate 32 7 :: bytes) \<noteq> replicate 32 8"
  by simp

lemma example_transfers_ok: "transfers_ok 1 example_transfers_db"
  by (simp add: transfers_ok_def example_transfers_db_def example_movement_def)

lemma example_joined:
  "map (\<lambda>r. fst (snd (rw_key r))) (joined_rows 1 (filter_row no_transfer_filters parse_id) example_transfers_db) = [1, 0] \<and>
   map (\<lambda>r. km_delta (rw_mov r)) (joined_rows 1 (filter_row no_transfer_filters parse_id) example_transfers_db) = [- 4, - 10]"
proof -
  let ?p = "filter_row no_transfer_filters parse_id"
  have "{k. \<exists>r. join_row 1 example_transfers_db k = Some r \<and> ?p r} = {(5, 1, replicate 32 8), (5, 0, replicate 32 7)}"
    by (auto simp: join_row_Some filter_row_def transfer_where_def sender_row_def no_transfer_filters_def
        example_transfers_db_def example_exts_db_def example_movement_def example_event_db_def split: if_splits)
  moreover have "desc_keys {(5, 1, replicate 32 8), (5 :: int, 0 :: int, replicate 32 7 :: bytes)} =
      [(5, 1, replicate 32 8), (5, 0, replicate 32 7)]"
    by (simp add: desc_keys_def)
  ultimately show ?thesis
    by (simp add: joined_rows_def join_row_def example_transfers_db_def example_exts_db_def
        example_movement_def example_event_db_def)
qed


text \<open>C25: Both sides of a transfer tell the same story. Whichever of the two movement rows of a
  \<^verbatim>\<open>Balances.Transfer\<close> event is read, sender's or recipient's, the transfer shown goes from the sender
  to the recipient with the amount of the event, when the amount is positive and fits the column.\<close>

theorem transfer_sides_agree:
  assumes "0 < amount" and "unat amount < 2 ^ 127" and "length frm = 32" and "length dest = 32"
    and "r \<in> set (rows_of_event b i (EvTransfer frm dest amount))" and "ke_phase_idx e = Some j"
  shows "row_to_transfer rd \<lparr> rw_key = (blk, idx, mv_account r), rw_mov = movement_db_of r, rw_ev = e, rw_ext = (j, x) \<rparr> =
    Some \<lparr> tr_extrinsic = row_to_extrinsic rd ((blk, j), x),
      tr_from = dc_encode (rd_dec rd) frm (rd_pfx rd), tr_to = dc_encode (rd_dec rd) dest (rd_pfx rd), tr_amount = amount \<rparr>"
proof -
  have "0 < int (unat amount)" "int (unat amount) < 2 ^ 127"
    using assms(1,2) by (simp_all add: word_less_nat_alt flip: of_nat_less_iff [where 'a = int])
  moreover have "(word_of_int (int (unat amount)) :: u128) = amount" by simp
  ultimately show ?thesis
    using assms(3-6) sint_amount [OF assms(2)] sint_neg_amount [OF assms(2)]
    by (auto simp: row_to_transfer_def movement_db_of_def two_rows_def rd_enc_def Let_def)
qed

lemma transfer_sides_agree_witness:
  "map_option tr_amount (row_to_transfer example_reader \<lparr> rw_key = (5, 0, replicate 32 8),
     rw_mov = movement_db_of (rows_of_event 5 0 (EvTransfer (replicate 32 7) (replicate 32 8) 10) ! 1),
     rw_ev = example_event_db, rw_ext = (1, example_extrinsic_db ''transfer'' None) \<rparr>) = Some 10"
  using transfer_sides_agree [of 10 "replicate 32 7" "replicate 32 8"
      "rows_of_event 5 0 (EvTransfer (replicate 32 7) (replicate 32 8) 10) ! 1" 5 0 example_event_db 1 example_reader 5 0
      "example_extrinsic_db ''transfer'' None"]
  by (simp add: two_rows_def example_event_db_def)

text \<open>A transfer of nothing is misread. Neither row of a zero amount has a negative delta, so neither
  is in the transfer lists, and the sender's history shows the transfer with its direction reversed.\<close>

theorem zero_transfer_reversed:
  "filter sender_row (map (\<lambda>m. \<lparr> rw_key = k, rw_mov = movement_db_of m, rw_ev = e, rw_ext = xt \<rparr>)
     (rows_of_event b i (EvTransfer frm dest 0))) = [] \<and>
   map_option (\<lambda>t. (tr_from t, tr_to t)) (row_to_transfer example_reader \<lparr> rw_key = (5, 0, replicate 32 7),
     rw_mov = movement_db_of (rows_of_event 5 0 (EvTransfer (replicate 32 7) (replicate 32 8) 0) ! 0),
     rw_ev = example_event_db, rw_ext = (1, x) \<rparr>) =
   Some (dc_encode example_decoder (replicate 32 8) 42, dc_encode example_decoder (replicate 32 7) 42)"
  by (auto simp: two_rows_def sender_row_def movement_db_of_def row_to_transfer_def example_event_db_def rd_enc_def
      example_reader_def Let_def)

end
