(* ===== verification/AccountQueries.thy ===== *)
theory AccountQueries
  imports TransferQueries
begin

text \<open>
  The account reads of \<^verbatim>\<open>src/data/indexed/queries/accounts.rs\<close> and the upgrade timeline of
  \<^verbatim>\<open>queries/runtime.rs\<close>. \<^verbatim>\<open>ORDER BY (free + reserved) DESC\<close> leaves the order of equal totals to the
  database; here the account breaks the tie.
\<close>

section \<open>Accounts\<close>

text \<open>The balance columns are the text of unsigned 128-bit numbers; the frozen one is not shown.\<close>

definition row_to_account :: "reader \<Rightarrow> bytes \<times> account_db \<Rightarrow> account option" where
  "row_to_account rd r = (case r of (account, k) \<Rightarrow>
     map_option (\<lambda>address.
       let free = (if ka_free k < 2 ^ 128 then word_of_nat (ka_free k) else 0) :: u128;
           rsv = (if ka_reserved k < 2 ^ 128 then word_of_nat (ka_reserved k) else 0) :: u128
       in \<lparr> ac_address = address,
            ac_balance = \<lparr> ba_total = sat_add free rsv, ba_transferable = free, ba_reserved = rsv \<rparr>,
            ac_nonce = word_of_int (max (ka_nonce k) 0), ac_first_seen_ms = ka_first_seen_ms k,
            ac_last_active_ms = ka_last_activity_ms k \<rparr>)
       (rd_enc rd account))"

definition account_by_address ::
  "(string \<Rightarrow> bytes option) \<Rightarrow> string option \<Rightarrow> reader \<Rightarrow> string \<Rightarrow> db \<Rightarrow> account option data_result" where
  "account_by_address parse_id flt rd address d = (case parse_id address of
       None \<Rightarrow> Inr None
     | Some i \<Rightarrow> map_ok (\<lambda>row. Option.bind row (row_to_account rd))
         (run_query flt (''account_by_address(net='' @ show_int (rd_sid rd) @ ''/'' @ address @ '')'')
           (map_option (Pair i) (t_accounts d (rd_sid rd, i)))))"

definition account_rows :: "int \<Rightarrow> db \<Rightarrow> (bytes \<times> account_db) list" where
  "account_rows sid d = map (\<lambda>a. (a, the (t_accounts d (sid, a)))) (sorted_list_of_set {a. (sid, a) \<in> dom (t_accounts d)})"

definition total_of :: "bytes \<times> account_db \<Rightarrow> nat" where
  "total_of r = ka_free (snd r) + ka_reserved (snd r)"

definition top_accounts :: "string option \<Rightarrow> reader \<Rightarrow> u32 \<Rightarrow> db \<Rightarrow> account list data_result" where
  "top_accounts flt rd cnt d =
     (if cnt = 0 then Inr []
      else map_ok (List.map_filter (row_to_account rd))
        (run_query flt (''top_accounts(net='' @ show_int (rd_sid rd) @ '', '' @ show_word cnt @ '')'')
          (take (unat cnt) (rev (sort_key total_of (rev (account_rows (rd_sid rd) d)))))))"

section \<open>Runtime upgrades\<close>

text \<open>\<^verbatim>\<open>DISTINCT ON (spec_version) ... ORDER BY spec_version, num\<close>: the least block of each version.\<close>

definition spec_first_block :: "int \<Rightarrow> db \<Rightarrow> int \<Rightarrow> int" where
  "spec_first_block sid d v = Min {n \<in> block_nums sid d. kb_spec_version (the (t_blocks d (sid, n))) = v}"

definition first_blocks :: "int \<Rightarrow> db \<Rightarrow> int list" where
  "first_blocks sid d = desc_keys (spec_first_block sid d ` (\<lambda>n. kb_spec_version (the (t_blocks d (sid, n)))) ` block_nums sid d)"

definition upgrade_of_row :: "int \<Rightarrow> db \<Rightarrow> int \<Rightarrow> runtime_upgrade" where
  "upgrade_of_row sid d first_block = (let k = the (t_blocks d (sid, first_block)) in
     \<lparr> ru_spec_version = word_of_int (max (kb_spec_version k) 0),
       ru_first_block = Some (word_of_int (max first_block 0)),
       ru_first_block_timestamp_ms = (if kb_timestamp_ms k > 0 then Some (kb_timestamp_ms k) else None),
       ru_is_current = False \<rparr>)"

definition runtime_upgrades :: "string option \<Rightarrow> int \<Rightarrow> db \<Rightarrow> runtime_upgrade list data_result" where
  "runtime_upgrades flt sid d = map_ok (map (upgrade_of_row sid d))
     (run_query flt (''runtime_upgrades(net='' @ show_int sid @ '')'') (first_blocks sid d))"

text \<open>The provider marks the version that runs now, and adds it in front when no indexed block has it.\<close>

definition mark_current :: "u32 option \<Rightarrow> runtime_upgrade list \<Rightarrow> runtime_upgrade list" where
  "mark_current current_spec upgrades = (case current_spec of
       None \<Rightarrow> upgrades
     | Some current \<Rightarrow>
         (let marked = map (\<lambda>u. if ru_spec_version u = current then u\<lparr> ru_is_current := True \<rparr> else u) upgrades
          in if list_ex (\<lambda>u. ru_spec_version u = current) marked then marked
             else \<lparr> ru_spec_version = current, ru_first_block = None, ru_first_block_timestamp_ms = None,
                    ru_is_current = True \<rparr> # marked))"

section \<open>Lemmas\<close>

lemma account_rows_set: "finite (dom (t_accounts d)) \<Longrightarrow> set (account_rows sid d) = {(a, k). t_accounts d (sid, a) = Some k}"
proof -
  assume "finite (dom (t_accounts d))"
  then have "finite {a. (sid, a) \<in> dom (t_accounts d)}"
    using finite_vimageI [of "dom (t_accounts d)" "Pair sid"] by (simp add: vimage_def inj_def)
  then show ?thesis by (force simp: account_rows_def)
qed

lemma distinct_account_rows: "distinct (account_rows sid d)"
  by (simp add: account_rows_def distinct_map inj_on_def)

text \<open>The head of a descending list dominates its tail.\<close>

lemma top_dominates:
  assumes "x \<in> set (take n (rev (sort_key f xs)))" and "y \<in> set (drop n (rev (sort_key f xs)))"
  shows "f y \<le> f x"
proof -
  have "sorted_wrt (\<lambda>a b. f b \<le> f a) (rev (sort_key f xs))"
    using sorted_sort_key [of f xs] by (simp add: sorted_wrt_rev sorted_map)
  then have "sorted_wrt (\<lambda>a b. f b \<le> f a) (take n (rev (sort_key f xs)) @ drop n (rev (sort_key f xs)))" by simp
  then show ?thesis using assms by (simp add: sorted_wrt_append del: append_take_drop_id)
qed

lemma first_block_props:
  assumes "finite (dom (t_blocks d))" and "n \<in> block_nums sid d"
  shows "let v = kb_spec_version (the (t_blocks d (sid, n))); m = spec_first_block sid d v in
    m \<in> block_nums sid d \<and> kb_spec_version (the (t_blocks d (sid, m))) = v \<and> m \<le> n"
proof -
  let ?v = "kb_spec_version (the (t_blocks d (sid, n)))"
  let ?S = "{n \<in> block_nums sid d. kb_spec_version (the (t_blocks d (sid, n))) = ?v}"
  have "finite ?S" "n \<in> ?S" using finite_block_nums [OF assms(1)] assms(2) by simp_all
  then have "Min ?S \<in> ?S" "Min ?S \<le> n" using Min_in by (blast, simp)
  then show ?thesis by (simp add: spec_first_block_def Let_def)
qed

definition accounts_ok :: "int \<Rightarrow> db \<Rightarrow> bool" where
  "accounts_ok sid d \<longleftrightarrow> (\<forall>r\<in>set (account_rows sid d). length (fst r) = 32 \<and> ka_free (snd r) < 2 ^ 128 \<and> ka_reserved (snd r) < 2 ^ 128)"

definition read_account :: "reader \<Rightarrow> bytes \<times> account_db \<Rightarrow> account" where
  "read_account rd r = the (row_to_account rd r)"

lemma read_account_ok:
  assumes "length (fst r) = 32" and "ka_free (snd r) < 2 ^ 128" and "ka_reserved (snd r) < 2 ^ 128"
  shows "row_to_account rd r = Some (read_account rd r) \<and>
    unat (ba_total (ac_balance (read_account rd r))) = min (total_of r) (2 ^ 128 - 1)"
  using assms
  by (cases r) (simp add: row_to_account_def read_account_def rd_enc_def Let_def total_of_def unat_sat_add unat_of_nat)

section \<open>Properties\<close>

text \<open>C27: The richest accounts are shown. The page holds as many accounts as asked for, or all; totals
  do not increase down the page, and no account left out has a greater total than one shown.\<close>

theorem top_accounts_dominate:
  assumes "accounts_ok (rd_sid rd) d" and "n \<noteq> 0"
  shows "\<exists>shown rest. top_accounts None rd n d = Inr (map (read_account rd) shown) \<and>
    mset (shown @ rest) = mset (account_rows (rd_sid rd) d) \<and>
    length shown = min (unat n) (length (account_rows (rd_sid rd) d)) \<and>
    sorted_wrt (\<lambda>a b. ba_total (ac_balance b) \<le> ba_total (ac_balance a)) (map (read_account rd) shown) \<and>
    (\<forall>x\<in>set shown. \<forall>y\<in>set rest. total_of y \<le> total_of x)"
proof -
  let ?rows = "account_rows (rd_sid rd) d"
  let ?all = "rev (sort_key total_of (rev ?rows))"
  let ?shown = "take (unat n) ?all" and ?rest = "drop (unat n) ?all"
  have ok: "row_to_account rd r = Some (read_account rd r) \<and>
      unat (ba_total (ac_balance (read_account rd r))) = min (total_of r) (2 ^ 128 - 1)" if "r \<in> set ?shown" for r
  proof -
    have "r \<in> set ?rows" using that by (auto dest: in_set_takeD)
    then have "length (fst r) = 32" "ka_free (snd r) < 2 ^ 128" "ka_reserved (snd r) < 2 ^ 128"
      using assms(1) by (simp_all only: accounts_ok_def)
    then show ?thesis by (rule read_account_ok)
  qed
  then have conv: "List.map_filter (row_to_account rd) ?shown = map (read_account rd) ?shown"
    by (intro map_filter_total) blast
  have "sorted_wrt (\<lambda>a b. total_of b \<le> total_of a) ?all"
    using sorted_sort_key [of total_of "rev ?rows"] by (simp add: sorted_wrt_rev sorted_map)
  then have "sorted_wrt (\<lambda>a b. total_of b \<le> total_of a) ?shown" by (rule sorted_wrt_take)
  then have "sorted_wrt (\<lambda>a b. ba_total (ac_balance (read_account rd b)) \<le> ba_total (ac_balance (read_account rd a))) ?shown"
  proof (rule sorted_wrt_mono_rel [rotated])
    fix x y assume "x \<in> set ?shown" "y \<in> set ?shown" "total_of y \<le> total_of x"
    then show "ba_total (ac_balance (read_account rd y)) \<le> ba_total (ac_balance (read_account rd x))"
      using ok [of x] ok [of y] by (simp only: word_le_nat_alt)
  qed
  then have "sorted_wrt (\<lambda>a b. ba_total (ac_balance b) \<le> ba_total (ac_balance a)) (map (read_account rd) ?shown)"
    by (simp add: sorted_wrt_map)
  moreover have "mset (?shown @ ?rest) = mset ?rows" by simp
  moreover have "top_accounts None rd n d = Inr (map (read_account rd) ?shown)"
    using assms(2) conv by (simp add: top_accounts_def run_query_def)
  moreover have "length ?shown = min (unat n) (length ?rows)" by (simp add: min.commute)
  ultimately show ?thesis using top_dominates [of _ "unat n" total_of "rev ?rows"] by blast
qed

definition example_accounts_db :: db where
  "example_accounts_db = empty_db\<lparr> t_accounts := [(1, replicate 32 7) \<mapsto> \<lparr> ka_free = 5, ka_reserved = 1, ka_frozen = 0,
       ka_nonce = 3, ka_first_seen_block = 1, ka_last_activity_block = 2, ka_first_seen_ms = 10, ka_last_activity_ms = 20 \<rparr>,
     (1, replicate 32 8) \<mapsto> \<lparr> ka_free = 9, ka_reserved = 0, ka_frozen = 0, ka_nonce = 0, ka_first_seen_block = 1,
       ka_last_activity_block = 1, ka_first_seen_ms = 10, ka_last_activity_ms = 10 \<rparr>] \<rparr>"

lemma example_account_rows:
  "map (\<lambda>r. (fst r, total_of r)) (account_rows 1 example_accounts_db) = [(replicate 32 7, 6), (replicate 32 8, 9)]"
proof -
  have "replicate (Suc n) 7 \<le> replicate (Suc n) (8 :: u8)" for n by simp
  from this [of 31] have "replicate 32 7 \<le> replicate 32 (8 :: u8)" by simp
  have "{a. (1, a) \<in> dom (t_accounts example_accounts_db)} = {replicate 32 7, replicate 32 8}"
    by (auto simp: example_accounts_db_def split: if_splits)
  moreover have "sorted_list_of_set {replicate 32 7, replicate 32 8 :: bytes} = [replicate 32 7, replicate 32 8]"
    using \<open>replicate 32 7 \<le> replicate 32 (8 :: u8)\<close> by simp
  ultimately show ?thesis by (simp add: account_rows_def total_of_def example_accounts_db_def)
qed

lemma top_accounts_dominate_witness:
  "\<exists>shown rest. top_accounts None example_reader 1 example_accounts_db = Inr (map (read_account example_reader) shown) \<and>
     mset (map total_of shown @ map total_of rest) = {# 6, 9 #} \<and> length shown = 1 \<and>
     (\<forall>x\<in>set shown. \<forall>y\<in>set rest. total_of y \<le> total_of x)"
proof -
  have sid: "rd_sid example_reader = 1" by (simp add: example_reader_def)
  have m: "map total_of (account_rows 1 example_accounts_db) = [6, 9]"
    using example_account_rows by (metis (no_types, lifting) list.simps(8,9) map_map comp_def snd_conv map_eq_conv)
  have "accounts_ok 1 example_accounts_db"
    by (auto simp: accounts_ok_def account_rows_def example_accounts_db_def)
  then obtain shown rest where r: "top_accounts None example_reader 1 example_accounts_db = Inr (map (read_account example_reader) shown)"
      "mset (shown @ rest) = mset (account_rows 1 example_accounts_db)"
      "length shown = min (unat (1 :: u32)) (length (account_rows 1 example_accounts_db))"
      "\<forall>x\<in>set shown. \<forall>y\<in>set rest. total_of y \<le> total_of x"
    using top_accounts_dominate [of example_reader example_accounts_db 1, unfolded sid] by auto
  have "mset (map total_of (shown @ rest)) = {# 6, 9 #}" unfolding mset_map r(2) by (simp add: m flip: mset_map)
  moreover have "length (account_rows 1 example_accounts_db) = 2" using m by (metis length_map length_Cons list.size(3) numeral_2_eq_2)
  ultimately show ?thesis using r(1,3,4) by auto
qed

text \<open>C26: The upgrade timeline is exact. Its entries are the blocks that are the first of their runtime
  version, newest first, one per version; and once the running version is marked, exactly one entry is
  the current one, with the running version.\<close>

theorem runtime_timeline_exact:
  assumes "blocks_ok sid d" and "\<forall>n\<in>block_nums sid d. kb_spec_version (the (t_blocks d (sid, n))) \<in> {0 ..< 2 ^ 31}"
  shows "\<exists>us. runtime_upgrades None sid d = Inr us \<and>
    map (\<lambda>u. (ru_spec_version u, ru_first_block u)) us =
      map (\<lambda>m. (word_of_int (kb_spec_version (the (t_blocks d (sid, m)))), Some (word_of_int m)))
        (desc_keys {m \<in> block_nums sid d. \<forall>n\<in>block_nums sid d.
           kb_spec_version (the (t_blocks d (sid, n))) = kb_spec_version (the (t_blocks d (sid, m))) \<longrightarrow> m \<le> n}) \<and>
    map ru_spec_version (filter ru_is_current (mark_current (Some c) us)) = [c]"
proof -
  let ?v = "\<lambda>n. kb_spec_version (the (t_blocks d (sid, n)))"
  let ?B = "block_nums sid d"
  let ?F = "{m \<in> ?B. \<forall>n\<in>?B. ?v n = ?v m \<longrightarrow> m \<le> n}"
  have fin: "finite (dom (t_blocks d))" "finite ?B" using assms(1) finite_block_nums by (auto simp: blocks_ok_def)
  note first = first_block_props [OF fin(1), of _ sid, unfolded Let_def]
  have F: "spec_first_block sid d ` ?v ` ?B = ?F"
  proof (intro equalityI subsetI)
    fix m assume "m \<in> spec_first_block sid d ` ?v ` ?B"
    then show "m \<in> ?F" using first by fastforce
  next
    fix m assume m: "m \<in> ?F"
    let ?w = "spec_first_block sid d (?v m)"
    have "m \<in> ?B" using m by blast
    then have "?w \<in> ?B" "?v ?w = ?v m" "?w \<le> m" using first [of m] by blast+
    then have "?w = m" using m by (intro antisym) blast+
    then have "m = spec_first_block sid d (?v m)" by simp
    with \<open>m \<in> ?B\<close> show "m \<in> spec_first_block sid d ` ?v ` ?B" by (intro image_eqI) simp_all
  qed
  let ?ms = "desc_keys ?F"
  let ?us = "map (upgrade_of_row sid d) ?ms"
  have ms: "set ?ms = ?F" using fin(2) by simp
  have run: "runtime_upgrades None sid d = Inr ?us"
    by (simp add: runtime_upgrades_def run_query_def first_blocks_def F)
  have entry: "ru_spec_version (upgrade_of_row sid d m) = word_of_int (?v m) \<and> ru_first_block (upgrade_of_row sid d m) = Some (word_of_int m)"
    if "m \<in> set ?ms" for m
  proof -
    have "m \<in> ?B" using that ms by blast
    then have "0 \<le> m" "0 \<le> ?v m" using assms by (auto simp: blocks_ok_def)
    then show ?thesis by (simp add: upgrade_of_row_def Let_def)
  qed
  have "inj_on (\<lambda>m. ru_spec_version (upgrade_of_row sid d m)) (set ?ms)"
  proof (rule inj_onI)
    fix m n assume mn: "m \<in> set ?ms" "n \<in> set ?ms"
      and "ru_spec_version (upgrade_of_row sid d m) = ru_spec_version (upgrade_of_row sid d n)"
    then have "(word_of_int (?v m) :: u32) = word_of_int (?v n)" by (simp only: entry [THEN conjunct1])
    then have "unat (word_of_int (?v m) :: u32) = unat (word_of_int (?v n) :: u32)" by (rule arg_cong)
    moreover have "?v m \<in> {0 ..< 2 ^ 31}" "?v n \<in> {0 ..< 2 ^ 31}" using assms(2) mn ms by auto
    ultimately have "?v m = ?v n" by (simp add: unat_word_of_int_32 eq_nat_nat_iff)
    moreover have "m \<in> ?F" "n \<in> ?F" using mn ms by blast+
    ultimately show "m = n" by (intro antisym) simp_all
  qed
  then have dist: "distinct (map ru_spec_version ?us)" by (simp add: distinct_map comp_def)
  have "map ru_spec_version (filter ru_is_current (mark_current (Some c) us)) = [c]"
    if "distinct (map ru_spec_version us)" "\<forall>u\<in>set us. \<not> ru_is_current u" for us
  proof (cases "c \<in> ru_spec_version ` set us")
    case True
    then obtain u where u: "u \<in> set us" "ru_spec_version u = c" by auto
    have "filter (\<lambda>u. ru_spec_version u = c) us = [u]"
      using that(1) u by (intro filter_unique) (auto simp: distinct_map inj_on_def)
    moreover have "filter ru_is_current (map (\<lambda>u. if ru_spec_version u = c then u\<lparr> ru_is_current := True \<rparr> else u) us) =
        map (\<lambda>u. u\<lparr> ru_is_current := True \<rparr>) (filter (\<lambda>u. ru_spec_version u = c) us)"
      using that(2) by (induction us) auto
    moreover have "list_ex (\<lambda>u. ru_spec_version u = c) (map (\<lambda>u. if ru_spec_version u = c then u\<lparr> ru_is_current := True \<rparr> else u) us)"
      using u by (induction us) auto
    ultimately show ?thesis using u by (simp add: mark_current_def)
  next
    case False
    then have "map (\<lambda>u. if ru_spec_version u = c then u\<lparr> ru_is_current := True \<rparr> else u) us = us"
      by (induction us) auto
    then show ?thesis using False that(2) by (auto simp: mark_current_def list_ex_iff filter_empty_conv)
  qed
  moreover have "\<forall>u\<in>set ?us. \<not> ru_is_current u" by (auto simp: upgrade_of_row_def Let_def)
  ultimately show ?thesis using run dist entry by (intro exI [of _ ?us]) simp
qed

definition example_upgrade_db :: db where
  "example_upgrade_db = example_blocks_db\<lparr> t_blocks := (t_blocks example_blocks_db)
     ((1, 2) \<mapsto> (example_block_db 2)\<lparr> kb_spec_version := 2 \<rparr>) \<rparr>"

lemma runtime_timeline_exact_witness:
  "\<exists>us. runtime_upgrades None 1 example_upgrade_db = Inr us \<and>
     map (\<lambda>u. (ru_spec_version u, ru_first_block u)) us = [(2, Some 2), (1, Some 0)] \<and>
     map ru_spec_version (filter ru_is_current (mark_current (Some 2) us)) = [2]"
proof -
  have b: "block_nums 1 example_upgrade_db = {0, 1, 2}"
    by (auto simp: block_nums_def example_upgrade_db_def example_blocks_db_def)
  have ok: "blocks_ok 1 example_upgrade_db"
    using b by (simp add: blocks_ok_def) (simp add: example_upgrade_db_def example_blocks_db_def)
  have v: "kb_spec_version (the (t_blocks example_upgrade_db (1, 0))) = 1"
    "kb_spec_version (the (t_blocks example_upgrade_db (1, 1))) = 1"
    "kb_spec_version (the (t_blocks example_upgrade_db (1, 2))) = 2"
    by (simp_all add: example_upgrade_db_def example_blocks_db_def example_block_db_def)
  have "{m \<in> block_nums 1 example_upgrade_db. \<forall>n\<in>block_nums 1 example_upgrade_db.
      kb_spec_version (the (t_blocks example_upgrade_db (1, n))) = kb_spec_version (the (t_blocks example_upgrade_db (1, m))) \<longrightarrow>
      m \<le> n} = {0, 2}"
    unfolding b by (auto simp: v)
  moreover have "desc_keys {0, 2 :: int} = [2, 0]" by (simp add: desc_keys_def)
  moreover have "\<forall>n\<in>block_nums 1 example_upgrade_db. kb_spec_version (the (t_blocks example_upgrade_db (1, n))) \<in> {0 ..< 2 ^ 31}"
    unfolding b by (simp add: v)
  ultimately show ?thesis using runtime_timeline_exact [OF ok, of 2] by (simp add: v)
qed

end
