(* ===== verification/RpcProvider.thy ===== *)
theory RpcProvider
  imports RpcExtrinsics Paging Filters
begin

text \<open>
  The RPC data provider: \<^verbatim>\<open>src/data/rpc/provider.rs\<close>, the wrapper \<^verbatim>\<open>cached\<close> of
  \<^verbatim>\<open>src/data/rpc/cache.rs\<close>, and the account reads of \<^verbatim>\<open>mappers/accounts.rs\<close>. The cache library is
  not part of the repository: a cache is the map of what it holds, and the expiry and the eviction of
  entries are steps of the environment. Reads that fan out keep their order, so a window of blocks is
  read one block after the other.
\<close>

section \<open>Clients\<close>

text \<open>The client of a network during one request: whether it connects, what it answers for a block number
  (\<^verbatim>\<open>None\<close> is a block the node does not have), the block it pins for the current head, the heads its
  subscriptions published, which named reads run out of time, and the order in which the hash map of
  phases is walked.\<close>

record rpc_client =
  rc_network :: string
  rc_ss58_prefix :: u16
  rc_kind :: runtime_kind
  rc_subxt :: "unit data_result"
  rc_at_block :: "u64 \<Rightarrow> pinned_block option rpc"
  rc_current :: "pinned_block rpc"
  rc_finalized_head :: "u64 option"
  rc_best_head :: "u64 option"
  rc_slow :: "string \<Rightarrow> bool"
  rc_decoder :: decoder
  rc_phase_order :: "pinned_block \<Rightarrow> u32 list"

type_synonym page_key = "u32 \<times> (u64 \<times> u32) option \<times> string option \<times> string option"

type_synonym extrinsics_key =
  "u32 \<times> (u64 \<times> u32) option \<times> bool option \<times> string option \<times> string option \<times> call_result option"

record caches =
  ca_finalized_head :: "unit \<rightharpoonup> u64"
  ca_block_by_number :: "u64 \<rightharpoonup> block"
  ca_latest_blocks :: "u32 \<times> u64 option \<times> bool option \<times> u32 option \<rightharpoonup> block page"
  ca_extrinsics_in_block :: "u64 \<rightharpoonup> extrinsic list"
  ca_events_in_block :: "u64 \<rightharpoonup> block_event list"
  ca_latest_extrinsics :: "extrinsics_key \<rightharpoonup> extrinsic page"
  ca_extrinsic_by_id :: "u64 \<times> u32 \<rightharpoonup> extrinsic"
  ca_latest_transfers :: "page_key \<rightharpoonup> transfer page"
  ca_latest_events :: "page_key \<rightharpoonup> block_event page"
  ca_account_by_address :: "string \<rightharpoonup> account option"
  ca_top_accounts :: "u32 \<rightharpoonup> account list"

definition empty_caches :: caches where
  "empty_caches = \<lparr> ca_finalized_head = Map.empty, ca_block_by_number = Map.empty, ca_latest_blocks = Map.empty,
     ca_extrinsics_in_block = Map.empty, ca_events_in_block = Map.empty, ca_latest_extrinsics = Map.empty,
     ca_extrinsic_by_id = Map.empty, ca_latest_transfers = Map.empty, ca_latest_events = Map.empty,
     ca_account_by_address = Map.empty, ca_top_accounts = Map.empty \<rparr>"

text \<open>A request to a client reads the client and may fill its caches.\<close>

type_synonym 'a request = "rpc_client \<Rightarrow> caches \<Rightarrow> 'a data_result \<times> caches"

definition cached :: "('k \<rightharpoonup> 'v) \<Rightarrow> 'k \<Rightarrow> 'v data_result \<Rightarrow> 'v data_result \<times> ('k \<rightharpoonup> 'v)" where
  "cached cache key load = (case cache key of
       Some v \<Rightarrow> (Inr v, cache)
     | None \<Rightarrow> (case load of Inr v \<Rightarrow> (Inr v, cache(key \<mapsto> v)) | Inl e \<Rightarrow> (Inl e, cache)))"

type_synonym clients = "string \<rightharpoonup> rpc_client \<times> caches"

definition on_client :: "string \<Rightarrow> 'a request \<Rightarrow> clients \<Rightarrow> 'a data_result \<times> clients" where
  "on_client i req cs = (case cs i of
       None \<Rightarrow> (Inl (NetworkUnconfigured i), cs)
     | Some (c, ca) \<Rightarrow> (case req c ca of (r, ca') \<Rightarrow> (r, cs(i \<mapsto> (c, ca')))))"

definition bind_s :: "'a data_result \<times> 's \<Rightarrow> ('a \<Rightarrow> 's \<Rightarrow> 'b data_result \<times> 's) \<Rightarrow> 'b data_result \<times> 's" where
  "bind_s r f = (case r of (Inl e, s) \<Rightarrow> (Inl e, s) | (Inr a, s) \<Rightarrow> f a s)"

section \<open>Heads and blocks\<close>

definition at_block :: "rpc_client \<Rightarrow> u64 \<Rightarrow> pinned_block option data_result" where
  "at_block c n = with_timeout ''at_block'' (\<lambda>e. Rpc (''at_block('' @ show_word n @ ''): '' @ e)) (rc_at_block c n)"

definition at_current_block :: "rpc_client \<Rightarrow> pinned_block data_result" where
  "at_current_block c = with_timeout ''at_current_block'' (\<lambda>e. Rpc (''at_current_block: '' @ e)) (rc_current c)"

definition finalized_head_number_uncached :: "rpc_client \<Rightarrow> u64 data_result" where
  "finalized_head_number_uncached c = map_ok at_number
     (with_timeout ''at_current_block'' (\<lambda>e. Rpc (''fetch finalized head: '' @ e)) (rc_current c))"

definition finalized_head_number :: "u64 request" where
  "finalized_head_number c ca = (case rc_finalized_head c of
       Some head \<Rightarrow> (Inr head, ca)
     | None \<Rightarrow> (case cached (ca_finalized_head ca) ()
           (bind_r (rc_subxt c) (\<lambda>_. finalized_head_number_uncached c)) of
         (r, m) \<Rightarrow> (r, ca\<lparr> ca_finalized_head := m \<rparr>)))"

definition best_head_number :: "u64 request" where
  "best_head_number c ca = (case rc_best_head c of
       Some best \<Rightarrow> (Inr best, ca) | None \<Rightarrow> finalized_head_number c ca)"

definition is_ready :: "clients \<Rightarrow> bool" where
  "is_ready cs \<longleftrightarrow> (\<exists>p\<in>ran cs. rc_finalized_head (fst p) \<noteq> None)"

definition rpc_head_block :: "string \<Rightarrow> clients \<Rightarrow> u64 data_result \<times> clients" where
  "rpc_head_block i = on_client i best_head_number"

text \<open>One block through the mapper; \<^verbatim>\<open>None\<close> is a block the node does not have.\<close>

definition map_block_at :: "rpc_client \<Rightarrow> u64 \<Rightarrow> u64 \<Rightarrow> block option data_result" where
  "map_block_at c finalized_head number = bind_r (at_block c number) (\<lambda>at. case at of
       Some b \<Rightarrow> map_ok Some (map_block (dc_encode (rc_decoder c)) b finalized_head (rc_kind c) (rc_ss58_prefix c))
     | None \<Rightarrow> Inr None)"

definition load_block :: "rpc_client \<Rightarrow> u64 \<Rightarrow> u64 \<Rightarrow> block data_result" where
  "load_block c finalized_head number = bind_r (rc_subxt c) (\<lambda>_.
     bind_r (map_block_at c finalized_head number) (\<lambda>b.
       ok_or b (InvalidPayload (''block '' @ show_word number @ '' pin dropped''))))"

definition block_by_number_request :: "u64 \<Rightarrow> block option request" where
  "block_by_number_request number c ca =
     bind_s (finalized_head_number c ca) (\<lambda>finalized_head ca.
     bind_s (best_head_number c ca) (\<lambda>best_head ca.
     if number > best_head then (Inr None, ca)
     else (case cached (ca_block_by_number ca) number (load_block c finalized_head number) of
         (hit, m) \<Rightarrow> (case hit of
             Inr b \<Rightarrow> Inr (Some b)
           | Inl e \<Rightarrow> (case e of InvalidPayload _ \<Rightarrow> Inr None | _ \<Rightarrow> Inl e),
           ca\<lparr> ca_block_by_number := m \<rparr>))))"

definition rpc_block_by_number :: "string \<Rightarrow> u64 \<Rightarrow> clients \<Rightarrow> block option data_result \<times> clients" where
  "rpc_block_by_number i number = on_client i (block_by_number_request number)"

section \<open>Windows of blocks\<close>

text \<open>The numbers from \<^verbatim>\<open>tip\<close> down to \<^verbatim>\<open>lowest\<close>.\<close>

definition window :: "u64 \<Rightarrow> u64 \<Rightarrow> u64 list" where
  "window lowest tip = map word_of_nat (rev [unat lowest ..< Suc (unat tip)])"

fun collect_blocks :: "(u64 \<Rightarrow> block option data_result) \<Rightarrow> u64 list \<Rightarrow> block option list data_result" where
  "collect_blocks fetch [] = Inr []"
| "collect_blocks fetch (n # ns) = bind_r (fetch n) (\<lambda>b. map_ok ((#) b) (collect_blocks fetch ns))"

definition load_latest_blocks ::
  "rpc_client \<Rightarrow> u32 \<Rightarrow> block_cursor option \<Rightarrow> block_filters \<Rightarrow> block page data_result" where
  "load_latest_blocks c cnt cursor filters =
     bind_r (rc_subxt c) (\<lambda>_.
     bind_r (finalized_head_number_uncached c) (\<lambda>finalized_head.
     let best_head = (case rc_best_head c of Some b \<Rightarrow> b | None \<Rightarrow> finalized_head);
         tip = (case cursor of Some k \<Rightarrow> min (sat_sub (bc_block k) 1) best_head | None \<Rightarrow> best_head);
         span = sat_add (ucast cnt) 1;
         lowest = sat_sub tip (span - 1)
     in map_ok (\<lambda>blocks.
          let items = filter (\<lambda>b. block_matches_filters b filters) (List.map_filter id blocks);
              has_more = length items > unat cnt;
              kept = (if has_more then take (unat cnt) items else items)
          in \<lparr> pg_items = kept, pg_info = \<lparr> pi_total = Some (best_head + 1),
               pi_next_cursor = (if has_more
                 then map_option (\<lambda>b. show_block_cursor (BlockCursor (bk_number b))) (last_opt kept) else None),
               pi_has_more = has_more \<rparr> \<rparr>)
        (collect_blocks (map_block_at c finalized_head) (window lowest tip))))"

definition latest_blocks_request :: "u32 \<Rightarrow> block_cursor option \<Rightarrow> block_filters \<Rightarrow> block page request" where
  "latest_blocks_request cnt cursor filters c ca =
     (case cached (ca_latest_blocks ca) (cnt, map_option bc_block cursor, bf_finalized filters, bf_min_extrinsics filters)
         (load_latest_blocks c cnt cursor filters) of
       (r, m) \<Rightarrow> (r, ca\<lparr> ca_latest_blocks := m \<rparr>))"

definition rpc_latest_blocks :: "string \<Rightarrow> page_request \<Rightarrow> block_filters \<Rightarrow> clients \<Rightarrow> block page data_result \<times> clients" where
  "rpc_latest_blocks i req filters cs =
     (if pr_count req = 0 then (Inr empty_page, cs)
      else bind_s (parse_cursor block_cursor_from_str req, cs) (\<lambda>cursor.
        on_client i (latest_blocks_request (pr_count req) cursor filters)))"

section \<open>Blocks, extrinsics, events and transfers of one block\<close>

definition fetch_block_extrinsics :: "rpc_client \<Rightarrow> u64 \<Rightarrow> extrinsic list option data_result" where
  "fetch_block_extrinsics c number = bind_r (at_block c number) (\<lambda>at. case at of
       None \<Rightarrow> Inr None
     | Some b \<Rightarrow> bind_r (fetch_timestamp b (rc_kind c)) (\<lambda>timestamp_ms.
         bind_r (fetch_block_events b) (\<lambda>events.
         bind_r (index_events_by_phase events) (\<lambda>events_by_phase.
         map_ok Some (map_extrinsics (rc_decoder c) b timestamp_ms events_by_phase (rc_network c) (rc_kind c)
           (rc_ss58_prefix c))))))"

definition fetch_block_events_with_ts :: "rpc_client \<Rightarrow> u64 \<Rightarrow> block_event list option data_result" where
  "fetch_block_events_with_ts c number = bind_r (at_block c number) (\<lambda>at. case at of
       None \<Rightarrow> Inr None
     | Some b \<Rightarrow> bind_r (fetch_timestamp b (rc_kind c)) (\<lambda>timestamp_ms.
         bind_r (fetch_block_events b) (\<lambda>events.
         map_ok Some (map_block_events
           (\<lambda>p v bs. decode_event_fields (rc_decoder c) (rc_network c) p v bs (rc_ss58_prefix c)) number timestamp_ms events))))"

definition fetch_block_transfers :: "rpc_client \<Rightarrow> u64 \<Rightarrow> (transfer \<times> u32) list option data_result" where
  "fetch_block_transfers c number = bind_r (at_block c number) (\<lambda>at. case at of
       None \<Rightarrow> Inr None
     | Some b \<Rightarrow> bind_r (fetch_timestamp b (rc_kind c)) (\<lambda>timestamp_ms.
         bind_r (fetch_block_events b) (\<lambda>events.
         bind_r (index_events_by_phase events) (\<lambda>events_by_phase.
         bind_r (map_extrinsics (rc_decoder c) b timestamp_ms events_by_phase (rc_network c) (rc_kind c)
           (rc_ss58_prefix c)) (\<lambda>extrinsics.
         map_ok Some (map_transfers_with_event_idx (rc_decoder c) extrinsics events_by_phase (rc_phase_order c b)
           (rc_kind c) (rc_ss58_prefix c)))))))"

text \<open>The reads of one block hold an empty list for a block the node does not have.\<close>

definition or_empty :: "'a list option \<Rightarrow> 'a list" where
  "or_empty x = (case x of None \<Rightarrow> [] | Some xs \<Rightarrow> xs)"

definition extrinsics_in_block_request :: "u64 \<Rightarrow> extrinsic list request" where
  "extrinsics_in_block_request blk c ca =
     bind_s (best_head_number c ca) (\<lambda>best ca.
     if blk > best then (Inr [], ca)
     else (case cached (ca_extrinsics_in_block ca) blk
         (bind_r (rc_subxt c) (\<lambda>_. map_ok or_empty (fetch_block_extrinsics c blk))) of
       (r, m) \<Rightarrow> (r, ca\<lparr> ca_extrinsics_in_block := m \<rparr>)))"

definition events_in_block_request :: "u64 \<Rightarrow> block_event list request" where
  "events_in_block_request blk c ca =
     bind_s (best_head_number c ca) (\<lambda>best ca.
     if blk > best then (Inr [], ca)
     else (case cached (ca_events_in_block ca) blk
         (bind_r (rc_subxt c) (\<lambda>_. map_ok or_empty (fetch_block_events_with_ts c blk))) of
       (r, m) \<Rightarrow> (r, ca\<lparr> ca_events_in_block := m \<rparr>)))"

definition rpc_extrinsics_in_block :: "string \<Rightarrow> u64 \<Rightarrow> clients \<Rightarrow> extrinsic list data_result \<times> clients" where
  "rpc_extrinsics_in_block i blk = on_client i (extrinsics_in_block_request blk)"

definition rpc_events_in_block :: "string \<Rightarrow> u64 \<Rightarrow> clients \<Rightarrow> block_event list data_result \<times> clients" where
  "rpc_events_in_block i blk = on_client i (events_in_block_request blk)"

definition load_extrinsic :: "rpc_client \<Rightarrow> u64 \<Rightarrow> u32 \<Rightarrow> extrinsic data_result" where
  "load_extrinsic c blk idx = bind_r (rc_subxt c) (\<lambda>_. bind_r (fetch_block_extrinsics c blk) (\<lambda>xs. case xs of
       None \<Rightarrow> Inl (Rpc (''block '' @ show_word blk @ '' pin dropped''))
     | Some all \<Rightarrow> ok_or (List.find (\<lambda>e. xt_index e = idx) all)
         (InvalidPayload (''no extrinsic at index '' @ show_word idx))))"

definition extrinsic_by_id_request :: "u64 \<Rightarrow> u32 \<Rightarrow> extrinsic option request" where
  "extrinsic_by_id_request blk idx c ca =
     bind_s (best_head_number c ca) (\<lambda>best ca.
     if blk > best then (Inr None, ca)
     else (case cached (ca_extrinsic_by_id ca) (blk, idx) (load_extrinsic c blk idx) of
       (hit, m) \<Rightarrow> (Inr (ok_opt hit), ca\<lparr> ca_extrinsic_by_id := m \<rparr>)))"

definition rpc_extrinsic_by_id :: "string \<Rightarrow> string \<Rightarrow> clients \<Rightarrow> extrinsic option data_result \<times> clients" where
  "rpc_extrinsic_by_id net i cs = (case parse_extrinsic_id i of
       None \<Rightarrow> (Inr None, cs)
     | Some (blk, idx) \<Rightarrow> on_client net (extrinsic_by_id_request blk idx) cs)"

section \<open>Scans\<close>

text \<open>The body of the scan over the items of one block, newest first: it skips what \<^verbatim>\<open>keep\<close> refuses and
  stops the whole scan when the page and its probe are full.\<close>

fun scan_block :: "('b \<Rightarrow> bool) \<Rightarrow> nat \<Rightarrow> 'b list \<Rightarrow> 'b list \<Rightarrow> 'b list \<times> bool" where
  "scan_block keep target [] items = (items, False)"
| "scan_block keep target (x # xs) items =
     (if \<not> keep x then scan_block keep target xs items
      else if length items \<ge> target then (items, True)
      else scan_block keep target xs (items @ [x]))"

text \<open>A missing block ends the scan, an error fails it.\<close>

fun scan_blocks ::
  "(u64 \<Rightarrow> 'b list option data_result) \<Rightarrow> ('b \<Rightarrow> bool) \<Rightarrow> nat \<Rightarrow> u64 list \<Rightarrow> 'b list \<Rightarrow> 'b list data_result" where
  "scan_blocks fetch keep target [] items = Inr items"
| "scan_blocks fetch keep target (n # ns) items = bind_r (fetch n) (\<lambda>next. case next of
       None \<Rightarrow> Inr items
     | Some xs \<Rightarrow> (case scan_block keep target (rev xs) items of
         (items', stop) \<Rightarrow> if stop then Inr items' else scan_blocks fetch keep target ns items'))"

text \<open>The trailing part of every scan: the probe row dropped, the cursor of the last row kept.\<close>

definition scan_page :: "('b \<Rightarrow> 'a) \<Rightarrow> ('b \<Rightarrow> string) \<Rightarrow> u32 \<Rightarrow> 'b list \<Rightarrow> 'a page" where
  "scan_page conv tok cnt items =
     (let has_more = length items > unat cnt;
          kept = (if has_more then take (unat cnt) items else items)
      in \<lparr> pg_items = map conv kept, pg_info = \<lparr> pi_total = None,
           pi_next_cursor = (if has_more then map_option tok (last_opt kept) else None), pi_has_more = has_more \<rparr> \<rparr>)"

definition before_cursor :: "('a::ord \<times> 'b::ord) option \<Rightarrow> 'a \<times> 'b \<Rightarrow> bool" where
  "before_cursor cursor k = (case cursor of Some c \<Rightarrow> \<not> (c \<le> k) | None \<Rightarrow> True)"

text \<open>The lowest block of a scan twice as deep as the page.\<close>

definition scan_lowest :: "u32 \<Rightarrow> u64 \<Rightarrow> u64" where
  "scan_lowest cnt scan_tip = (let depth = max (ucast cnt * 2) (ucast cnt) in sat_sub scan_tip (sat_sub depth 1))"

definition keep_event :: "event_cursor option \<Rightarrow> event_filters \<Rightarrow> block_event \<Rightarrow> bool" where
  "keep_event cursor filters ev \<longleftrightarrow>
     before_cursor (map_option (\<lambda>c. (vc_block c, vc_index c)) cursor) (be_block_number ev, be_index ev) \<and>
     event_matches_filters ev filters"

definition event_token :: "block_event \<Rightarrow> string" where
  "event_token ev = show_event_cursor (EventCursor (be_block_number ev) (phase_kind_of (be_phase ev)) (be_index ev))"

definition scan_tip_of :: "rpc_client \<Rightarrow> u64 \<Rightarrow> u64 option \<Rightarrow> u64" where
  "scan_tip_of c finalized cursor_block =
     (let tip = (case rc_best_head c of Some b \<Rightarrow> b | None \<Rightarrow> finalized)
      in (case cursor_block of Some b \<Rightarrow> min b tip | None \<Rightarrow> tip))"

definition load_latest_events ::
  "rpc_client \<Rightarrow> u32 \<Rightarrow> event_cursor option \<Rightarrow> event_filters \<Rightarrow> block_event page data_result" where
  "load_latest_events c cnt cursor filters =
     bind_r (rc_subxt c) (\<lambda>_.
     bind_r (finalized_head_number_uncached c) (\<lambda>finalized.
     let scan_tip = scan_tip_of c finalized (map_option vc_block cursor) in
     map_ok (scan_page id event_token cnt)
       (scan_blocks (fetch_block_events_with_ts c) (keep_event cursor filters) (Suc (unat cnt))
         (window (scan_lowest cnt scan_tip) scan_tip) [])))"

definition keep_extrinsic :: "extrinsic_cursor option \<Rightarrow> extrinsic_filters \<Rightarrow> extrinsic \<Rightarrow> bool" where
  "keep_extrinsic cursor filters x \<longleftrightarrow>
     \<not> (xt_index x = 0 \<and> \<not> xt_signed x) \<and>
     before_cursor (map_option (\<lambda>c. (ec_block c, ec_index c)) cursor) (xt_block_number x, xt_index x) \<and>
     extrinsic_matches_filters x filters"

definition extrinsic_token :: "extrinsic \<Rightarrow> string" where
  "extrinsic_token x = show_extrinsic_cursor (ExtrinsicCursor (xt_block_number x) (xt_index x))"

definition load_latest_extrinsics ::
  "rpc_client \<Rightarrow> u32 \<Rightarrow> extrinsic_cursor option \<Rightarrow> extrinsic_filters \<Rightarrow> extrinsic page data_result" where
  "load_latest_extrinsics c cnt cursor filters =
     bind_r (rc_subxt c) (\<lambda>_.
     bind_r (finalized_head_number_uncached c) (\<lambda>finalized.
     let scan_tip = scan_tip_of c finalized (map_option ec_block cursor) in
     map_ok (scan_page id extrinsic_token cnt)
       (scan_blocks (fetch_block_extrinsics c) (keep_extrinsic cursor filters) (Suc (unat cnt))
         (window (scan_lowest cnt scan_tip) scan_tip) [])))"

definition max_depth :: u64 where
  "max_depth = 200"

definition keep_transfer :: "transfer_cursor option \<Rightarrow> transfer_filters \<Rightarrow> transfer \<times> u32 \<Rightarrow> bool" where
  "keep_transfer cursor filters t \<longleftrightarrow>
     before_cursor (map_option (\<lambda>c. (tc_block c, tc_event_idx c)) cursor) (xt_block_number (tr_extrinsic (fst t)), snd t) \<and>
     transfer_matches_filters (fst t) filters"

definition pair_token :: "transfer \<times> u32 \<Rightarrow> string" where
  "pair_token t = show_transfer_cursor (TransferCursor (xt_block_number (tr_extrinsic (fst t))) (snd t))"

text \<open>Transfers are scanned from the finalized head.\<close>

definition load_latest_transfers ::
  "rpc_client \<Rightarrow> u32 \<Rightarrow> transfer_cursor option \<Rightarrow> transfer_filters \<Rightarrow> transfer page data_result" where
  "load_latest_transfers c cnt cursor filters =
     bind_r (rc_subxt c) (\<lambda>_.
     bind_r (finalized_head_number_uncached c) (\<lambda>tip.
     let scan_tip = (case cursor of Some k \<Rightarrow> min (tc_block k) tip | None \<Rightarrow> tip) in
     map_ok (scan_page fst pair_token cnt)
       (scan_blocks (fetch_block_transfers c) (keep_transfer cursor filters) (Suc (unat cnt))
         (window (sat_sub scan_tip max_depth) scan_tip) [])))"

definition rpc_latest_events :: "string \<Rightarrow> page_request \<Rightarrow> event_filters \<Rightarrow> clients \<Rightarrow> block_event page data_result \<times> clients" where
  "rpc_latest_events i req filters cs =
     (if pr_count req = 0 then (Inr empty_page, cs)
      else bind_s (parse_cursor event_cursor_from_str req, cs) (\<lambda>cursor. on_client i (\<lambda>c ca.
        case cached (ca_latest_events ca)
            (pr_count req, map_option (\<lambda>k. (vc_block k, vc_index k)) cursor, vf_pallet filters, vf_variant filters)
            (load_latest_events c (pr_count req) cursor filters) of
          (r, m) \<Rightarrow> (r, ca\<lparr> ca_latest_events := m \<rparr>))))"

definition rpc_latest_extrinsics ::
  "string \<Rightarrow> page_request \<Rightarrow> extrinsic_filters \<Rightarrow> clients \<Rightarrow> extrinsic page data_result \<times> clients" where
  "rpc_latest_extrinsics i req filters cs =
     (if pr_count req = 0 then (Inr empty_page, cs)
      else bind_s (parse_cursor extrinsic_cursor_from_str req, cs) (\<lambda>cursor. on_client i (\<lambda>c ca.
        case cached (ca_latest_extrinsics ca)
            (pr_count req, map_option (\<lambda>k. (ec_block k, ec_index k)) cursor, xf_signed filters, xf_pallet filters,
             xf_call filters, xf_status filters)
            (load_latest_extrinsics c (pr_count req) cursor filters) of
          (r, m) \<Rightarrow> (r, ca\<lparr> ca_latest_extrinsics := m \<rparr>))))"

definition rpc_latest_transfers ::
  "string \<Rightarrow> page_request \<Rightarrow> transfer_filters \<Rightarrow> clients \<Rightarrow> transfer page data_result \<times> clients" where
  "rpc_latest_transfers i req filters cs =
     (if pr_count req = 0 then (Inr empty_page, cs)
      else bind_s (parse_cursor transfer_cursor_from_str req, cs) (\<lambda>cursor. on_client i (\<lambda>c ca.
        case cached (ca_latest_transfers ca)
            (pr_count req, map_option (\<lambda>k. (tc_block k, tc_event_idx k)) cursor, tf_from filters, tf_to filters)
            (load_latest_transfers c (pr_count req) cursor filters) of
          (r, m) \<Rightarrow> (r, ca\<lparr> ca_latest_transfers := m \<rparr>))))"

section \<open>Accounts\<close>

definition fetch_account ::
  "(string \<Rightarrow> bytes option) \<Rightarrow> rpc_client \<Rightarrow> pinned_block \<Rightarrow> string \<Rightarrow> account option data_result" where
  "fetch_account parse_id c at address = (case parse_id address of
       None \<Rightarrow> Inr None
     | Some i \<Rightarrow> bind_r (with_timeout ''fetch_account'' (\<lambda>e. Rpc (''fetch system.account('' @ address @ ''): '' @ e))
           (if rc_slow c ''fetch_account'' then RpcTimeout
            else (case at_account at (rc_kind c) i of Inl e \<Rightarrow> RpcErr e | Inr v \<Rightarrow> RpcOk v))) (\<lambda>v. case v of
         Absent \<Rightarrow> Inr None
       | Undecodable e \<Rightarrow> Inl (Decode (''decode AccountInfo: '' @ e))
       | Value info \<Rightarrow> Inr (Some (map_account_info (dc_encode (rc_decoder c)) i info (rc_ss58_prefix c)))))"

definition max_scan_accounts :: nat where
  "max_scan_accounts = 10000"

text \<open>The walk of the storage map, cut at the cap; an item may fail.\<close>

fun scan_accounts ::
  "rpc_client \<Rightarrow> (bytes \<times> account_info) iter_item list \<Rightarrow> account list \<Rightarrow> account list data_result" where
  "scan_accounts c [] accounts = Inr accounts"
| "scan_accounts c (kv # kvs) accounts =
     (if length accounts \<ge> max_scan_accounts then Inr accounts
      else (case kv of
          IterErr e \<Rightarrow> Inl (Rpc (''iter system.account next: '' @ e))
        | KeyErr e \<Rightarrow> Inl (Decode (''system.account key: '' @ e))
        | KeyDecodeErr e \<Rightarrow> Inl (Decode (''decode system.account key: '' @ e))
        | ValueDecodeErr e \<Rightarrow> Inl (Decode (''decode AccountInfo: '' @ e))
        | IterOk p \<Rightarrow> scan_accounts c kvs
            (accounts @ [map_account_info (dc_encode (rc_decoder c)) (fst p) (snd p) (rc_ss58_prefix c)])))"

text \<open>The stable sort by decreasing total, cut at the count.\<close>

definition fetch_top_accounts :: "rpc_client \<Rightarrow> pinned_block \<Rightarrow> u32 \<Rightarrow> account list data_result" where
  "fetch_top_accounts c at cnt =
     (if cnt = 0 then Inr []
      else bind_r (with_iter_timeout ''fetch_top_accounts'' (\<lambda>e. Rpc (''iter system.account: '' @ e))
          (if rc_slow c ''fetch_top_accounts'' then RpcTimeout else at_iter_accounts at (rc_kind c))) (\<lambda>entries.
        map_ok (\<lambda>accounts. take (unat cnt) (sort_key (\<lambda>a. 2 ^ 128 - uint (ba_total (ac_balance a))) accounts))
          (scan_accounts c entries [])))"

definition rpc_account_by_address ::
  "(string \<Rightarrow> bytes option) \<Rightarrow> string \<Rightarrow> string \<Rightarrow> clients \<Rightarrow> account option data_result \<times> clients" where
  "rpc_account_by_address parse_id i address = on_client i (\<lambda>c ca.
     case cached (ca_account_by_address ca) address
         (bind_r (rc_subxt c) (\<lambda>_. bind_r (at_current_block c) (\<lambda>at. fetch_account parse_id c at address))) of
       (r, m) \<Rightarrow> (r, ca\<lparr> ca_account_by_address := m \<rparr>))"

definition rpc_top_accounts :: "string \<Rightarrow> u32 \<Rightarrow> clients \<Rightarrow> account list data_result \<times> clients" where
  "rpc_top_accounts i cnt = on_client i (\<lambda>c ca.
     case cached (ca_top_accounts ca) cnt
         (bind_r (rc_subxt c) (\<lambda>_. bind_r (at_current_block c) (\<lambda>at. fetch_top_accounts c at cnt))) of
       (r, m) \<Rightarrow> (r, ca\<lparr> ca_top_accounts := m \<rparr>))"

section \<open>Lemmas\<close>

lemma cached_hit: "cache key = Some v \<Longrightarrow> cached cache key load = (Inr v, cache)"
  by (simp add: cached_def)

lemma cached_holds: "cached cache key load = (Inr v, cache') \<Longrightarrow> cache' key = Some v"
  by (auto simp: cached_def split: option.splits sum.splits)

lemma scan_block_spec:
  "length items \<le> target \<Longrightarrow> scan_block keep target xs items =
     (take target (items @ filter keep xs), length (items @ filter keep xs) > target)"
proof (induction xs arbitrary: items)
  case (Cons x xs)
  show ?case
  proof (cases "keep x \<and> length items < target")
    case True
    then show ?thesis using Cons.IH [of "items @ [x]"] by (simp add: less_eq_Suc_le)
  next
    case False
    then show ?thesis using Cons by auto
  qed
qed simp

text \<open>A scan that finds every block is the filter over all items, newest first, cut at its target.\<close>

lemma scan_blocks_spec:
  "\<forall>n\<in>set ns. fetch n = Inr (Some (f n)) \<Longrightarrow> length items \<le> target \<Longrightarrow>
   scan_blocks fetch keep target ns items =
     Inr (take target (items @ filter keep (concat (map (\<lambda>n. rev (f n)) ns))))"
proof (induction ns arbitrary: items)
  case (Cons n ns)
  let ?ys = "filter keep (rev (f n))"
  show ?case
  proof (cases "length (items @ ?ys) > target")
    case True
    then have "take target (items @ ?ys @ zs) = take target (items @ ?ys)" for zs
      using Cons.prems(2) by (simp flip: append_assoc)
    then show ?thesis using True Cons.prems scan_block_spec [OF Cons.prems(2), of keep "rev (f n)"] by simp
  next
    case False
    then show ?thesis
      using Cons.prems scan_block_spec [OF Cons.prems(2), of keep "rev (f n)"] Cons.IH [of "items @ ?ys"] by simp
  qed
qed simp

lemma scan_page_eq: "scan_page conv tok cnt items = page_of conv tok (unat cnt) items"
  by (simp add: scan_page_def page_of_def Let_def)

lemma collect_blocks_ok:
  "\<forall>n\<in>set ns. fetch n = Inr (b n) \<Longrightarrow> collect_blocks fetch ns = Inr (map b ns)"
  by (induction ns) simp_all

lemma set_window [simp]: "set (window lo hi) = {n. lo \<le> n \<and> n \<le> hi}"
proof -
  have "n \<in> word_of_nat ` {unat lo ..< Suc (unat hi)}" if "lo \<le> n" "n \<le> hi" for n
    using that by (intro image_eqI [of _ _ "unat n"]) (simp_all add: word_le_nat_alt)
  moreover have "lo \<le> word_of_nat k \<and> word_of_nat k \<le> hi" if "unat lo \<le> k" "k \<le> unat hi" for k
  proof -
    have "k < 2 ^ 64" using that(2) unsigned_less [of hi, where 'a = nat] by simp
    then show ?thesis using that by (simp add: word_le_nat_alt unat_of_nat)
  qed
  ultimately show ?thesis by (auto simp: window_def simp del: upt_Suc)
qed

section \<open>Properties\<close>


text \<open>C38: Finality never reaches a cached block. A block read before it was finalized stays in the cache,
  which no lifetime bounds; every later read by number returns that block, marked as not finalized,
  although the subscription of the node has reported it finalized.\<close>

theorem cached_block_never_finalized:
  assumes "block_by_number_request n c ca = (Inr (Some b), ca')" and "\<not> bk_finalized b"
    and "rc_finalized_head c2 = Some fin" and "rc_best_head c2 = Some best" and "n \<le> fin" and "n \<le> best"
  shows "block_by_number_request n c2 ca' = (Inr (Some b), ca') \<and> bk_finalized b \<noteq> (n \<le> fin)"
proof -
  have "ca_block_by_number ca' n = Some b"
    using assms(1) cached_holds
    by (auto simp: block_by_number_request_def bind_s_def split: prod.splits sum.splits if_splits data_error.splits)
  then show ?thesis
    using assms(2-6)
    by (simp add: block_by_number_request_def bind_s_def finalized_head_number_def best_head_number_def cached_hit not_less)
qed

definition example_client :: "u64 \<Rightarrow> u64 \<Rightarrow> rpc_client" where
  "example_client fin best = \<lparr> rc_network = ''allfeat'', rc_ss58_prefix = 440, rc_kind = Allfeat, rc_subxt = Inr (),
     rc_at_block = (\<lambda>n. RpcOk (if n \<le> best then Some (example_at n [] []) else None)), rc_current = RpcOk (example_at fin [] []),
     rc_finalized_head = Some fin, rc_best_head = Some best, rc_slow = (\<lambda>_. False), rc_decoder = example_decoder,
     rc_phase_order = (\<lambda>_. []) \<rparr>"

lemma example_map_block_at:
  "n \<le> best \<Longrightarrow> \<exists>b. map_block_at (example_client fin best) fin n = Inr (Some b) \<and>
     bk_number b = n \<and> bk_finalized b = (n \<le> fin)"
  by (simp add: map_block_at_def at_block_def with_timeout_def example_client_def map_block_def fetch_header_def
      fetch_timestamp_def fetch_storage_def resolve_author_def aura_slot_def fetch_extrinsics_summary_def
      fetch_weights_def fetch_block_events_def example_at_def)

lemma cached_block_never_finalized_witness:
  "\<exists>b ca. block_by_number_request 7 (example_client 5 7) empty_caches = (Inr (Some b), ca) \<and>
     block_by_number_request 7 (example_client 9 12) ca = (Inr (Some b), ca) \<and> \<not> bk_finalized b"
proof -
  obtain b where b: "map_block_at (example_client 5 7) 5 7 = Inr (Some b)" "\<not> bk_finalized b"
    using example_map_block_at [of 7 7 5] by auto
  let ?ca = "empty_caches\<lparr> ca_block_by_number := [7 \<mapsto> b] \<rparr>"
  have r: "block_by_number_request 7 (example_client 5 7) empty_caches = (Inr (Some b), ?ca)"
    using b(1)
    by (simp add: block_by_number_request_def bind_s_def finalized_head_number_def best_head_number_def cached_def
        load_block_def example_client_def empty_caches_def)
  have "rc_finalized_head (example_client 9 12) = Some 9" "rc_best_head (example_client 9 12) = Some 12"
    by (simp_all add: example_client_def)
  then show ?thesis
    using r b(2) cached_block_never_finalized [OF r b(2), of "example_client 9 12" 9 12] by simp
qed

text \<open>C39: A block the node did not have yet stays empty. When the extrinsics of a block are asked for before
  the node can pin it, the empty answer is cached without a lifetime, and every later request for the
  block is answered with no extrinsics, whatever the node has by then.\<close>

theorem missing_block_cached_empty:
  assumes "rc_best_head c = Some best" and "blk \<le> best" and "rc_subxt c = Inr ()" and "rc_at_block c blk = RpcOk None"
    and "ca_extrinsics_in_block ca blk = None" and "rc_best_head c2 = Some best2" and "blk \<le> best2"
  shows "\<exists>ca'. extrinsics_in_block_request blk c ca = (Inr [], ca') \<and> extrinsics_in_block_request blk c2 ca' = (Inr [], ca')"
proof -
  let ?ca' = "ca\<lparr> ca_extrinsics_in_block := (ca_extrinsics_in_block ca)(blk \<mapsto> []) \<rparr>"
  have "extrinsics_in_block_request blk c ca = (Inr [], ?ca')"
    using assms(1-5)
    by (simp add: extrinsics_in_block_request_def best_head_number_def bind_s_def cached_def fetch_block_extrinsics_def
        at_block_def with_timeout_def or_empty_def not_less)
  moreover have "extrinsics_in_block_request blk c2 ?ca' = (Inr [], ?ca')"
    using assms(6,7)
    by (simp add: extrinsics_in_block_request_def best_head_number_def bind_s_def cached_def not_less)
  ultimately show ?thesis by blast
qed

lemma missing_block_cached_empty_witness:
  "\<exists>ca. extrinsics_in_block_request 7 ((example_client 5 6)\<lparr> rc_best_head := Some 7 \<rparr>) empty_caches = (Inr [], ca) \<and>
     extrinsics_in_block_request 7 (example_client 9 12) ca = (Inr [], ca)"
  by (rule missing_block_cached_empty [where best = 7 and ?best2.0 = 12])
    (simp_all add: example_client_def empty_caches_def)


end
