(* ===== verification/IndexedProvider.thy ===== *)
theory IndexedProvider
  imports RpcProvider AccountQueries Buffer
begin

text \<open>
  The provider behind the API: \<^verbatim>\<open>src/data/indexed/provider.rs\<close>. For an indexed network it joins three
  sources, the tables, the pending buffer and the RPC provider; any other network goes to the RPC
  provider. During one request the tables and the buffers do not change; the caches of the RPC clients
  may fill up. \<^verbatim>\<open>pv_faults\<close> is the error of the i-th query of a request, if any.
\<close>

section \<open>State\<close>

record provider =
  pv_indexed :: "string set"
  pv_buffers :: "string \<rightharpoonup> pending_buffer"
  pv_lookup :: "(string \<rightharpoonup> int) option"
  pv_db :: db
  pv_decoder :: decoder
  pv_faults :: "nat \<Rightarrow> string option"
  pv_hex :: "string \<Rightarrow> bytes option"
  pv_parse_id :: "string \<Rightarrow> bytes option"
  pv_debug :: "string \<Rightarrow> string"

definition with_buffer :: "string \<Rightarrow> pending_buffer \<Rightarrow> provider \<Rightarrow> provider" where
  "with_buffer network_id buffer pv = pv\<lparr> pv_buffers := (pv_buffers pv)(network_id \<mapsto> buffer) \<rparr>"

definition is_indexed :: "provider \<Rightarrow> network_spec \<Rightarrow> bool" where
  "is_indexed pv spec \<longleftrightarrow> ns_id spec \<in> pv_indexed pv"

definition buffer_for :: "provider \<Rightarrow> network_spec \<Rightarrow> pending_buffer option" where
  "buffer_for pv spec = pv_buffers pv (ns_id spec)"

definition network_sid :: "provider \<Rightarrow> network_spec \<Rightarrow> int data_result" where
  "network_sid pv spec =
     bind_r (ok_or (pv_lookup pv) (Rpc (''network lookup not initialised (indexed path requires seed_lookups before use): '' @ ns_id spec))) (\<lambda>lookup.
     ok_or (network_resolve lookup (ns_id spec))
       (Rpc (''network id '' @ pv_debug pv (ns_id spec) @ '' not registered in `networks` table'')))"

definition reader_for :: "provider \<Rightarrow> network_spec \<Rightarrow> int \<Rightarrow> reader" where
  "reader_for pv spec sid = \<lparr> rd_net = ns_id spec, rd_sid = sid, rd_pfx = ns_ss58_prefix spec, rd_dec = pv_decoder pv \<rparr>"

definition enc_for :: "provider \<Rightarrow> bytes \<Rightarrow> u16 \<Rightarrow> string option" where
  "enc_for pv bs pfx = (if length bs \<noteq> 32 then None else Some (dc_encode (pv_decoder pv) bs pfx))"

section \<open>Blocks\<close>

definition ip_block_by_number ::
  "provider \<Rightarrow> network_spec \<Rightarrow> u64 \<Rightarrow> clients \<Rightarrow> block option data_result \<times> clients" where
  "ip_block_by_number pv spec number cs =
     (if \<not> is_indexed pv spec then rpc_block_by_number (ns_id spec) number cs
      else bind_s (network_sid pv spec, cs) (\<lambda>sid cs.
        bind_s (block_by_number (enc_for pv) (pv_faults pv 0) sid number (ns_ss58_prefix spec) (pv_db pv), cs) (\<lambda>b cs.
        case b of Some blk \<Rightarrow> (Inr (Some blk), cs) | None \<Rightarrow> rpc_block_by_number (ns_id spec) number cs)))"

text \<open>The blocks of the node that the tables do not hold yet.\<close>

fun take_pending :: "u64 \<Rightarrow> nat \<Rightarrow> block list \<Rightarrow> block list \<Rightarrow> block list" where
  "take_pending indexed_hd cnt pending [] = pending"
| "take_pending indexed_hd cnt pending (b # bs) =
     (if bk_number b > indexed_hd
      then if length (pending @ [b]) \<ge> cnt then pending @ [b] else take_pending indexed_hd cnt (pending @ [b]) bs
      else pending)"

text \<open>The join of the pending blocks with the page of the tables that tops them up.\<close>

definition topped_up :: "nat \<Rightarrow> block list \<Rightarrow> block page \<Rightarrow> block list \<times> string option \<times> bool" where
  "topped_up need items db_page =
     (if length (pg_items db_page) > need
      then (let trimmed = take need (pg_items db_page)
            in (items @ trimmed,
                map_option (\<lambda>b. show_block_cursor (BlockCursor (bk_number b))) (last_opt trimmed), True))
      else (items @ pg_items db_page, pi_next_cursor (pg_info db_page), pi_has_more (pg_info db_page)))"

definition ip_latest_blocks ::
  "provider \<Rightarrow> network_spec \<Rightarrow> page_request \<Rightarrow> block_filters \<Rightarrow> clients \<Rightarrow> block page data_result \<times> clients" where
  "ip_latest_blocks pv spec req filters cs =
     (if \<not> is_indexed pv spec then rpc_latest_blocks (ns_id spec) req filters cs
      else if pr_count req = 0 then (Inr empty_page, cs)
      else
        bind_s (parse_cursor block_cursor_from_str req, cs) (\<lambda>cursor cs.
        bind_s (network_sid pv spec, cs) (\<lambda>sid cs.
        let (head, cs) = rpc_head_block (ns_id spec) cs;
            chain_head = ok_opt head
        in bind_s (indexed_head (pv_faults pv 0) sid (pv_db pv), cs) (\<lambda>ih cs.
        let indexed_hd = (case ih of Some h \<Rightarrow> h | None \<Rightarrow> 0);
            pending_upper = (case cursor of Some c \<Rightarrow> sat_sub (bc_block c) 1
              | None \<Rightarrow> (case chain_head of Some h \<Rightarrow> h | None \<Rightarrow> indexed_hd))
        in bind_s (if pending_upper > indexed_hd \<and> bf_finalized filters \<noteq> Some True
             then bind_s (rpc_latest_blocks (ns_id spec)
                 \<lparr> pr_count = pr_count req, pr_cursor = map_option show_block_cursor cursor \<rparr> filters cs)
               (\<lambda>rpc_page cs. (Inr (take_pending indexed_hd (unat (pr_count req)) [] (pg_items rpc_page)), cs))
             else (Inr [], cs)) (\<lambda>pending cs.
        let need = unat (pr_count req) - length pending in
        bind_s (if need > 0
             then (map_ok (topped_up need pending)
               (list_blocks_page_bounded (enc_for pv) (pv_faults pv 1) [] sid (word_of_nat (need + 1)) None
                 (Some (min indexed_hd (case cursor of Some c \<Rightarrow> sat_sub (bc_block c) 1 | None \<Rightarrow> - 1)))
                 filters (ns_ss58_prefix spec) (pv_db pv)), cs)
             else if length pending = unat (pr_count req) \<and> indexed_hd > 0 \<and> pending_upper > indexed_hd
             then (Inr (pending, map_option (\<lambda>b. show_block_cursor (BlockCursor (bk_number b))) (last_opt pending), True), cs)
             else (Inr (pending, None, False), cs)) (\<lambda>(items, next_cursor, has_more) cs.
        (Inr \<lparr> pg_items = items, pg_info = \<lparr> pi_total = map_option (\<lambda>h. h + 1) chain_head,
             pi_next_cursor = next_cursor, pi_has_more = has_more \<rparr> \<rparr>, cs)))))))"

section \<open>Extrinsics\<close>

definition ip_extrinsics_in_block ::
  "provider \<Rightarrow> network_spec \<Rightarrow> u64 \<Rightarrow> clients \<Rightarrow> extrinsic list data_result \<times> clients" where
  "ip_extrinsics_in_block pv spec blk cs =
     (if \<not> is_indexed pv spec then rpc_extrinsics_in_block (ns_id spec) blk cs
      else case Option.bind (buffer_for pv spec) (\<lambda>buf.
          if blk > pb_finalized_head buf
          then List.find (\<lambda>b. bb_number b = blk) (iter_blocks_newest_first buf) else None) of
        Some buffered \<Rightarrow> (Inr (bb_extrinsics buffered), cs)
      | None \<Rightarrow> bind_s (network_sid pv spec, cs) (\<lambda>sid cs.
          bind_s (extrinsics_in_block (pv_faults pv) (reader_for pv spec sid) blk (pv_db pv), cs) (\<lambda>db_rows cs.
          if db_rows \<noteq> [] then (Inr db_rows, cs)
          else bind_s (indexed_head (pv_faults pv 2) sid (pv_db pv), cs) (\<lambda>ih cs.
            if blk > (case ih of Some h \<Rightarrow> h | None \<Rightarrow> 0) then rpc_extrinsics_in_block (ns_id spec) blk cs
            else (Inr db_rows, cs)))))"

text \<open>The walk over the buffer: the state is the page and the last row that the cursor let through;
  the flag stops the outer loop.\<close>

fun buffer_rows ::
  "extrinsic_cursor option \<Rightarrow> extrinsic_filters \<Rightarrow> nat \<Rightarrow> extrinsic list
   \<Rightarrow> extrinsic list \<times> (u64 \<times> u32) option \<Rightarrow> (extrinsic list \<times> (u64 \<times> u32) option) \<times> bool" where
  "buffer_rows cursor filters cnt [] st = (st, False)"
| "buffer_rows cursor filters cnt (x # xs) (items, lst) =
     (if xt_index x = 0 \<and> \<not> xt_signed x then buffer_rows cursor filters cnt xs (items, lst)
      else if \<not> before_cursor (map_option (\<lambda>c. (ec_block c, ec_index c)) cursor) (xt_block_number x, xt_index x)
      then buffer_rows cursor filters cnt xs (items, lst)
      else let lst = Some (xt_block_number x, xt_index x) in
        if \<not> extrinsic_matches_filters x filters then buffer_rows cursor filters cnt xs (items, lst)
        else if length items \<ge> cnt then ((items, lst), True)
        else buffer_rows cursor filters cnt xs (items @ [x], lst))"

fun buffer_walk ::
  "extrinsic_cursor option \<Rightarrow> extrinsic_filters \<Rightarrow> nat \<Rightarrow> buffered_block list
   \<Rightarrow> extrinsic list \<times> (u64 \<times> u32) option \<Rightarrow> extrinsic list \<times> (u64 \<times> u32) option" where
  "buffer_walk cursor filters cnt [] st = st"
| "buffer_walk cursor filters cnt (b # bs) st =
     (case buffer_rows cursor filters cnt (rev (bb_extrinsics b)) st of
       (st', stop) \<Rightarrow> if stop then st' else buffer_walk cursor filters cnt bs st')"

definition last_extrinsic_token :: "extrinsic list \<Rightarrow> string option" where
  "last_extrinsic_token items = map_option extrinsic_token (last_opt items)"

definition ip_latest_extrinsics ::
  "provider \<Rightarrow> network_spec \<Rightarrow> page_request \<Rightarrow> extrinsic_filters \<Rightarrow> clients \<Rightarrow> extrinsic page data_result \<times> clients" where
  "ip_latest_extrinsics pv spec req filters cs =
     (if \<not> is_indexed pv spec then rpc_latest_extrinsics (ns_id spec) req filters cs
      else if pr_count req = 0 then (Inr empty_page, cs)
      else
        bind_s (parse_cursor extrinsic_cursor_from_str req, cs) (\<lambda>cursor cs.
        bind_s (network_sid pv spec, cs) (\<lambda>sid cs.
        let rd = reader_for pv spec sid;
            cnt = unat (pr_count req);
            (items, last_buffered) = (case buffer_for pv spec of
               Some buf \<Rightarrow> buffer_walk cursor filters cnt (iter_blocks_newest_first buf) ([], None)
             | None \<Rightarrow> ([], None));
            upper = (case last_buffered of Some l \<Rightarrow> Some l
               | None \<Rightarrow> map_option (\<lambda>c. (ec_block c, ec_index c)) cursor)
        in if length items \<ge> cnt
           then bind_s (list_extrinsics_page_bounded (pv_faults pv) [] rd \<lparr> pr_count = 1, pr_cursor = None \<rparr> upper filters (pv_db pv), cs)
             (\<lambda>probe cs. let has_more = (pg_items probe \<noteq> []) in
               (Inr \<lparr> pg_items = items, pg_info = \<lparr> pi_total = None,
                  pi_next_cursor = (if has_more then last_extrinsic_token items else None), pi_has_more = has_more \<rparr> \<rparr>, cs))
           else bind_s (list_extrinsics_page_bounded (pv_faults pv) [] rd
               \<lparr> pr_count = pr_count req - word_of_nat (length items), pr_cursor = None \<rparr> upper filters (pv_db pv), cs)
             (\<lambda>db_page cs.
               let all = items @ pg_items db_page;
                   has_more = pi_has_more (pg_info db_page);
                   next = pi_next_cursor (pg_info db_page)
               in (Inr \<lparr> pg_items = all, pg_info = \<lparr> pi_total = None,
                    pi_next_cursor = (if has_more \<and> next = None then last_extrinsic_token all else next),
                    pi_has_more = has_more \<rparr> \<rparr>, cs)))))"

definition ip_extrinsic_by_id ::
  "provider \<Rightarrow> network_spec \<Rightarrow> string \<Rightarrow> clients \<Rightarrow> extrinsic option data_result \<times> clients" where
  "ip_extrinsic_by_id pv spec i cs =
     (if \<not> is_indexed pv spec then rpc_extrinsic_by_id (ns_id spec) i cs
      else case parse_lookup (pv_hex pv) i of
        None \<Rightarrow> (Inr None, cs)
      | Some lookup \<Rightarrow> (case Option.bind (buffer_for pv spec) (\<lambda>buf. case lookup of
            BlockIdx blk idx \<Rightarrow> extrinsic_by_block_idx buf blk idx
          | HashLookup h \<Rightarrow> extrinsic_by_hash buf h) of
          Some ext \<Rightarrow> (Inr (Some ext), cs)
        | None \<Rightarrow> bind_s (network_sid pv spec, cs) (\<lambda>sid cs. case lookup of
            BlockIdx blk idx \<Rightarrow>
              bind_s (extrinsic_row_by_block_idx (pv_faults pv) (reader_for pv spec sid) blk idx (pv_db pv), cs) (\<lambda>row cs.
              case row of Some ext \<Rightarrow> (Inr (Some ext), cs)
              | None \<Rightarrow> bind_s (indexed_head (pv_faults pv 2) sid (pv_db pv), cs) (\<lambda>ih cs.
                  if blk > (case ih of Some h \<Rightarrow> h | None \<Rightarrow> 0) then rpc_extrinsic_by_id (ns_id spec) i cs
                  else (Inr None, cs)))
          | HashLookup h \<Rightarrow> (extrinsic_row_by_hash (pv_faults pv) (reader_for pv spec sid) h (pv_db pv), cs))))"

section \<open>Transfers, accounts and events\<close>

definition ip_latest_transfers ::
  "provider \<Rightarrow> network_spec \<Rightarrow> page_request \<Rightarrow> transfer_filters \<Rightarrow> clients \<Rightarrow> transfer page data_result \<times> clients" where
  "ip_latest_transfers pv spec req filters cs =
     (if \<not> is_indexed pv spec then rpc_latest_transfers (ns_id spec) req filters cs
      else bind_s (network_sid pv spec, cs) (\<lambda>sid cs.
        (list_transfers_page (pv_parse_id pv) (pv_debug pv) [] (pv_faults pv 0) (reader_for pv spec sid) req filters (pv_db pv), cs)))"

definition ip_account_by_address ::
  "provider \<Rightarrow> network_spec \<Rightarrow> string \<Rightarrow> clients \<Rightarrow> account option data_result \<times> clients" where
  "ip_account_by_address pv spec address cs =
     (if \<not> is_indexed pv spec then rpc_account_by_address (pv_parse_id pv) (ns_id spec) address cs
      else bind_s (network_sid pv spec, cs) (\<lambda>sid cs.
        (account_by_address (pv_parse_id pv) (pv_faults pv 0) (reader_for pv spec sid) address (pv_db pv), cs)))"

definition ip_top_accounts ::
  "provider \<Rightarrow> network_spec \<Rightarrow> u32 \<Rightarrow> clients \<Rightarrow> account list data_result \<times> clients" where
  "ip_top_accounts pv spec cnt cs =
     (if \<not> is_indexed pv spec then rpc_top_accounts (ns_id spec) cnt cs
      else bind_s (network_sid pv spec, cs) (\<lambda>sid cs.
        (top_accounts (pv_faults pv 0) (reader_for pv spec sid) cnt (pv_db pv), cs)))"

definition ip_events_in_block :: "network_spec \<Rightarrow> u64 \<Rightarrow> clients \<Rightarrow> block_event list data_result \<times> clients" where
  "ip_events_in_block spec blk cs = rpc_events_in_block (ns_id spec) blk cs"

definition ip_latest_events ::
  "network_spec \<Rightarrow> page_request \<Rightarrow> event_filters \<Rightarrow> clients \<Rightarrow> block_event page data_result \<times> clients" where
  "ip_latest_events spec req filters cs = rpc_latest_events (ns_id spec) req filters cs"

section \<open>The seam between the node and the tables\<close>

text \<open>The numbers from \<^verbatim>\<open>k\<close> down to 0.\<close>

definition down_from :: "nat \<Rightarrow> nat list" where
  "down_from k = rev [0 ..< Suc k]"

lemma length_down_from [simp]: "length (down_from k) = Suc k"
  by (simp add: down_from_def)

lemma set_down_from [simp]: "set (down_from k) = {..k}"
  by (auto simp: down_from_def)

lemma down_from_ne [simp]: "down_from k \<noteq> []"
  by (simp add: down_from_def)

lemma desc_keys_down: "desc_keys {0 .. int k} = map int (down_from k)"
proof -
  have "sorted_list_of_set (int ` {0 ..< Suc k}) = map int [0 ..< Suc k]"
    by (intro sorted_distinct_set_unique) (simp_all add: distinct_map inj_on_def sorted_map strict_mono_on_def del: upt_Suc)
  moreover have "int ` {0 ..< Suc k} = {0 .. int k}"
    using image_int_atLeastLessThan [of 0 "Suc k"] by auto
  ultimately show ?thesis by (simp add: desc_keys_def down_from_def rev_map del: upt_Suc)
qed

lemma down_from_split: "h \<le> k \<Longrightarrow> down_from k = rev [Suc h ..< Suc k] @ down_from h"
proof -
  assume "h \<le> k"
  then have "[0 ..< Suc k] = [0 ..< Suc h] @ [Suc h ..< Suc k]"
    using upt_add_eq_append [of 0 "Suc h" "k - h"] by simp
  then show ?thesis by (simp add: down_from_def del: upt_Suc)
qed

lemma filter_down_from: "r \<le> Suc k \<Longrightarrow> filter (\<lambda>x. x < r) (down_from k) = rev [0 ..< r]"
proof -
  assume "r \<le> Suc k"
  then have "[0 ..< Suc k] = [0 ..< r] @ [r ..< Suc k]" using upt_add_eq_append [of 0 r "Suc k - r"] by simp
  then show ?thesis by (simp add: down_from_def filter_empty_conv rev_filter [symmetric] del: upt_Suc)
qed

lemma take_pending_eq:
  "length pending < cnt \<Longrightarrow>
   take_pending h cnt pending bs = take cnt (pending @ takeWhile (\<lambda>b. bk_number b > h) bs)"
proof (induction bs arbitrary: pending)
  case (Cons b bs)
  show ?case
  proof (cases "bk_number b > h \<and> length (pending @ [b]) < cnt")
    case True
    then show ?thesis using Cons.IH [of "pending @ [b]"] by simp
  next
    case False
    then show ?thesis
    proof (cases "bk_number b > h")
      case True
      then have "cnt - length pending = 1" using False Cons.prems by simp
      then show ?thesis using True False by simp
    qed (use Cons.prems in simp)
  qed
qed simp

text \<open>The blocks the tables add below a bound.\<close>

lemma topped_up_eq:
  fixes w :: u32
  assumes "block_nums sid d = {0 .. int h}" and "k \<le> h" and "h < 2 ^ 63" and "0 < need" and "need < 2 ^ 32 - 1" and w: "unat w = Suc need"
  shows "map_ok (topped_up need items)
      (list_blocks_page_bounded enc None [] sid w None (Some (word_of_nat k)) no_block_filters pfx d) =
    Inr (items @ map (\<lambda>n. row_to_block enc pfx (block_out sid d (int n))) (take need (down_from k)),
      (if need < Suc k then map_option (\<lambda>n. show_block_cursor (BlockCursor (word_of_nat n))) (last_opt (take need (down_from k)))
       else None), need < Suc k)"
proof -
  let ?f = "\<lambda>n. row_to_block enc pfx (block_out sid d n)"
  have nz: "w \<noteq> 0" using w by (metis unat_0 Suc_not_Zero)
  have "sint (word_of_nat k :: u64) = int k"
    using sint_word_of_int_small [of "int k"] assms(2,3) by simp
  then have rows: "{n \<in> block_nums sid d. block_where no_block_filters (num_bound None (Some (word_of_nat k))) sid d n} = {0 .. int k}"
    using assms(1,2) by (auto simp: block_where_def num_bound_def no_block_filters_def)
  have big: "unat (sat_add w 1) = (if need + 2 < 2 ^ 32 then need + 2 else 2 ^ 32 - 1)"
    using w assms(5) by (simp add: unat_sat_add)
  have num: "bk_number (?f n) = word_of_int n" for n by (simp add: row_to_block_def block_out_def Let_def split: option.splits)
  let ?c = "unat (sat_add w 1)"
  have c: "Suc need \<le> ?c" "?c \<le> need + 2" using big assms(5) by auto
  define P where "P = page_of ?f block_key_token (Suc need) (take ?c (map int (down_from k)))"
  have page: "list_blocks_page_bounded enc None [] sid w None (Some (word_of_nat k)) no_block_filters pfx d = Inr P"
    using nz rows w
    by (simp add: list_blocks_page_bounded_def no_block_filters_def run_query_def rows_to_page_map desc_keys_down P_def)
  have items: "pg_items P = map (\<lambda>n. ?f (int n)) (take (Suc need) (down_from k))"
    using c by (auto simp: P_def page_of_def Let_def take_map min_def)
  show ?thesis
  proof (cases "need < Suc k")
    case True
    have ne: "take need (down_from k) \<noteq> []" using assms(4) by simp
    have "take need (pg_items P) = map (\<lambda>n. ?f (int n)) (take need (down_from k))" by (simp add: items take_map min_def)
    moreover have "need < length (pg_items P)" using True by (simp add: items)
    ultimately have "topped_up need items P = (items @ map (\<lambda>n. ?f (int n)) (take need (down_from k)),
       map_option (\<lambda>n. show_block_cursor (BlockCursor (word_of_nat n))) (last_opt (take need (down_from k))), True)"
      using ne by (simp add: topped_up_def last_opt_def last_map num Let_def)
    then show ?thesis using True page by simp
  next
    case False
    then have "\<not> need < length (pg_items P)" "\<not> pi_has_more (pg_info P)" "pi_next_cursor (pg_info P) = None"
      by (simp_all add: items) (simp_all add: P_def page_of_def Let_def)
    then show ?thesis using page False by (simp add: topped_up_def items)
  qed
qed

text \<open>What the node adds above the tables.\<close>

definition node_serves :: "rpc_client \<Rightarrow> nat \<Rightarrow> (nat \<Rightarrow> block) \<Rightarrow> bool" where
  "node_serves c best cb \<longleftrightarrow> rc_subxt c = Inr () \<and> rc_best_head c = Some (word_of_nat best) \<and> best < 2 ^ 63 \<and>
     (\<exists>at. rc_current c = RpcOk at \<and>
        (\<forall>n\<le>best. map_block_at c (at_number at) (word_of_nat n) = Inr (Some (cb n)) \<and> bk_number (cb n) = word_of_nat n))"

lemma takeWhile_take: "takeWhile P (take n xs) = take n (takeWhile P xs)"
  by (induction xs arbitrary: n) (auto simp: take_Cons split: nat.splits)

lemma take_down_from: "take m (rev [k - m ..< Suc k]) = take m (down_from k)"
proof (cases "m \<le> k")
  case True
  have "down_from k = rev [k - m ..< Suc k] @ rev [0 ..< k - m]"
    using upt_add_eq_append [of 0 "k - m" "Suc m"] True by (simp add: down_from_def del: upt_Suc flip: rev_append)
  then show ?thesis using True by (simp del: upt_Suc)
qed (simp add: down_from_def)

lemma node_page:
  assumes "node_serves c best cb" and "k \<le> best" and "cursor = None \<and> k = best \<or> cursor = Some (BlockCursor (word_of_nat (Suc k)))"
  shows "map_ok pg_items (load_latest_blocks c n cursor no_block_filters) = Inr (map cb (take (unat n) (down_from k)))"
proof -
  obtain at where at: "rc_current c = RpcOk at"
    "\<And>m. m \<le> best \<Longrightarrow> map_block_at c (at_number at) (word_of_nat m) = Inr (Some (cb m))"
    using assms(1) by (auto simp: node_serves_def)
  have best: "best < 2 ^ 63" using assms(1) by (simp add: node_serves_def)
  let ?tip = "case cursor of Some q \<Rightarrow> min (sat_sub (bc_block q) 1) (word_of_nat best) | None \<Rightarrow> (word_of_nat best :: u64)"
  have small: "unat (word_of_nat m :: u64) = m" if "m \<le> Suc best" for m
    using that best by (simp only: unat_of_nat) simp
  have tip: "?tip = word_of_nat k" using assms(2,3) small
    by (intro word_unat_eq_iff [THEN iffD2])
      (auto simp: unat_sat_sub min_def word_le_nat_alt simp del: of_nat_Suc)
  have n: "unat (ucast n :: u64) = unat n" "unat n < 2 ^ 32"
    using unsigned_less [of n, where 'a = nat] by (simp_all add: unsigned_ucast_eq take_bit_nat_eq_self)
  then have "unat (sat_add (ucast n) 1 - 1 :: u64) = unat n"
    by (simp add: sat_add_def)
  then have low: "unat (sat_sub (word_of_nat k) (sat_add (ucast n) 1 - 1) :: u64) = k - unat n"
    using small [of k] assms(2) by (simp add: unat_sat_sub)
  have win: "window (sat_sub (word_of_nat k) (sat_add (ucast n) 1 - 1)) (word_of_nat k) =
      map word_of_nat (rev [k - unat n ..< Suc k])"
    using low small [of k] assms(2) by (simp add: window_def del: upt_Suc)
  have coll: "collect_blocks (map_block_at c (at_number at)) (map word_of_nat (rev [k - unat n ..< Suc k])) =
      Inr (map (\<lambda>m. Some (cb m)) (rev [k - unat n ..< Suc k]))"
    using at(2) assms(2)
    by (subst collect_blocks_ok [where b = "\<lambda>w. Some (cb (unat w))"]) (auto simp: small)
  have "load_latest_blocks c n cursor no_block_filters =
      map_ok (\<lambda>blocks. let items = filter (\<lambda>b. block_matches_filters b no_block_filters) (List.map_filter id blocks);
              has_more = length items > unat n; kept = (if has_more then take (unat n) items else items)
          in \<lparr> pg_items = kept, pg_info = \<lparr> pi_total = Some (word_of_nat best + 1),
               pi_next_cursor = (if has_more
                 then map_option (\<lambda>b. show_block_cursor (BlockCursor (bk_number b))) (last_opt kept) else None),
               pi_has_more = has_more \<rparr> \<rparr>)
      (Inr (map (\<lambda>m. Some (cb m)) (rev [k - unat n ..< Suc k])))"
    using assms(1) at(1) tip
    by (simp add: load_latest_blocks_def node_serves_def finalized_head_number_uncached_def with_timeout_def Let_def
        win coll del: upt_Suc)
  moreover have "List.map_filter id (map (\<lambda>m. Some (cb m)) ms) = map cb ms" for ms
    by (induction ms) (simp_all add: List.map_filter_simps)
  ultimately have "map_ok pg_items (load_latest_blocks c n cursor no_block_filters) =
      Inr (take (unat n) (map cb (rev [k - unat n ..< Suc k])))"
    by (simp only: map_ok.simps Let_def) (simp del: upt_Suc rev_map)
  then show ?thesis by (simp only: take_map take_down_from)
qed

lemma pending_above:
  assumes "h < k" and "\<And>n. n \<le> k \<Longrightarrow> bk_number (cb n) = word_of_nat n" and "k < 2 ^ 63" and "0 < m"
  shows "take_pending (word_of_nat h) m [] (map cb (take m (down_from k))) = map cb (take m (rev [Suc h ..< Suc k]))"
proof -
  have above: "bk_number (cb n) > word_of_nat h \<longleftrightarrow> n > h" if "n \<le> k" for n
    using assms(1,2,3) that by (simp add: word_less_nat_alt unat_of_nat)
  have "takeWhile (\<lambda>b. bk_number b > word_of_nat h) (map cb (take m (down_from k))) =
      map cb (takeWhile (\<lambda>n. n > h) (take m (down_from k)))"
  proof -
    have "takeWhile (\<lambda>n. bk_number (cb n) > word_of_nat h) (take m (down_from k)) = takeWhile (\<lambda>n. n > h) (take m (down_from k))"
      using above by (intro takeWhile_cong refl) (auto dest!: in_set_takeD)
    then show ?thesis by (simp add: takeWhile_map comp_def)
  qed
  also have "\<dots> = map cb (take m (takeWhile (\<lambda>n. n > h) (rev [Suc h ..< Suc k] @ down_from h)))"
    using assms(1) by (simp only: takeWhile_take down_from_split [of h k] less_imp_le)
  also have "takeWhile (\<lambda>n. n > h) (rev [Suc h ..< Suc k] @ down_from h) = rev [Suc h ..< Suc k]"
    by (subst takeWhile_append2) (auto simp: down_from_def)
  finally show ?thesis using assms(4) by (simp add: take_pending_eq)
qed

text \<open>A network whose tables hold every block up to \<^verbatim>\<open>h\<close> and whose node serves every block up to its head.\<close>

definition seam_ok ::
  "provider \<Rightarrow> network_spec \<Rightarrow> clients \<Rightarrow> int \<Rightarrow> rpc_client \<Rightarrow> nat \<Rightarrow> nat \<Rightarrow> (nat \<Rightarrow> block) \<Rightarrow> bool" where
  "seam_ok pv spec cs sid c h best cb \<longleftrightarrow> is_indexed pv spec \<and> network_sid pv spec = Inr sid \<and>
     (\<exists>ca. cs (ns_id spec) = Some (c, ca) \<and> ca_latest_blocks ca = Map.empty) \<and> node_serves c best cb \<and>
     block_nums sid (pv_db pv) = {0 .. int h} \<and> h \<le> best \<and> pv_faults pv = (\<lambda>_. None)"

text \<open>The block the reader sees under a number.\<close>

definition seen_block :: "provider \<Rightarrow> network_spec \<Rightarrow> int \<Rightarrow> nat \<Rightarrow> (nat \<Rightarrow> block) \<Rightarrow> nat \<Rightarrow> block" where
  "seen_block pv spec sid h cb n = (if n > h then cb n
     else row_to_block (enc_for pv) (ns_ss58_prefix spec) (block_out sid (pv_db pv) (int n)))"

definition nat_token :: "nat \<Rightarrow> string" where
  "nat_token n = show_block_cursor (BlockCursor (word_of_nat n))"

lemma page_at_seam:
  assumes "h < k" and "m < k - h + Suc h"
  shows "take m (down_from k) = take m (rev [Suc h ..< Suc k]) @ take (m - (k - h)) (down_from h)"
  using assms by (simp add: down_from_split [of h k] del: upt_Suc)

lemma bind_s_Inr: "bind_s (Inr a, s) f = f a s"
  by (simp add: bind_s_def)

lemma bind_s_fst: "fst (bind_s (r, s) (\<lambda>(a, b, c) s. (Inr (f a b c), s))) = map_ok (\<lambda>(a, b, c). f a b c) r"
  by (cases r) (auto simp: bind_s_def)

lemma seam_page:
  assumes "seam_ok pv spec cs sid c h best cb" and "0 < h" and "0 < unat n" and "unat n < 2 ^ 32 - 1" and "k \<le> best"
    and "cur = None \<and> k = best \<or> cur = Some (nat_token (Suc k))"
  shows "\<exists>p. fst (ip_latest_blocks pv spec \<lparr> pr_count = n, pr_cursor = cur \<rparr> no_block_filters cs) = Inr p \<and>
    same_page p (page_of (seen_block pv spec sid h cb) nat_token (unat n) (down_from k))"
proof -
  obtain ca where ca: "cs (ns_id spec) = Some (c, ca)" "ca_latest_blocks ca = Map.empty"
    and node: "node_serves c best cb" and nums: "block_nums sid (pv_db pv) = {0 .. int h}" and h: "h \<le> best"
    using assms(1) by (auto simp: seam_ok_def)
  have seam: "is_indexed pv spec" "network_sid pv spec = Inr sid" "pv_faults pv = (\<lambda>_. None)"
    using assms(1) by (simp_all add: seam_ok_def)
  have n0: "n \<noteq> 0" using assms(3) by auto
  have best: "best < 2 ^ 63" "rc_best_head c = Some (word_of_nat best)" using node by (simp_all add: node_serves_def)
  have small: "unat (word_of_nat m :: u64) = m" if "m \<le> Suc best" for m
    using that best(1) by (simp only: unat_of_nat) simp
  obtain q where q: "parse_cursor block_cursor_from_str \<lparr> pr_count = n, pr_cursor = cur \<rparr> = Inr q"
    "map_option show_block_cursor q = cur" "q = None \<and> k = best \<or> q = Some (BlockCursor (word_of_nat (Suc k)))"
  proof (cases "cur = None")
    case True
    then show ?thesis using that [of None] assms(6) by (simp add: parse_cursor_def)
  next
    case False
    then have "cur = Some (show_block_cursor (BlockCursor (word_of_nat (Suc k))))" using assms(6) by (auto simp: nat_token_def)
    then show ?thesis
      using that [of "Some (BlockCursor (word_of_nat (Suc k)))"]
      by (simp add: block_codec.parse_cursor_shw del: of_nat_Suc)
  qed
  have below: "sat_sub (word_of_nat (Suc k)) 1 = (word_of_nat k :: u64)"
    using small [of "Suc k"] small [of k] assms(5)
    by (intro word_unat_eq_iff [THEN iffD2]) (simp add: unat_sat_sub del: of_nat_Suc)
  have head: "indexed_head None sid (pv_db pv) = Inr (Some (word_of_nat h))"
    by (simp add: indexed_head_def run_query_def nums desc_keys_down down_from_def)
  have cs: "cs(ns_id spec \<mapsto> (c, ca)) = cs" using ca(1) by (simp add: fun_upd_idem)
  have hd: "rpc_head_block (ns_id spec) cs = (Inr (word_of_nat best), cs)"
    by (simp add: rpc_head_block_def on_client_def best_head_number_def ca(1) best(2) cs)
  have fin: "bf_finalized no_block_filters \<noteq> Some True" by (simp add: no_block_filters_def)
  have upper: "(case q of None \<Rightarrow> (case ok_opt (Inr (word_of_nat best) :: u64 data_result) of
        None \<Rightarrow> (case Some (word_of_nat h) of None \<Rightarrow> 0 | Some h \<Rightarrow> h) | Some h \<Rightarrow> h)
      | Some c \<Rightarrow> sat_sub (bc_block c) 1) = (word_of_nat k :: u64)"
    using q(3) below by auto
  have above: "word_of_nat h < (word_of_nat k :: u64) \<longleftrightarrow> h < k"
    using small [of h] small [of k] h assms(5) by (simp add: word_less_nat_alt)
  have bound: "min (word_of_nat h) (case q of None \<Rightarrow> - 1 | Some c \<Rightarrow> sat_sub (bc_block c) 1) = (word_of_nat (min h k) :: u64)"
  proof (cases q)
    case None
    have "word_of_nat h \<le> (- 1 :: u64)" by simp
    then show ?thesis using None q(3) h by (simp add: min_absorb1)
  next
    case (Some z)
    then have "(case q of None \<Rightarrow> - 1 | Some c \<Rightarrow> sat_sub (bc_block c) 1) = (word_of_nat k :: u64)" using q(3) below by auto
    then show ?thesis using small [of h] small [of k] h assms(5) by (simp add: min_def word_le_nat_alt)
  qed
  obtain pg where pg: "load_latest_blocks c n q no_block_filters = Inr pg" "pg_items pg = map cb (take (unat n) (down_from k))"
    using node_page [OF node assms(5) q(3), of n] by (auto simp: map_ok_Inr_iff)
  have rpc: "rpc_latest_blocks (ns_id spec) \<lparr> pr_count = n, pr_cursor = cur \<rparr> no_block_filters cs =
      (Inr pg, cs(ns_id spec \<mapsto> (c, ca\<lparr> ca_latest_blocks := [(n, map_option bc_block q, None, None) \<mapsto> pg] \<rparr>)))"
    using n0 q(1) pg(1) ca
    by (simp add: rpc_latest_blocks_def bind_s_def on_client_def latest_blocks_request_def cached_def no_block_filters_def)
  define pend where "pend = (if h < k then map cb (take (unat n) (rev [Suc h ..< Suc k])) else [])"
  define need where "need = unat n - length pend"
  have pending: "take_pending (word_of_nat h) (unat n) [] (pg_items pg) = map cb (take (unat n) (rev [Suc h ..< Suc k]))" if "h < k"
    unfolding pg(2) using that node assms(3,5) best(1) by (intro pending_above) (auto simp: node_serves_def)
  have "fst (ip_latest_blocks pv spec \<lparr> pr_count = n, pr_cursor = cur \<rparr> no_block_filters cs) =
    map_ok (\<lambda>(items, next_cursor, has_more). \<lparr> pg_items = items, pg_info = \<lparr> pi_total = Some (word_of_nat best + 1),
        pi_next_cursor = next_cursor, pi_has_more = has_more \<rparr> \<rparr>)
      (if need > 0 then map_ok (topped_up need pend) (list_blocks_page_bounded (enc_for pv) None [] sid (word_of_nat (need + 1)) None
          (Some (word_of_nat (min h k))) no_block_filters (ns_ss58_prefix spec) (pv_db pv))
       else Inr (pend, map_option (\<lambda>b. show_block_cursor (BlockCursor (bk_number b))) (last_opt pend), True))"
  proof (cases "h < k")
    case True
    have pend: "take_pending (word_of_nat h) (unat n) [] (pg_items pg) = pend" using pending [OF True] True by (simp add: pend_def)
    have pos: "(0 :: u64) < word_of_nat h" using small [of h] assms(2) h by (simp add: word_less_nat_alt)
    have part: "0 < need \<Longrightarrow> length pend < unat n" by (simp add: need_def)
    have full: "\<not> 0 < need \<Longrightarrow> length pend = unat n" by (auto simp: need_def pend_def)
    show ?thesis
      using n0 True pos full part
      by (cases "0 < need")
        (simp_all add: ip_latest_blocks_def seam q(1,2) hd head upper above bound fin rpc pend bind_s_fst
          bind_s_Inr Let_def need_def [symmetric] del: of_nat_Suc)
  next
    case False
    then have "pend = []" "need = unat n" by (simp_all add: pend_def need_def)
    then show ?thesis
      using n0 False assms(3)
      by (simp add: ip_latest_blocks_def seam q(1,2) hd head upper above bound fin bind_s_fst
          bind_s_Inr Let_def del: of_nat_Suc)
  qed
  also have "\<exists>p. \<dots> = Inr p \<and> same_page p (page_of (seen_block pv spec sid h cb) nat_token (unat n) (down_from k))"
  proof (cases "need > 0")
    case True
    let ?low = "down_from (min h k)"
    have n32: "need < 2 ^ 32 - 1" using assms(4) by (simp add: need_def)
    have w: "unat (word_of_nat (need + 1) :: u32) = Suc need" using n32 by (simp only: unat_of_nat) simp
    have t: "take (unat n) (down_from k) = (if h < k then take (unat n) (rev [Suc h ..< Suc k]) else []) @ take need ?low"
    proof (cases "h < k")
      case True
      then show ?thesis using \<open>need > 0\<close>
        by (simp add: pend_def need_def down_from_split [of h k] min_def del: upt_Suc)
    qed (simp add: pend_def need_def min_def)
    have len: "need < Suc (min h k) \<longleftrightarrow> unat n < Suc k"
      using True by (auto simp: need_def pend_def)
    have "map (seen_block pv spec sid h cb) (take (unat n) (down_from k)) =
        pend @ map (\<lambda>n. row_to_block (enc_for pv) (ns_ss58_prefix spec) (block_out sid (pv_db pv) (int n))) (take need ?low)"
      by (auto simp: t pend_def seen_block_def dest!: in_set_takeD)
    moreover have "last_opt (take (unat n) (down_from k)) = last_opt (take need ?low)"
      using True by (simp add: t last_opt_def)
    ultimately show ?thesis
      using topped_up_eq [of sid "pv_db pv" h "min h k" need _ pend "enc_for pv" "ns_ss58_prefix spec", OF nums _ _ True n32 w]
        h best(1) len True
      by (auto simp: same_page_def page_of_def Let_def nat_token_def [abs_def])
  next
    case False
    then have hk: "h < k" "unat n \<le> k - h" using assms(3) by (auto simp: need_def pend_def split: if_splits)
    then have t: "take (unat n) (down_from k) = take (unat n) (rev [Suc h ..< Suc k])"
      by (simp add: down_from_split [of h k] del: upt_Suc)
    have "map (seen_block pv spec sid h cb) (take (unat n) (down_from k)) = pend"
      using hk(1) by (auto simp: t pend_def seen_block_def dest!: in_set_takeD)
    moreover have "last_opt pend = map_option cb (last_opt (take (unat n) (down_from k)))"
      using hk(1) by (simp add: t pend_def last_opt_def last_map del: upt_Suc)
    moreover have "bk_number (cb m) = word_of_nat m" if "m \<in> set (take (unat n) (down_from k))" for m
      using node assms(5) that by (auto simp: node_serves_def dest!: in_set_takeD)
    ultimately show ?thesis
      using False hk
      by (auto simp: same_page_def page_of_def Let_def nat_token_def last_opt_def split: if_splits)
  qed
  finally show ?thesis .
qed

interpretation seam: paged_query
  "\<lambda>(_ :: unit) req. fst (ip_latest_blocks pv spec req no_block_filters cs)"
  "\<lambda>_. seam_ok pv spec cs sid c h best cb \<and> 0 < h"
  "\<lambda>_. down_from best" "\<lambda>n. n" "\<lambda>_. seen_block pv spec sid h cb" nat_token
  for pv spec cs sid c h best cb
proof
  fix n :: u32 and r y :: nat
  show "sorted_wrt (\<lambda>x y. y < x) (down_from best)"
    by (simp add: down_from_def sorted_wrt_rev del: upt_Suc)
  assume g: "seam_ok pv spec cs sid c h best cb \<and> 0 < h" and n: "0 < unat n" "unat n < 2 ^ 32 - 1"
  show "\<exists>p. fst (ip_latest_blocks pv spec \<lparr> pr_count = n, pr_cursor = None \<rparr> no_block_filters cs) = Inr p \<and>
      same_page p (page_of (seen_block pv spec sid h cb) nat_token (unat n) (down_from best))"
    using g n by (intro seam_page) auto
  assume mem: "r \<in> set (down_from best)" "y \<in> set (down_from best)" "y < r"
  then have "r \<le> best" "r \<noteq> 0" by simp_all
  then obtain k where k: "r = Suc k" "Suc k \<le> best" by (metis not0_implies_Suc)
  then have "filter (\<lambda>x. x < r) (down_from best) = down_from k"
    using filter_down_from [of r best] by (simp add: down_from_def)
  then show "\<exists>p. fst (ip_latest_blocks pv spec \<lparr> pr_count = n, pr_cursor = Some (nat_token r) \<rparr> no_block_filters cs) = Inr p \<and>
      same_page p (page_of (seen_block pv spec sid h cb) nat_token (unat n) (filter (\<lambda>x. x < r) (down_from best)))"
    using g n k seam_page [of pv spec cs sid c h best cb n k "Some (nat_token (Suc k))"] by simp
qed

section \<open>Properties\<close>

text \<open>C4: No block is lost or shown twice at the seam. When the tables hold every block up to the indexed
  head and the node serves every block up to its best head, a reader that follows \<^verbatim>\<open>next_cursor\<close> from
  the first page sees every block of the chain, newest first, each once: the node's above the indexed
  head, the tables' up to it, wherever the seam falls in a page.\<close>

theorem indexed_block_list_complete:
  assumes "seam_ok pv spec cs sid c h best cb" and "0 < h" and "0 < unat n" and "unat n < 2 ^ 32 - 1"
  shows "follow (\<lambda>req. fst (ip_latest_blocks pv spec req no_block_filters cs)) n (Suc (Suc best)) None =
    Some (map (seen_block pv spec sid h cb) (down_from best))"
  using seam.follow_complete [OF conjI [OF assms(1,2)] assms(3,4), of "Suc best"] by simp

definition example_provider :: "db \<Rightarrow> provider" where
  "example_provider d = \<lparr> pv_indexed = {''allfeat''}, pv_buffers = Map.empty, pv_lookup = Some [''allfeat'' \<mapsto> 1],
     pv_db = d, pv_decoder = example_decoder, pv_faults = (\<lambda>_. None), pv_hex = (\<lambda>_. None), pv_parse_id = (\<lambda>_. None),
     pv_debug = id \<rparr>"

definition example_clients :: "u64 \<Rightarrow> u64 \<Rightarrow> clients" where
  "example_clients fin best = [''allfeat'' \<mapsto> (example_client fin best, empty_caches)]"

definition example_served :: "nat \<Rightarrow> block" where
  "example_served n = (case map_block_at (example_client 3 5) 3 (word_of_nat n) of Inr (Some b) \<Rightarrow> b)"

lemma example_node_serves: "node_serves (example_client 3 5) 5 example_served"
proof -
  have "map_block_at (example_client 3 5) 3 (word_of_nat n) = Inr (Some (example_served n)) \<and>
      bk_number (example_served n) = word_of_nat n" if "n \<le> 5" for n
  proof -
    have "(word_of_nat n :: u64) \<le> 5" using that by (simp add: word_le_nat_alt unat_of_nat)
    then show ?thesis using example_map_block_at [of "word_of_nat n" 5 3] by (auto simp: example_served_def)
  qed
  moreover have "at_number (example_at 3 [] []) = 3" by (simp add: example_at_def)
  ultimately show ?thesis by (simp add: node_serves_def) (simp add: example_client_def)
qed

lemma example_network_sid: "network_sid (example_provider d) allfeat = Inr 1" "is_indexed (example_provider d) allfeat"
  "pv_faults (example_provider d) = (\<lambda>_. None)" "pv_db (example_provider d) = d"
  by (simp_all add: network_sid_def is_indexed_def example_provider_def allfeat_def network_resolve_def)

lemma example_clients_at: "example_clients 3 5 (ns_id allfeat) = Some (example_client 3 5, empty_caches)"
  by (simp add: example_clients_def allfeat_def)

lemma example_served_num: "n \<le> 5 \<Longrightarrow> bk_number (example_served n) = word_of_nat n"
  using example_node_serves unfolding node_serves_def by blast

lemma block_out_num: "bk_number (row_to_block e pfx (block_out sid d n)) = word_of_int n"
  by (simp add: row_to_block_def block_out_def Let_def split: option.splits)

lemma seen_block_num:
  "n \<le> 5 \<Longrightarrow> bk_number (seen_block (example_provider d) spec sid h example_served n) = word_of_nat n"
  unfolding seen_block_def by (simp add: example_served_num block_out_num)

lemma example_down_from: "down_from 5 = [5, 4, 3, 2, 1, 0]"
  by (simp add: down_from_def upt_rec)

lemma indexed_block_list_complete_witness:
  "\<exists>items. follow (\<lambda>req. fst (ip_latest_blocks (example_provider example_blocks_db) allfeat req no_block_filters (example_clients 3 5)))
     2 7 None = Some items \<and> map bk_number items = [5, 4, 3, 2, 1, 0]"
proof -
  have seam: "seam_ok (example_provider example_blocks_db) allfeat (example_clients 3 5) 1 (example_client 3 5) 2 5 example_served"
  proof -
    have "{0, 1, 2} = {0 .. int 2}" by auto
    then show ?thesis
      unfolding seam_ok_def example_network_sid example_block_nums example_clients_at
      by (intro conjI exI [of _ empty_caches]) (simp_all only: example_node_serves refl example_network_sid,
        simp_all add: empty_caches_def)
  qed
  have nums: "map bk_number (map (seen_block (example_provider example_blocks_db) allfeat 1 2 example_served) (down_from 5)) =
      [5, 4, 3, 2, 1, 0]"
  proof -
    have "map bk_number (map (seen_block (example_provider example_blocks_db) allfeat 1 2 example_served) (down_from 5)) =
        map word_of_nat (down_from 5)"
      unfolding map_map by (rule map_cong [OF refl]) (simp only: comp_apply seen_block_num set_down_from atMost_iff)
    then show ?thesis by (simp only: example_down_from list.map) simp
  qed
  have "0 < unat (2 :: u32)" "unat (2 :: u32) < 2 ^ 32 - 1" "0 < (2 :: nat)" by simp_all
  then have c: "follow (\<lambda>req. fst (ip_latest_blocks (example_provider example_blocks_db) allfeat req no_block_filters (example_clients 3 5)))
      2 (Suc (Suc 5)) None = Some (map (seen_block (example_provider example_blocks_db) allfeat 1 2 example_served) (down_from 5))"
    using indexed_block_list_complete [OF seam] by blast
  have seven: "Suc (Suc 5) = 7" by simp
  show ?thesis by (intro exI conjI) (rule c [unfolded seven], rule nums)
qed

text \<open>C40: Without an index the list stops after one page. While the tables hold no block above the genesis
  block, a page filled by the node is said to be the last one, although the node has more blocks.\<close>

theorem fresh_index_stops:
  assumes "is_indexed pv spec" and "network_sid pv spec = Inr sid" and "cs (ns_id spec) = Some (c, ca)"
    and "ca_latest_blocks ca = Map.empty" and "node_serves c best cb" and "block_nums sid (pv_db pv) = {}"
    and "pv_faults pv = (\<lambda>_. None)" and "0 < unat n" and "unat n \<le> best"
  shows "\<exists>p. fst (ip_latest_blocks pv spec \<lparr> pr_count = n, pr_cursor = None \<rparr> no_block_filters cs) = Inr p \<and>
    map bk_number (pg_items p) = map word_of_nat (take (unat n) (down_from best)) \<and>
    pi_total (pg_info p) = Some (word_of_nat best + 1) \<and> \<not> pi_has_more (pg_info p) \<and> pi_next_cursor (pg_info p) = None"
proof -
  have n0: "n \<noteq> 0" using assms(8) by auto
  have best: "best < 2 ^ 63" "rc_best_head c = Some (word_of_nat best)" using assms(5) by (simp_all add: node_serves_def)
  have pos: "(0 :: u64) < word_of_nat best"
    using best(1) assms(8,9) by (simp add: word_less_nat_alt unat_of_nat)
  obtain pg where pg: "load_latest_blocks c n None no_block_filters = Inr pg" "pg_items pg = map cb (take (unat n) (down_from best))"
    using node_page [OF assms(5), of best None n] by (auto simp: map_ok_Inr_iff)
  have cs: "cs(ns_id spec \<mapsto> (c, ca)) = cs" using assms(3) by (simp add: fun_upd_idem)
  have hd: "rpc_head_block (ns_id spec) cs = (Inr (word_of_nat best), cs)"
    by (simp add: rpc_head_block_def on_client_def best_head_number_def assms(3) best(2) cs)
  have rpc: "rpc_latest_blocks (ns_id spec) \<lparr> pr_count = n, pr_cursor = None \<rparr> no_block_filters cs =
      (Inr pg, cs(ns_id spec \<mapsto> (c, ca\<lparr> ca_latest_blocks := [(n, None, None, None) \<mapsto> pg] \<rparr>)))"
    using n0 pg(1) assms(3,4)
    by (simp add: rpc_latest_blocks_def bind_s_def on_client_def latest_blocks_request_def cached_def no_block_filters_def
        parse_cursor_def)
  have pend: "take_pending (word_of_nat 0) (unat n) [] (pg_items pg) = map cb (take (unat n) (rev [Suc 0 ..< Suc best]))"
    unfolding pg(2) using assms(5,8,9) best(1) by (intro pending_above) (auto simp: node_serves_def)
  have len: "length (map cb (take (unat n) (rev [Suc 0 ..< Suc best]))) = unat n" using assms(9) by simp
  have t: "take (unat n) (rev [Suc 0 ..< Suc best]) = take (unat n) (down_from best)"
    using assms(9) by (simp add: down_from_split [of 0 best] del: upt_Suc)
  have "map (bk_number \<circ> cb) (take (unat n) (down_from best)) = map word_of_nat (take (unat n) (down_from best))"
    using assms(5) by (auto simp: node_serves_def dest!: in_set_takeD)
  moreover have "fst (ip_latest_blocks pv spec \<lparr> pr_count = n, pr_cursor = None \<rparr> no_block_filters cs) =
    Inr \<lparr> pg_items = map cb (take (unat n) (rev [Suc 0 ..< Suc best])), pg_info = \<lparr> pi_total = Some (word_of_nat best + 1),
      pi_next_cursor = None, pi_has_more = False \<rparr> \<rparr>"
    using n0 assms(1,2,6,7) hd rpc pend len pos
    by (simp add: ip_latest_blocks_def bind_s_Inr parse_cursor_def indexed_head_def run_query_def no_block_filters_def Let_def
        del: upt_Suc) 
  ultimately show ?thesis by (simp add: t del: upt_Suc)
qed

lemma fresh_index_stops_witness:
  "\<exists>p. fst (ip_latest_blocks (example_provider empty_db) allfeat \<lparr> pr_count = 2, pr_cursor = None \<rparr> no_block_filters
     (example_clients 3 5)) = Inr p \<and> map bk_number (pg_items p) = [5, 4] \<and> pi_total (pg_info p) = Some 6 \<and> \<not> pi_has_more (pg_info p) \<and>
     pi_next_cursor (pg_info p) = None"
proof -
  have "block_nums 1 empty_db = {}" by (simp add: block_nums_def empty_db_def)
  then show ?thesis
    using fresh_index_stops [where pv = "example_provider empty_db" and spec = allfeat and n = 2 and ca = empty_caches
        and cs = "example_clients 3 5" and c = "example_client 3 5",
        OF example_network_sid(2,1) example_clients_at _ example_node_serves]
    unfolding example_network_sid example_down_from by (simp add: empty_caches_def)
qed

end
