(* ===== verification/AtsQueries.thy ===== *)
theory AtsQueries
  imports TransferQueries
begin

text \<open>
  The ATS reads of \<^verbatim>\<open>src/data/indexed/queries/ats.rs\<close>: single records, the list of records, the
  list of one owner, the feed of versions and the aggregate. The argument \<^verbatim>\<open>flt\<close> gives the database
  error of the i-th query of a read. The filters of these lists have no fields, so they are not an
  argument.
\<close>

section \<open>Rows\<close>

definition ats_ids :: "int \<Rightarrow> db \<Rightarrow> int set" where
  "ats_ids sid d = {i. (sid, i) \<in> dom (t_registry d)}"

definition ats_row :: "int \<Rightarrow> db \<Rightarrow> int \<Rightarrow> registry_db" where
  "ats_row sid d i = the (t_registry d (sid, i))"

text \<open>The left joins: the time of a block, and the extrinsic of a version.\<close>

definition block_ms :: "int \<Rightarrow> db \<Rightarrow> int \<Rightarrow> int option" where
  "block_ms sid d n = map_option kb_timestamp_ms (t_blocks d (sid, n))"

text \<open>A registry row as the query returns it: the identifier, the columns and the time of the
  creation block, 0 when that block is not stored.\<close>

definition registry_out :: "int \<Rightarrow> db \<Rightarrow> int \<Rightarrow> int \<times> registry_db \<times> int" where
  "registry_out sid d i = (i, ats_row sid d i,
     case block_ms sid d (kr_created_block (ats_row sid d i)) of Some ms \<Rightarrow> ms | None \<Rightarrow> 0)"

record version_out =
  vo_ats_id :: int
  vo_version :: int
  vo_row :: version_db
  vo_timestamp_ms :: "int option"
  vo_extrinsic :: "extrinsic_db option"

definition version_keys :: "int \<Rightarrow> db \<Rightarrow> (int \<times> int) set" where
  "version_keys sid d = {(a, v). (sid, a, v) \<in> dom (t_versions d)}"

definition version_at :: "int \<Rightarrow> db \<Rightarrow> int \<times> int \<Rightarrow> version_out" where
  "version_at sid d k = (let r = the (t_versions d (sid, fst k, snd k)) in
     \<lparr> vo_ats_id = fst k, vo_version = snd k, vo_row = r, vo_timestamp_ms = block_ms sid d (kv_block_num r),
       vo_extrinsic = t_extrinsics d (sid, kv_block_num r, kv_ext_idx r) \<rparr>)"

definition ats_id_u32 :: "int \<Rightarrow> u32" where
  "ats_id_u32 i = (if max i 0 < 2 ^ 32 then word_of_int (max i 0) else - 1)"

definition numeric_u128 :: "nat \<Rightarrow> u128" where
  "numeric_u128 n = (if n < 2 ^ 128 then word_of_nat n else 0)"

definition row_to_version :: "reader \<Rightarrow> version_out \<Rightarrow> ats_version" where
  "row_to_version rd r =
     (let version_index = word_of_int (max (vo_version r) 0);
          block_number = word_of_int (max (kv_block_num (vo_row r)) 0);
          extrinsic_index = word_of_int (max (kv_ext_idx (vo_row r)) 0)
      in \<lparr> av_version_index = version_index, av_commitment = hex_bytes (kv_commitment (vo_row r)),
           av_protocol_version = word_of_int (max (kv_protocol_version (vo_row r)) 0),
           av_created_at_ms = (case vo_timestamp_ms r of Some ms \<Rightarrow> ms | None \<Rightarrow> 0),
           av_block_number = block_number, av_extrinsic_index = extrinsic_index,
           av_extrinsic_id = extrinsic_id block_number extrinsic_index,
           av_fee = (case vo_extrinsic r of Some x \<Rightarrow> numeric_u128 (kx_fee x) | None \<Rightarrow> 0),
           av_signer = (case Option.bind (Option.bind (vo_extrinsic r) kx_signer) (rd_enc rd) of
              Some s \<Rightarrow> s | None \<Rightarrow> []) \<rparr>)"

definition registry_to_record :: "reader \<Rightarrow> int \<times> registry_db \<times> int \<Rightarrow> ats_version list \<Rightarrow> ats_record" where
  "registry_to_record rd reg versions = (case reg of (i, r, created_ms) \<Rightarrow>
     (let owner = (case rd_enc rd (kr_owner r) of Some s \<Rightarrow> s | None \<Rightarrow> hex_bytes (kr_owner r));
          version_count = word_of_int (max (kr_version_count r) 0) :: u32;
          total_deposit = sat_mul (ucast version_count) version_deposit
      in \<lparr> ar_ats_id = ats_id_u32 i, ar_owner = owner, ar_created_at_ms = created_ms,
           ar_created_at_block = word_of_int (max (kr_created_block r) 0), ar_version_count = version_count,
           ar_deposits = (if version_count > 0 then [\<lparr> dp_address = owner, dp_amount = total_deposit \<rparr>] else []),
           ar_total_deposit = total_deposit, ar_versions = versions \<rparr>))"

section \<open>Records\<close>

definition max_ats_id :: "string option \<Rightarrow> int \<Rightarrow> db \<Rightarrow> u64 option data_result" where
  "max_ats_id flt sid d = run_query flt (''max_ats_id(net='' @ show_int sid @ '')'')
     (if ats_ids sid d = {} then None else Some (word_of_int (Max (ats_ids sid d))))"

definition versions_for_ats :: "string option \<Rightarrow> reader \<Rightarrow> int \<Rightarrow> db \<Rightarrow> ats_version list data_result" where
  "versions_for_ats flt rd i d = map_ok (map (row_to_version rd))
     (run_query flt (''versions_for_ats(net='' @ show_int (rd_sid rd) @ ''/'' @ show_int i @ '')'')
       (map (version_at (rd_sid rd) d) (sorted_list_of_set {k \<in> version_keys (rd_sid rd) d. fst k = i})))"

definition ats_by_id ::
  "(nat \<Rightarrow> string option) \<Rightarrow> reader \<Rightarrow> u32 \<Rightarrow> db \<Rightarrow> ats_record option data_result" where
  "ats_by_id flt rd ats_id d =
     bind_r (run_query (flt 0) (''ats_by_id(net='' @ show_int (rd_sid rd) @ '', '' @ show_word ats_id @ '')'')
       (if uint ats_id \<in> ats_ids (rd_sid rd) d then Some (registry_out (rd_sid rd) d (uint ats_id)) else None)) (\<lambda>registry.
     case registry of
       None \<Rightarrow> Inr None
     | Some reg \<Rightarrow> map_ok (\<lambda>versions. Some (registry_to_record rd reg versions)) (versions_for_ats (flt 1) rd (fst reg) d))"

text \<open>The versions of every record of a list, by one query; a list of the map is taken once.\<close>

fun group_versions ::
  "reader \<Rightarrow> version_out list \<Rightarrow> (int \<rightharpoonup> ats_version list) \<Rightarrow> (int \<rightharpoonup> ats_version list)" where
  "group_versions rd [] by_id = by_id"
| "group_versions rd (row # rows) by_id = group_versions rd rows
     (by_id(vo_ats_id row \<mapsto> (case by_id (vo_ats_id row) of Some vs \<Rightarrow> vs | None \<Rightarrow> []) @ [row_to_version rd row]))"

fun take_records ::
  "reader \<Rightarrow> (int \<rightharpoonup> ats_version list) \<Rightarrow> (int \<times> registry_db \<times> int) list \<Rightarrow> ats_record list" where
  "take_records rd by_id [] = []"
| "take_records rd by_id (reg # regs) =
     registry_to_record rd reg (case by_id (fst reg) of Some vs \<Rightarrow> vs | None \<Rightarrow> []) #
     take_records rd (by_id(fst reg := None)) regs"

definition hydrate_records ::
  "string option \<Rightarrow> reader \<Rightarrow> (int \<times> registry_db \<times> int) list \<Rightarrow> db \<Rightarrow> ats_record list data_result" where
  "hydrate_records flt rd regs d =
     (if regs = [] then Inr []
      else map_ok (\<lambda>rows. take_records rd (group_versions rd rows Map.empty) regs)
        (run_query flt (''hydrate_records(net='' @ show_int (rd_sid rd) @ '') versions'')
          (map (version_at (rd_sid rd) d)
            (sorted_list_of_set {k \<in> version_keys (rd_sid rd) d. fst k \<in> set (map fst regs)}))))"

definition registry_total :: "string option \<Rightarrow> int \<Rightarrow> db \<Rightarrow> u64 data_result" where
  "registry_total flt sid d = run_query flt (''registry_total(net='' @ show_int sid @ '')'')
     (word_of_nat (card (ats_ids sid d)))"

text \<open>The page of records whose identifiers the query found, one more than asked for.\<close>

definition records_page ::
  "(nat \<Rightarrow> string option) \<Rightarrow> u64 data_result \<Rightarrow> reader \<Rightarrow> u32 \<Rightarrow> (int \<times> registry_db \<times> int) list \<Rightarrow> db
   \<Rightarrow> ats_record page data_result" where
  "records_page flt tot rd cnt rows d =
     (let has_more = length rows > unat cnt;
          truncated = (if has_more then take (unat cnt) rows else rows);
          next_cursor = (if has_more then map_option (\<lambda>r. show_ats_cursor (AtsCursor (ats_id_u32 (fst r)))) (last_opt truncated)
            else None)
      in map_ok (\<lambda>items. \<lparr> pg_items = items, pg_info = \<lparr> pi_total = ok_opt tot, pi_next_cursor = next_cursor,
           pi_has_more = has_more \<rparr> \<rparr>)
         (hydrate_records (flt 1) rd truncated d))"

definition list_ats_page ::
  "(nat \<Rightarrow> string option) \<Rightarrow> reader \<Rightarrow> page_request \<Rightarrow> db \<Rightarrow> ats_record page data_result" where
  "list_ats_page flt rd req d =
     (if pr_count req = 0 then Inr empty_page
      else bind_r (parse_cursor ats_cursor_from_str req) (\<lambda>cursor.
        bind_r (run_query (flt 0) (''list_ats_page(net='' @ show_int (rd_sid rd) @ '', count='' @ show_word (pr_count req) @ '')'')
          (map (registry_out (rd_sid rd) d) (take (Suc (unat (pr_count req)))
            (desc_keys {i \<in> ats_ids (rd_sid rd) d. case cursor of Some c \<Rightarrow> i < uint (tc_id c) | None \<Rightarrow> True})))) (\<lambda>rows.
        records_page flt (registry_total (flt 2) (rd_sid rd) d) rd (pr_count req) rows d)))"

section \<open>Records of an owner\<close>

definition owned_ids :: "int \<Rightarrow> bytes \<Rightarrow> db \<Rightarrow> int set" where
  "owned_ids sid owner d = {i \<in> ats_ids sid d. kr_owner (ats_row sid d i) = owner}"

definition account_ats_count ::
  "(string \<Rightarrow> bytes option) \<Rightarrow> string option \<Rightarrow> int \<Rightarrow> string \<Rightarrow> db \<Rightarrow> u32 data_result" where
  "account_ats_count parse_id flt sid address d = (case parse_id address of
       None \<Rightarrow> Inr 0
     | Some owner \<Rightarrow> run_query flt (''account_ats_count(net='' @ show_int sid @ ''/'' @ address @ '')'')
         (word_of_nat (card (owned_ids sid owner d))))"

definition list_account_ats_page ::
  "(string \<Rightarrow> bytes option) \<Rightarrow> (nat \<Rightarrow> string option) \<Rightarrow> reader \<Rightarrow> string \<Rightarrow> page_request \<Rightarrow> db
   \<Rightarrow> ats_record page data_result" where
  "list_account_ats_page parse_id flt rd address req d =
     (if pr_count req = 0 then Inr empty_page
      else case parse_id address of
        None \<Rightarrow> Inr empty_page
      | Some owner \<Rightarrow> bind_r (parse_cursor ats_cursor_from_str req) (\<lambda>cursor.
          bind_r (run_query (flt 0) (''list_account_ats_page(net='' @ show_int (rd_sid rd) @ ''/'' @ address @
              '', count='' @ show_word (pr_count req) @ '')'')
            (map (registry_out (rd_sid rd) d) (take (Suc (unat (pr_count req)))
              (desc_keys {i \<in> owned_ids (rd_sid rd) owner d. case cursor of Some c \<Rightarrow> i < uint (tc_id c) | None \<Rightarrow> True})))) (\<lambda>rows.
          records_page flt (map_ok ucast (account_ats_count parse_id (flt 2) (rd_sid rd) address d)) rd (pr_count req) rows d)))"

definition account_ats ::
  "(string \<Rightarrow> bytes option) \<Rightarrow> (nat \<Rightarrow> string option) \<Rightarrow> reader \<Rightarrow> string \<Rightarrow> u32 \<Rightarrow> db \<Rightarrow> ats_record list data_result" where
  "account_ats parse_id flt rd address limit d =
     (if limit = 0 then Inr []
      else case parse_id address of
        None \<Rightarrow> Inr []
      | Some owner \<Rightarrow>
          bind_r (run_query (flt 0) (''account_ats(net='' @ show_int (rd_sid rd) @ ''/'' @ address @ '','' @ show_word limit @ '')'')
            (map (registry_out (rd_sid rd) d) (take (unat limit) (desc_keys (owned_ids (rd_sid rd) owner d))))) (\<lambda>rows.
          hydrate_records (flt 1) rd rows d))"

section \<open>The feed of versions\<close>

type_synonym feed_key = "int \<times> int \<times> int"

text \<open>The join with the registry: the block, the ATS and the version of every version of a stored ATS.\<close>

definition feed_keys :: "int \<Rightarrow> db \<Rightarrow> feed_key set" where
  "feed_keys sid d = {(b, a, v). (\<exists>r. t_versions d (sid, a, v) = Some r \<and> kv_block_num r = b) \<and> a \<in> ats_ids sid d}"

definition feed_out :: "int \<Rightarrow> db \<Rightarrow> feed_key \<Rightarrow> registry_db \<times> version_out" where
  "feed_out sid d k = (ats_row sid d (fst (snd k)), version_at sid d (snd k))"

definition feed_row_to_item :: "reader \<Rightarrow> registry_db \<times> version_out \<Rightarrow> ats_feed_item option" where
  "feed_row_to_item rd row = (case row of (reg, r) \<Rightarrow>
     map_option (\<lambda>owner.
       let block_number = word_of_int (max (kv_block_num (vo_row r)) 0);
           extrinsic_index = word_of_int (max (kv_ext_idx (vo_row r)) 0);
           version_count = word_of_int (max (kr_version_count reg) 0);
           version_index = word_of_int (max (vo_version r) 0)
       in \<lparr> fi_ats_id = ats_id_u32 (vo_ats_id r), fi_owner = owner, fi_version_index = version_index,
            fi_is_initial = (version_index = 0), fi_is_latest = (version_index + 1 = version_count),
            fi_version_count = version_count, fi_commitment = hex_bytes (kv_commitment (vo_row r)),
            fi_protocol_version = word_of_int (max (kv_protocol_version (vo_row r)) 0),
            fi_block_number = block_number, fi_extrinsic_id = extrinsic_id block_number extrinsic_index,
            fi_timestamp_ms = (case vo_timestamp_ms r of Some ms \<Rightarrow> ms | None \<Rightarrow> 0),
            fi_signer = (case Option.bind (Option.bind (vo_extrinsic r) kx_signer) (rd_enc rd) of
               Some s \<Rightarrow> s | None \<Rightarrow> owner) \<rparr>)
       (rd_enc rd (kr_owner reg)))"

definition version_total :: "string option \<Rightarrow> int \<Rightarrow> db \<Rightarrow> u64 data_result" where
  "version_total flt sid d = run_query flt (''version_total(net='' @ show_int sid @ '')'')
     (word_of_int (max (\<Sum>i\<in>ats_ids sid d. kr_version_count (ats_row sid d i)) 0))"

definition list_ats_feed_page ::
  "(nat \<Rightarrow> string option) \<Rightarrow> reader \<Rightarrow> page_request \<Rightarrow> db \<Rightarrow> ats_feed_item page data_result" where
  "list_ats_feed_page flt rd req d =
     (if pr_count req = 0 then Inr empty_page
      else bind_r (parse_cursor ats_feed_cursor_from_str req) (\<lambda>cursor.
        map_ok (\<lambda>rows.
          let probed = List.map_filter (feed_row_to_item rd) rows;
              has_more = length probed > unat (pr_count req);
              kept = (if has_more then take (unat (pr_count req)) probed else probed)
          in \<lparr> pg_items = kept, pg_info = \<lparr> pi_total = ok_opt (version_total (flt 1) (rd_sid rd) d),
               pi_next_cursor = (if has_more then map_option (\<lambda>item. show_ats_feed_cursor
                 (AtsFeedCursor (fi_block_number item) (fi_ats_id item) (fi_version_index item))) (last_opt kept) else None),
               pi_has_more = has_more \<rparr> \<rparr>)
          (run_query (flt 0) (''list_ats_feed_page(net='' @ show_int (rd_sid rd) @ '')'')
            (map (feed_out (rd_sid rd) d) (take (Suc (unat (pr_count req))) (desc_keys {k \<in> feed_keys (rd_sid rd) d.
              case cursor of Some c \<Rightarrow> k < (sint (fc_block_num c), uint (fc_ats_id c), sint (fc_version c)) | None \<Rightarrow> True}))))))"

definition ats_version_feed ::
  "string option \<Rightarrow> reader \<Rightarrow> u32 \<Rightarrow> u32 \<Rightarrow> db \<Rightarrow> ats_feed_item list data_result" where
  "ats_version_feed flt rd cnt from_index d =
     (if cnt = 0 then Inr []
      else map_ok (List.map_filter (feed_row_to_item rd))
        (run_query flt (''ats_version_feed(net='' @ show_int (rd_sid rd) @ '', '' @ show_word cnt @ '','' @ show_word from_index @ '')'')
          (map (feed_out (rd_sid rd) d) (take (unat cnt) (drop (unat from_index) (desc_keys (feed_keys (rd_sid rd) d)))))))"

section \<open>The aggregate\<close>

text \<open>The share of records with several versions is a quotient of two 32-bit floats; the record keeps
  the two numbers before their conversion, the second being 0 for the share 0.\<close>

record ats_stats =
  as_total :: u32
  as_total_versions :: u32
  as_last_24h :: u32
  as_last_7d :: u32
  as_last_30d :: u32
  as_unique_owners :: u32
  as_avg_per_day :: u32
  as_protocol_version :: u8
  as_genesis_block :: u64
  as_first_registered_at_ms :: int
  as_total_deposited :: u128
  as_multi_version_share :: "u32 \<times> u32"

definition h24_ms :: int where
  "h24_ms = 24 * 60 * 60 * 1000"

definition now_ms :: "int \<Rightarrow> db \<Rightarrow> int" where
  "now_ms sid d = Max {kb_timestamp_ms b |b. \<exists>n. t_blocks d (sid, n) = Some b}"

text \<open>The versions of the blocks of the last \<^verbatim>\<open>span\<close> milliseconds, counted from the newest block.\<close>

definition versions_since :: "int \<Rightarrow> db \<Rightarrow> int \<Rightarrow> (int \<times> int) set" where
  "versions_since sid d span = {k \<in> version_keys sid d.
     case vo_timestamp_ms (version_at sid d k) of Some ms \<Rightarrow> ms \<ge> now_ms sid d - span | None \<Rightarrow> False}"

definition ats_stats_query :: "string option \<Rightarrow> int \<Rightarrow> db \<Rightarrow> ats_stats data_result" where
  "ats_stats_query flt sid d = run_query flt (''ats_stats(net='' @ show_int sid @ '')'')
     (let ids = ats_ids sid d;
          tot = word_of_nat (card ids);
          multi_version = word_of_nat (card {i \<in> ids. kr_version_count (ats_row sid d i) > 1});
          total_versions = word_of_int (max (\<Sum>i\<in>ids. kr_version_count (ats_row sid d i)) 0) :: u32;
          genesis_block = (if ids = {} then None else Some (Min (kr_created_block ` ats_row sid d ` ids)));
          last_24h = word_of_nat (card (versions_since sid d h24_ms))
      in \<lparr> as_total = tot, as_total_versions = total_versions, as_last_24h = last_24h,
           as_last_7d = word_of_nat (card (versions_since sid d (7 * h24_ms))),
           as_last_30d = word_of_nat (card (versions_since sid d (30 * h24_ms))),
           as_unique_owners = word_of_nat (card (kr_owner ` ats_row sid d ` ids)),
           as_avg_per_day = last_24h, as_protocol_version = 1,
           as_genesis_block = (case genesis_block of Some g \<Rightarrow> word_of_int (max g 0) | None \<Rightarrow> 0),
           as_first_registered_at_ms = (case Option.bind genesis_block (block_ms sid d) of Some ms \<Rightarrow> ms | None \<Rightarrow> 0),
           as_total_deposited = sat_mul (ucast total_versions) version_deposit,
           as_multi_version_share = (if tot = 0 then (0, 0) else (multi_version, tot)) \<rparr>)"

section \<open>Hydration is exact\<close>

definition ats_versions_of :: "reader \<Rightarrow> db \<Rightarrow> int \<Rightarrow> ats_version list" where
  "ats_versions_of rd d i = map (\<lambda>k. row_to_version rd (version_at (rd_sid rd) d k))
     (sorted_list_of_set {k \<in> version_keys (rd_sid rd) d. fst k = i})"

definition read_ats :: "reader \<Rightarrow> db \<Rightarrow> int \<Rightarrow> ats_record" where
  "read_ats rd d i = registry_to_record rd (registry_out (rd_sid rd) d i) (ats_versions_of rd d i)"

lemma finite_pairs: "finite (dom t) \<Longrightarrow> finite {k. (s, k) \<in> dom t}" for t :: "'a \<times> 'b \<rightharpoonup> 'c"
  using finite_vimageI [of "dom t" "Pair s"] by (simp add: vimage_def inj_def)

lemma finite_ats_ids: "finite (dom (t_registry d)) \<Longrightarrow> finite (ats_ids sid d)"
  by (simp add: ats_ids_def finite_pairs)

lemma finite_version_keys: "finite (dom (t_versions d)) \<Longrightarrow> finite (version_keys sid d)"
  using finite_pairs [of "t_versions d" sid] by (rule rev_finite_subset) (auto simp: version_keys_def)

lemma vo_ats_id_at [simp]: "vo_ats_id (version_at sid d k) = fst k"
  by (simp add: version_at_def Let_def)

lemma group_versions_at:
  "(case group_versions rd rows m i of Some vs \<Rightarrow> vs | None \<Rightarrow> []) =
     (case m i of Some vs \<Rightarrow> vs | None \<Rightarrow> []) @ map (row_to_version rd) (filter (\<lambda>r. vo_ats_id r = i) rows)"
  by (induction rows arbitrary: m) (auto split: option.splits)

lemma take_records_distinct:
  "distinct (map fst regs) \<Longrightarrow> take_records rd m regs =
     map (\<lambda>reg. registry_to_record rd reg (case m (fst reg) of Some vs \<Rightarrow> vs | None \<Rightarrow> [])) regs"
proof (induction regs arbitrary: m)
  case (Cons reg regs)
  then have "fst r \<noteq> fst reg" if "r \<in> set regs" for r using that by (auto simp: image_iff)
  then show ?case using Cons by (simp cong: map_cong)
qed simp

lemma hydrate_records_ok:
  assumes "finite (dom (t_versions d))" and "distinct ids"
  shows "hydrate_records None rd (map (registry_out (rd_sid rd) d) ids) d = Inr (map (read_ats rd d) ids)"
proof (cases ids)
  case Nil
  then show ?thesis by (simp add: hydrate_records_def)
next
  case (Cons j js)
  let ?K = "{k \<in> version_keys (rd_sid rd) d. fst k \<in> set ids}"
  let ?rows = "map (version_at (rd_sid rd) d) (sorted_list_of_set ?K)"
  have fst_out: "fst (registry_out (rd_sid rd) d i) = i" for i by (simp add: registry_out_def)
  have fin: "finite ?K" using finite_version_keys [OF assms(1)] by simp
  have rows: "map (row_to_version rd) (filter (\<lambda>r. vo_ats_id r = i) ?rows) = ats_versions_of rd d i" if "i \<in> set ids" for i
  proof -
    have "{k \<in> ?K. fst k = i} = {k \<in> version_keys (rd_sid rd) d. fst k = i}" using that by auto
    then have "filter (\<lambda>k. fst k = i) (sorted_list_of_set ?K) = sorted_list_of_set {k \<in> version_keys (rd_sid rd) d. fst k = i}"
      using sorted_list_filter [OF fin, of "\<lambda>k. fst k = i"] by simp
    then show ?thesis by (simp add: ats_versions_of_def filter_map comp_def)
  qed
  have "take_records rd (group_versions rd ?rows Map.empty) (map (registry_out (rd_sid rd) d) ids) =
      map (read_ats rd d) ids"
  proof (subst take_records_distinct)
    show "distinct (map fst (map (registry_out (rd_sid rd) d) ids))" using assms(2) by (simp add: comp_def fst_out)
    show "map (\<lambda>reg. registry_to_record rd reg (case group_versions rd ?rows Map.empty (fst reg) of Some vs \<Rightarrow> vs | None \<Rightarrow> []))
        (map (registry_out (rd_sid rd) d) ids) = map (read_ats rd d) ids"
      unfolding map_map comp_def fst_out group_versions_at using rows by (simp add: read_ats_def)
  qed
  then show ?thesis using Cons by (simp add: hydrate_records_def run_query_def fst_out comp_def image_image)
qed

lemma ats_by_id_eq:
  "ats_by_id (\<lambda>_. None) rd i d = Inr (if uint i \<in> ats_ids (rd_sid rd) d then Some (read_ats rd d (uint i)) else None)"
  by (simp add: ats_by_id_def run_query_def versions_for_ats_def read_ats_def ats_versions_of_def registry_out_def comp_def)

section \<open>Pages\<close>

definition ats_ok :: "int \<Rightarrow> db \<Rightarrow> bool" where
  "ats_ok sid d \<longleftrightarrow> finite (dom (t_registry d)) \<and> finite (dom (t_versions d)) \<and> (\<forall>i\<in>ats_ids sid d. 0 \<le> i \<and> i < 2 ^ 32)"

definition ats_token :: "int \<Rightarrow> string" where
  "ats_token i = show_ats_cursor (AtsCursor (ats_id_u32 i))"

lemma uint_ats_id: "0 \<le> i \<Longrightarrow> i < 2 ^ 32 \<Longrightarrow> uint (ats_id_u32 i) = i"
  by (simp add: ats_id_u32_def max_def uint_word_of_int)

lemma last_opt_map: "last_opt (map f xs) = map_option f (last_opt xs)"
  by (simp add: last_opt_def last_map)

lemma records_page_eq:
  assumes "finite (dom (t_versions d))" and "distinct ids"
  shows "\<exists>p. records_page (\<lambda>_. None) tot rd n (map (registry_out (rd_sid rd) d) (take (Suc (unat n)) ids)) d = Inr p \<and>
    same_page p (page_of (read_ats rd d) ats_token (unat n) ids)"
proof (cases "unat n < length ids")
  case True
  have "distinct (take (unat n) ids)" using assms(2) by (rule distinct_take)
  moreover have "map_option (\<lambda>r. show_ats_cursor (AtsCursor (ats_id_u32 (fst r))))
      (last_opt (map (registry_out (rd_sid rd) d) (take (unat n) ids))) = map_option ats_token (last_opt (take (unat n) ids))"
    by (simp add: last_opt_map map_option.compositionality comp_def registry_out_def ats_token_def [abs_def] del: take_map)
  ultimately show ?thesis using hydrate_records_ok [OF assms(1)] True
    by (simp add: records_page_def page_of_def same_page_def Let_def take_map min_def)
next
  case False
  then show ?thesis using hydrate_records_ok [OF assms]
    by (simp add: records_page_def page_of_def same_page_def Let_def)
qed

text \<open>The identifiers below a cursor that names one of them.\<close>

lemma ids_below:
  assumes "finite K" and "r \<in> K" and "\<forall>i\<in>K. 0 \<le> i \<and> i < 2 ^ 32"
  shows "desc_keys {i \<in> K. i < uint (ats_id_u32 r)} = filter (\<lambda>i. i < r) (desc_keys K)"
  using assms uint_ats_id [of r] by (simp add: desc_keys_filter)

lemma parse_ats_token: "parse_cursor ats_cursor_from_str \<lparr> pr_count = n, pr_cursor = Some (ats_token i) \<rparr> =
    Inr (Some (AtsCursor (ats_id_u32 i)))"
  unfolding ats_token_def by (rule ats_codec.parse_cursor_shw)

interpretation ats_list: paged_query
  "\<lambda>d req. list_ats_page (\<lambda>_. None) rd req d" "ats_ok (rd_sid rd)" "\<lambda>d. desc_keys (ats_ids (rd_sid rd) d)"
  "\<lambda>i. i" "read_ats rd" ats_token for rd
proof
  fix d and n :: u32 and r y
  let ?K = "ats_ids (rd_sid rd) d"
  show "sorted_wrt (\<lambda>x y. y < x) (desc_keys ?K)" by (rule sorted_desc_keys)
  assume g: "ats_ok (rd_sid rd) d" and n: "0 < unat n" "unat n < 2 ^ 32 - 1"
  then have fin: "finite (dom (t_versions d))" "finite ?K" by (simp_all add: ats_ok_def finite_ats_ids)
  have n0: "n \<noteq> 0" using n by auto
  show "\<exists>p. list_ats_page (\<lambda>_. None) rd \<lparr> pr_count = n, pr_cursor = None \<rparr> d = Inr p \<and>
      same_page p (page_of (read_ats rd d) ats_token (unat n) (desc_keys ?K))"
    using records_page_eq [OF fin(1) distinct_desc_keys] n0 by (simp add: list_ats_page_def parse_cursor_def run_query_def)
  assume mem: "r \<in> set (desc_keys ?K)" "y \<in> set (desc_keys ?K)" "y < r"
  then have below: "desc_keys {i \<in> ?K. i < uint (ats_id_u32 r)} = filter (\<lambda>i. i < r) (desc_keys ?K)"
    using ids_below [OF fin(2)] g fin(2) by (simp add: ats_ok_def)
  show "\<exists>p. list_ats_page (\<lambda>_. None) rd \<lparr> pr_count = n, pr_cursor = Some (ats_token r) \<rparr> d = Inr p \<and>
      same_page p (page_of (read_ats rd d) ats_token (unat n) (filter (\<lambda>i. i < r) (desc_keys ?K)))"
    using records_page_eq [OF fin(1), of "filter (\<lambda>i. i < r) (desc_keys ?K)"] n0
    by (simp add: list_ats_page_def parse_ats_token run_query_def below)
qed

interpretation owner_list: paged_query
  "\<lambda>d req. list_account_ats_page parse_id (\<lambda>_. None) rd address req d"
  "\<lambda>d. ats_ok (rd_sid rd) d \<and> parse_id address = Some owner" "\<lambda>d. desc_keys (owned_ids (rd_sid rd) owner d)"
  "\<lambda>i. i" "read_ats rd" ats_token for parse_id rd address owner
proof
  fix d and n :: u32 and r y
  let ?K = "owned_ids (rd_sid rd) owner d"
  show "sorted_wrt (\<lambda>x y. y < x) (desc_keys ?K)" by (rule sorted_desc_keys)
  assume g: "ats_ok (rd_sid rd) d \<and> parse_id address = Some owner" and n: "0 < unat n" "unat n < 2 ^ 32 - 1"
  then have fin: "finite (dom (t_versions d))" "finite ?K" by (simp_all add: ats_ok_def finite_ats_ids owned_ids_def)
  have n0: "n \<noteq> 0" using n by auto
  show "\<exists>p. list_account_ats_page parse_id (\<lambda>_. None) rd address \<lparr> pr_count = n, pr_cursor = None \<rparr> d = Inr p \<and>
      same_page p (page_of (read_ats rd d) ats_token (unat n) (desc_keys ?K))"
    using records_page_eq [OF fin(1) distinct_desc_keys] n0 g
    by (simp add: list_account_ats_page_def parse_cursor_def run_query_def)
  assume mem: "r \<in> set (desc_keys ?K)" "y \<in> set (desc_keys ?K)" "y < r"
  then have below: "desc_keys {i \<in> ?K. i < uint (ats_id_u32 r)} = filter (\<lambda>i. i < r) (desc_keys ?K)"
    using ids_below [OF fin(2)] g fin(2) by (simp add: ats_ok_def owned_ids_def)
  show "\<exists>p. list_account_ats_page parse_id (\<lambda>_. None) rd address \<lparr> pr_count = n, pr_cursor = Some (ats_token r) \<rparr> d = Inr p \<and>
      same_page p (page_of (read_ats rd d) ats_token (unat n) (filter (\<lambda>i. i < r) (desc_keys ?K)))"
    using records_page_eq [OF fin(1), of "filter (\<lambda>i. i < r) (desc_keys ?K)"] n0 g
    by (simp add: list_account_ats_page_def parse_ats_token run_query_def below)
qed

section \<open>The feed\<close>

definition feed_ok :: "int \<Rightarrow> db \<Rightarrow> bool" where
  "feed_ok sid d \<longleftrightarrow> finite (dom (t_versions d)) \<and>
     (\<forall>(b, a, v)\<in>feed_keys sid d. 0 \<le> b \<and> b < 2 ^ 63 \<and> 0 \<le> a \<and> a < 2 ^ 32 \<and> 0 \<le> v \<and> v < 2 ^ 31 \<and>
        length (kr_owner (ats_row sid d a)) = 32)"

definition read_feed :: "reader \<Rightarrow> db \<Rightarrow> feed_key \<Rightarrow> ats_feed_item" where
  "read_feed rd d k = the (feed_row_to_item rd (feed_out (rd_sid rd) d k))"

definition feed_token :: "feed_key \<Rightarrow> string" where
  "feed_token k = show_ats_feed_cursor
     (AtsFeedCursor (word_of_int (fst k)) (word_of_int (fst (snd k))) (word_of_int (snd (snd k))))"

lemma finite_feed_keys:
  assumes "finite (dom (t_versions d))"
  shows "finite (feed_keys sid d)"
proof -
  let ?f = "\<lambda>k. (kv_block_num (the (t_versions d (sid, k))), k)"
  have "feed_keys sid d \<subseteq> ?f ` version_keys sid d" by (force simp: feed_keys_def version_keys_def)
  then show ?thesis using finite_version_keys [OF assms] by (meson finite_imageI finite_subset)
qed

lemma feed_item_ok:
  assumes "feed_ok (rd_sid rd) d" and "k \<in> feed_keys (rd_sid rd) d"
  shows "feed_row_to_item rd (feed_out (rd_sid rd) d k) = Some (read_feed rd d k) \<and>
    show_ats_feed_cursor (AtsFeedCursor (fi_block_number (read_feed rd d k)) (fi_ats_id (read_feed rd d k))
      (fi_version_index (read_feed rd d k))) = feed_token k"
proof -
  obtain b a v where k: "k = (b, a, v)" by (metis prod_cases3)
  obtain r where r: "t_versions d (rd_sid rd, a, v) = Some r" "kv_block_num r = b"
    using assms(2) by (auto simp: feed_keys_def k)
  have "0 \<le> b \<and> 0 \<le> a \<and> a < 2 ^ 32 \<and> 0 \<le> v \<and> length (kr_owner (ats_row (rd_sid rd) d a)) = 32"
    using assms unfolding feed_ok_def k by fast
  then show ?thesis
    by (simp add: k r feed_row_to_item_def feed_out_def read_feed_def feed_token_def version_at_def rd_enc_def Let_def ats_id_u32_def)
qed

lemma list_feed_page_eq:
  assumes "feed_ok (rd_sid rd) d" and "n \<noteq> 0"
    and "parse_cursor ats_feed_cursor_from_str \<lparr> pr_count = n, pr_cursor = c \<rparr> = Inr fc"
  shows "\<exists>p. list_ats_feed_page (\<lambda>_. None) rd \<lparr> pr_count = n, pr_cursor = c \<rparr> d = Inr p \<and>
    same_page p (page_of (read_feed rd d) feed_token (unat n) (desc_keys {k \<in> feed_keys (rd_sid rd) d.
      case fc of Some c \<Rightarrow> k < (sint (fc_block_num c), uint (fc_ats_id c), sint (fc_version c)) | None \<Rightarrow> True}))"
proof -
  let ?ks = "desc_keys {k \<in> feed_keys (rd_sid rd) d.
      case fc of Some c \<Rightarrow> k < (sint (fc_block_num c), uint (fc_ats_id c), sint (fc_version c)) | None \<Rightarrow> True}"
  have "finite (feed_keys (rd_sid rd) d)" using assms(1) finite_feed_keys by (simp add: feed_ok_def)
  then have mem: "k \<in> feed_keys (rd_sid rd) d" if "k \<in> set ?ks" for k using that by simp
  note item = feed_item_ok [OF assms(1) mem]
  have probed: "List.map_filter (feed_row_to_item rd) (map (feed_out (rd_sid rd) d) (take m ?ks)) =
      map (read_feed rd d) (take m ?ks)" for m
  proof -
    have "List.map_filter (feed_row_to_item rd) (map (feed_out (rd_sid rd) d) (take m ?ks)) =
        List.map_filter (feed_row_to_item rd \<circ> feed_out (rd_sid rd) d) (take m ?ks)"
      by (simp add: List.map_filter_def filter_map comp_def)
    also have "\<dots> = map (read_feed rd d) (take m ?ks)"
      using item by (intro map_filter_total) (auto dest: in_set_takeD)
    finally show ?thesis .
  qed
  have tok: "map_option (\<lambda>item. show_ats_feed_cursor (AtsFeedCursor (fi_block_number item) (fi_ats_id item) (fi_version_index item)))
      (last_opt (map (read_feed rd d) (take m ?ks))) = map_option feed_token (last_opt (take m ?ks))" for m
  proof (cases "take m ?ks = []")
    case False
    then have "last (take m ?ks) \<in> set ?ks" by (meson in_set_takeD last_in_set)
    from item [OF this] False show ?thesis by (simp add: last_opt_def last_map)
  qed (simp add: last_opt_def)
  show ?thesis
    using probed [of "Suc (unat n)"] probed [of "unat n"] tok [of "unat n"] assms(2,3)
    by (cases "unat n < length ?ks")
      (simp_all add: list_ats_feed_page_def run_query_def page_of_def same_page_def Let_def take_map min_def)
qed

interpretation feed: paged_query
  "\<lambda>d req. list_ats_feed_page (\<lambda>_. None) rd req d" "feed_ok (rd_sid rd)" "\<lambda>d. desc_keys (feed_keys (rd_sid rd) d)"
  "\<lambda>k. k" "read_feed rd" feed_token for rd
proof
  fix d and n :: u32 and r y
  let ?K = "feed_keys (rd_sid rd) d"
  show "sorted_wrt (\<lambda>x y. y < x) (desc_keys ?K)" by (rule sorted_desc_keys)
  assume g: "feed_ok (rd_sid rd) d" and n: "0 < unat n" "unat n < 2 ^ 32 - 1"
  then have fin: "finite ?K" by (simp add: feed_ok_def finite_feed_keys)
  have n0: "n \<noteq> 0" using n by auto
  show "\<exists>p. list_ats_feed_page (\<lambda>_. None) rd \<lparr> pr_count = n, pr_cursor = None \<rparr> d = Inr p \<and>
      same_page p (page_of (read_feed rd d) feed_token (unat n) (desc_keys ?K))"
    using list_feed_page_eq [OF g n0, of None None] by (simp add: parse_cursor_def)
  assume "r \<in> set (desc_keys ?K)" "y \<in> set (desc_keys ?K)" "y < r"
  then have "r \<in> ?K" using fin by simp
  then have "0 \<le> fst r \<and> fst r < 2 ^ 63 \<and> 0 \<le> fst (snd r) \<and> fst (snd r) < 2 ^ 32 \<and> 0 \<le> snd (snd r) \<and> snd (snd r) < 2 ^ 31"
    using g unfolding feed_ok_def by fastforce
  then have r: "(sint (word_of_int (fst r) :: u64), uint (word_of_int (fst (snd r)) :: u32), sint (word_of_int (snd (snd r)) :: u32)) = r"
    using sint_word_of_int_small [of "fst r"] by (simp add: int_word_sint mod_pos_pos_trivial uint_word_of_int prod_eq_iff)
  show "\<exists>p. list_ats_feed_page (\<lambda>_. None) rd \<lparr> pr_count = n, pr_cursor = Some (feed_token r) \<rparr> d = Inr p \<and>
      same_page p (page_of (read_feed rd d) feed_token (unat n) (filter (\<lambda>x. x < r) (desc_keys ?K)))"
    using list_feed_page_eq [OF g n0, of "Some (feed_token r)"] r
    by (simp add: feed_token_def ats_feed_codec.parse_cursor_shw desc_keys_filter [OF fin])
qed

section \<open>Properties\<close>

text \<open>C16: The ATS lists are complete. Following \<^verbatim>\<open>next_cursor\<close> yields every stored ATS, and in the
  list of an owner every ATS of that owner, newest first, each once; and each record of a page, whose
  versions the bulk query fills in, is the one that the single read returns.\<close>

theorem ats_pages_complete:
  assumes "ats_ok (rd_sid rd) d" and "parse_id address = Some owner" and "0 < unat n" and "unat n < 2 ^ 32 - 1"
  shows "follow (\<lambda>req. list_ats_page (\<lambda>_. None) rd req d) n (Suc (card (ats_ids (rd_sid rd) d))) None =
      Some (map (read_ats rd d) (desc_keys (ats_ids (rd_sid rd) d))) \<and>
    follow (\<lambda>req. list_account_ats_page parse_id (\<lambda>_. None) rd address req d) n
      (Suc (card (owned_ids (rd_sid rd) owner d))) None =
      Some (map (read_ats rd d) (desc_keys (owned_ids (rd_sid rd) owner d))) \<and>
    (\<forall>i\<in>ats_ids (rd_sid rd) d. ats_by_id (\<lambda>_. None) rd (word_of_int i) d = Inr (Some (read_ats rd d i)))"
proof -
  have "uint (word_of_int i :: u32) = i" if "i \<in> ats_ids (rd_sid rd) d" for i
    using assms(1) that by (simp add: ats_ok_def uint_word_of_int)
  then show ?thesis
    using ats_list.follow_complete [OF assms(1,3,4)] 
      owner_list.follow_complete [where parse_id = parse_id and address = address, OF conjI [OF assms(1,2)] assms(3,4)]
    by (simp add: desc_keys_def ats_by_id_eq)
qed

text \<open>C17: The version feed is complete. Following \<^verbatim>\<open>next_cursor\<close> yields every version of every stored
  ATS, the newest block first, each once.\<close>

theorem ats_feed_complete:
  assumes "feed_ok (rd_sid rd) d" and "0 < unat n" and "unat n < 2 ^ 32 - 1"
  shows "follow (\<lambda>req. list_ats_feed_page (\<lambda>_. None) rd req d) n (Suc (card (feed_keys (rd_sid rd) d))) None =
    Some (map (read_feed rd d) (desc_keys (feed_keys (rd_sid rd) d)))"
  using feed.follow_complete [OF assms] by (simp add: desc_keys_def)

text \<open>Two ATS of one owner; the older one has the newer version.\<close>

definition example_registry_db :: "int \<Rightarrow> int \<Rightarrow> registry_db" where
  "example_registry_db b n = \<lparr> kr_owner = replicate 32 7, kr_created_block = b, kr_created_ext_idx = 1, kr_version_count = n \<rparr>"

definition example_version_db :: "int \<Rightarrow> version_db" where
  "example_version_db b = \<lparr> kv_block_num = b, kv_ext_idx = 1, kv_commitment = [], kv_protocol_version = 1 \<rparr>"

definition example_ats_db :: db where
  "example_ats_db = empty_db\<lparr> t_registry := [(1, 15) \<mapsto> example_registry_db 5 2, (1, 16) \<mapsto> example_registry_db 6 1],
     t_versions := [(1, 15, 0) \<mapsto> example_version_db 5, (1, 16, 0) \<mapsto> example_version_db 6, (1, 15, 1) \<mapsto> example_version_db 8] \<rparr>"

lemma example_ats_ids: "ats_ids 1 example_ats_db = {15, 16}"
  by (auto simp: ats_ids_def example_ats_db_def)

lemma example_owned_ids: "owned_ids 1 (replicate 32 7) example_ats_db = {15, 16}"
  unfolding owned_ids_def example_ats_ids by (auto simp: ats_row_def) (simp_all add: example_ats_db_def example_registry_db_def)

lemma example_feed_keys: "feed_keys 1 example_ats_db = {(5, 15, 0), (6, 16, 0), (8, 15, 1)}"
  by (auto simp: feed_keys_def example_ats_ids) (auto simp: example_ats_db_def example_version_db_def split: if_splits)

lemma read_ats_fields:
  "ar_ats_id (read_ats rd d i) = ats_id_u32 i"
  "ar_version_count (read_ats rd d i) = word_of_int (max (kr_version_count (ats_row (rd_sid rd) d i)) 0)"
  by (simp_all add: read_ats_def registry_to_record_def registry_out_def Let_def)

lemma read_feed_fields:
  assumes "length (kr_owner (ats_row (rd_sid rd) d (fst (snd k)))) = 32"
  shows "fi_ats_id (read_feed rd d k) = ats_id_u32 (fst (snd k))"
    and "fi_is_latest (read_feed rd d k) \<longleftrightarrow>
      word_of_int (max (snd (snd k)) 0) + 1 = (word_of_int (max (kr_version_count (ats_row (rd_sid rd) d (fst (snd k)))) 0) :: u32)"
  using assms by (simp_all add: read_feed_def feed_row_to_item_def feed_out_def version_at_def Let_def rd_enc_def)

lemma example_ats_row: "ats_row 1 example_ats_db 15 = example_registry_db 5 2" "ats_row 1 example_ats_db 16 = example_registry_db 6 1"
  by (simp_all add: ats_row_def example_ats_db_def)

lemma ats_pages_complete_witness:
  "\<exists>items. follow (\<lambda>req. list_ats_page (\<lambda>_. None) example_reader req example_ats_db) 1 3 None = Some items \<and>
     map ar_ats_id items = [16, 15] \<and> map ar_version_count items = [1, 2]"
proof -
  have sid: "rd_sid example_reader = 1" by (simp add: example_reader_def)
  have ok: "ats_ok 1 example_ats_db" unfolding ats_ok_def example_ats_ids by (simp add: example_ats_db_def empty_db_def)
  have three: "Suc (card {15, 16 :: int}) = 3" by simp
  have desc: "desc_keys {15, 16 :: int} = [16, 15]" by (simp add: desc_keys_def)
  have "0 < unat (1 :: u32)" "unat (1 :: u32) < 2 ^ 32 - 1" by simp_all
  then have f: "follow (\<lambda>req. list_ats_page (\<lambda>_. None) example_reader req example_ats_db) 1 3 None =
      Some (map (read_ats example_reader example_ats_db) [16, 15])"
    using ats_pages_complete [of example_reader, unfolded sid, OF ok, of "\<lambda>_. Some (replicate 32 7)" "[]" _ 1]
    unfolding example_ats_ids three desc by blast
  have g: "map ar_ats_id (map (read_ats example_reader example_ats_db) [16, 15]) = [16, 15] \<and>
      map ar_version_count (map (read_ats example_reader example_ats_db) [16, 15]) = [1, 2]"
    by (simp add: read_ats_fields sid example_ats_row ats_id_u32_def) (simp add: example_registry_db_def)
  show ?thesis by (intro exI conjI) (rule f, rule conjunct1 [OF g], rule conjunct2 [OF g])
qed

text \<open>The newer version of the older ATS comes first.\<close>

lemma ats_feed_complete_witness:
  "\<exists>items. follow (\<lambda>req. list_ats_feed_page (\<lambda>_. None) example_reader req example_ats_db) 2 4 None = Some items \<and>
     map fi_ats_id items = [15, 16, 15] \<and> map fi_is_latest items = [True, True, False]"
proof -
  have sid: "rd_sid example_reader = 1" by (simp add: example_reader_def)
  have ok: "feed_ok 1 example_ats_db" unfolding feed_ok_def example_feed_keys
    by (simp add: example_ats_row example_registry_db_def) (simp add: example_ats_db_def empty_db_def)
  have four: "Suc (card {(5, 15, 0), (6, 16, 0), (8 :: int, 15 :: int, 1 :: int)}) = 4" by simp
  have desc: "desc_keys {(5, 15, 0), (6, 16, 0), (8 :: int, 15 :: int, 1 :: int)} = [(8, 15, 1), (6, 16, 0), (5, 15, 0)]"
    by (simp add: desc_keys_def)
  have "0 < unat (2 :: u32)" "unat (2 :: u32) < 2 ^ 32 - 1" by simp_all
  then have f: "follow (\<lambda>req. list_ats_feed_page (\<lambda>_. None) example_reader req example_ats_db) 2 4 None =
      Some (map (read_feed example_reader example_ats_db) [(8, 15, 1), (6, 16, 0), (5, 15, 0)])"
    using ats_feed_complete [of example_reader, unfolded sid, OF ok, of 2] unfolding example_feed_keys four desc by blast
  have g: "map fi_ats_id (map (read_feed example_reader example_ats_db) [(8, 15, 1), (6, 16, 0), (5, 15, 0)]) = [15, 16, 15] \<and>
      map fi_is_latest (map (read_feed example_reader example_ats_db) [(8, 15, 1), (6, 16, 0), (5, 15, 0)]) = [True, True, False]"
    by (simp add: read_feed_fields sid example_ats_row ats_id_u32_def example_registry_db_def)
  show ?thesis by (intro exI conjI) (rule f, rule conjunct1 [OF g], rule conjunct2 [OF g])
qed

end
