(* ===== verification/AtsLifecycle.thy ===== *)
theory AtsLifecycle
  imports AtsQueries SinkFacts
begin

text \<open>
  From the events of the chain to the ATS records the API shows. The abstract specification is the
  life of an ATS on the chain as the events tell it: created once under a fresh identifier, updated
  version by version, revoked for good. The projection of a block reorders its events into four
  groups of statements; the simulation shows that the tables follow the chain all the same, and the
  reads show what the chain has.
\<close>

declare sint_inj [simp]

section \<open>The chain\<close>

record chain_ats =
  ca_owner :: bytes
  ca_created :: "u64 \<times> u32"
  ca_versions :: "(u64 \<times> u32 \<times> bytes \<times> u8) list"

text \<open>The ATS alive, and every identifier ever given. A step that the chain cannot make is \<^verbatim>\<open>None\<close>.\<close>

type_synonym pallet = "(u64 \<rightharpoonup> chain_ats) \<times> u64 set"

fun pallet_step :: "u64 \<Rightarrow> u32 \<times> decoded_ats_event \<Rightarrow> pallet \<Rightarrow> pallet option" where
  "pallet_step b (x, AtsCreated i own c p) (live, used) =
     (if i \<in> used then None
      else Some (live(i \<mapsto> \<lparr> ca_owner = own, ca_created = (b, x), ca_versions = [(b, x, c, p)] \<rparr>), insert i used))"
| "pallet_step b (x, AtsUpdated i v c p) (live, used) = (case live i of
       None \<Rightarrow> None
     | Some r \<Rightarrow> if unat v = length (ca_versions r) \<and> unat v < 2 ^ 31 - 1
         then Some (live(i \<mapsto> r\<lparr> ca_versions := ca_versions r @ [(b, x, c, p)] \<rparr>), used) else None)"
| "pallet_step b (x, AtsRevoked i) (live, used) =
     (if live i = None then None else Some (live(i := None), used))"

fun pallet_run :: "u64 \<Rightarrow> (u32 \<times> decoded_ats_event) list \<Rightarrow> pallet \<Rightarrow> pallet option" where
  "pallet_run b [] s = Some s"
| "pallet_run b (e # es) s = Option.bind (pallet_step b e s) (pallet_run b es)"

text \<open>The blocks one after the other, on the chain and in the tables.\<close>

fun chain_run :: "(u64 \<times> (u32 \<times> decoded_ats_event) list) list \<Rightarrow> pallet \<Rightarrow> pallet option" where
  "chain_run [] s = Some s"
| "chain_run ((b, es) # bs) s = Option.bind (pallet_run b es s) (chain_run bs)"

fun index_ats :: "int \<Rightarrow> (u64 \<times> (u32 \<times> decoded_ats_event) list) list \<Rightarrow> db \<Rightarrow> db data_result" where
  "index_ats sid [] d = Inr d"
| "index_ats sid ((b, es) # bs) d = bind_r (apply_ats no_faults sid (ats_project es [] b) d) (index_ats sid bs)"

lemma pallet_run_snoc: "pallet_run b (es @ [e]) s = Option.bind (pallet_run b es s) (pallet_step b e)"
  by (induction es arbitrary: s) (auto split: Option.bind_split)

section \<open>The simulation relation\<close>

definition registry_of :: "chain_ats \<Rightarrow> registry_db" where
  "registry_of r = \<lparr> kr_owner = ca_owner r, kr_created_block = sint (fst (ca_created r)),
     kr_created_ext_idx = sint (snd (ca_created r)), kr_version_count = int (length (ca_versions r)) \<rparr>"

definition version_of :: "u64 \<times> u32 \<times> bytes \<times> u8 \<Rightarrow> version_db" where
  "version_of w = (case w of (b, x, c, p) \<Rightarrow> \<lparr> kv_block_num = sint b, kv_ext_idx = sint x, kv_commitment = c,
     kv_protocol_version = uint p \<rparr>)"

definition versions_map :: "chain_ats \<Rightarrow> int \<rightharpoonup> version_db" where
  "versions_map r v = (if 0 \<le> v \<and> nat v < length (ca_versions r) then Some (version_of (ca_versions r ! nat v)) else None)"

text \<open>The tables hold a registry row and the versions of every ATS alive, and nothing of any other.\<close>

definition tracks :: "int \<Rightarrow> (int \<times> int \<rightharpoonup> registry_db) \<Rightarrow> (int \<times> int \<times> int \<rightharpoonup> version_db) \<Rightarrow> (u64 \<rightharpoonup> chain_ats) \<Rightarrow> bool" where
  "tracks sid tr tv live \<longleftrightarrow> (\<forall>i. tr (sid, sint i) = map_option registry_of (live i) \<and>
     (\<forall>v. tv (sid, sint i, v) = Option.bind (live i) (\<lambda>r. versions_map r v)))"

section \<open>The four groups of statements\<close>

lemma exec_each_no_faults: "exec_each no_faults st on_err f i rs d = Inr (foldl (\<lambda>d r. f r d) d rs)"
  by (induction rs arbitrary: i d) simp_all

definition after_inserts :: "int \<Rightarrow> u64 \<Rightarrow> (u32 \<times> decoded_ats_event) list \<Rightarrow> db \<Rightarrow> db" where
  "after_inserts sid b es d = d\<lparr>
     t_registry := map_of (map (\<lambda>r. ((sid, sint (rg_id r)), registry_db_of r)) (List.map_filter (created_row b) es)) ++ t_registry d,
     t_versions := map_of (map (\<lambda>r. ((sid, sint (vr_ats_id r), sint (vr_version r)), version_db_of r))
       (List.map_filter (version_row b) es)) ++ t_versions d \<rparr>"

definition after_bumps :: "int \<Rightarrow> u64 \<Rightarrow> (u32 \<times> decoded_ats_event) list \<Rightarrow> db \<Rightarrow> db" where
  "after_bumps sid b es d = foldl (\<lambda>d u. bump_version_count sid u d) (after_inserts sid b es d) (List.map_filter bump_row es)"

lemma bumps_frame:
  "t_versions (foldl (\<lambda>d u. bump_version_count sid u d) d us) = t_versions d"
  "dom (t_registry (foldl (\<lambda>d u. bump_version_count sid u d) d us)) = dom (t_registry d)"
  by (induction us arbitrary: d) (auto simp: bump_version_count_def split: option.splits)

lemma revokes_eq:
  "t_registry (foldl (\<lambda>d i. revoke_ats sid i d) d rs) (s, a) = (if s = sid \<and> a \<in> sint ` set rs then None else t_registry d (s, a))"
  "t_versions (foldl (\<lambda>d i. revoke_ats sid i d) d rs) (s, a, v) = (if s = sid \<and> a \<in> sint ` set rs then None else t_versions d (s, a, v))"
  by (induction rs arbitrary: d) (auto simp: revoke_ats_def)

text \<open>The insert of the versions finds its registry rows, so the block is applied.\<close>

lemma apply_ats_no_faults:
  assumes "\<forall>r\<in>set (List.map_filter (version_row b) es). t_registry (after_inserts sid b es d) (sid, sint (vr_ats_id r)) \<noteq> None"
  shows "apply_ats no_faults sid (ats_project es xs b) d =
    Inr (foldl (\<lambda>d i. revoke_ats sid i d) (after_bumps sid b es d) (List.map_filter revoked_id es))"
proof -
  let ?cs = "List.map_filter (created_row b) es" and ?vs = "List.map_filter (version_row b) es"
  define d1 where "d1 = d\<lparr> t_registry := map_of (map (\<lambda>r. ((sid, sint (rg_id r)), registry_db_of r)) ?cs) ++ t_registry d \<rparr>"
  have 1: "(if ?cs = [] then Inr d else run_stmt no_faults StRegistry on_err (registry_stmt sid ?cs d)) = Inr d1" for on_err
    using insert_do_nothing_ok [of ?cs "\<lambda>_. True" "\<lambda>r. (sid, sint (rg_id r))" registry_db_of "t_registry d"]
    by (simp add: registry_stmt_def d1_def)
  have fk: "\<forall>r\<in>set ?vs. t_registry d1 (sid, sint (vr_ats_id r)) \<noteq> None"
    using assms by (simp add: after_inserts_def d1_def)
  have 2: "(if ?vs = [] then Inr d1 else run_stmt no_faults StVersions on_err (versions_stmt sid ?vs d1)) =
      Inr (after_inserts sid b es d)" for on_err
    using insert_do_nothing_ok [OF fk, of "\<lambda>r. (sid, sint (vr_ats_id r), sint (vr_version r))" version_db_of "t_versions d1"]
    by (simp add: versions_stmt_def after_inserts_def d1_def)
  show ?thesis
    unfolding apply_ats_def ats_project_eq ats_ops.select_convs 1 bind_r.simps 2 exec_each_no_faults after_bumps_def ..
qed

section \<open>The simulation\<close>

text \<open>What holds after a part of a block: the identifiers of the groups were given by the chain, the
  version rows have their registry row, and an ATS alive is in the tables unless it is revoked at the
  end of the block.\<close>

definition midway :: "int \<Rightarrow> u64 \<Rightarrow> (u32 \<times> decoded_ats_event) list \<Rightarrow> db \<Rightarrow> pallet \<Rightarrow> bool" where
  "midway sid b es d s \<longleftrightarrow> (case s of (live, used) \<Rightarrow>
     dom live \<subseteq> used \<and> set (List.map_filter revoked_id es) \<subseteq> used \<and>
     vb_ats_id ` set (List.map_filter bump_row es) \<subseteq> used \<and>
     (\<forall>r\<in>set (List.map_filter (version_row b) es). t_registry (after_inserts sid b es d) (sid, sint (vr_ats_id r)) \<noteq> None) \<and>
     (\<forall>i. case live i of
        Some r \<Rightarrow> i \<notin> set (List.map_filter revoked_id es) \<and> ca_versions r \<noteq> [] \<and>
          t_registry (after_bumps sid b es d) (sid, sint i) = Some (registry_of r) \<and>
          (\<forall>v. t_versions (after_inserts sid b es d) (sid, sint i, v) = versions_map r v)
      | None \<Rightarrow> i \<in> set (List.map_filter revoked_id es) \<or>
          (t_registry (after_inserts sid b es d) (sid, sint i) = None \<and>
           (\<forall>v. t_versions (after_inserts sid b es d) (sid, sint i, v) = None))))"

lemma map_filter_snoc: "List.map_filter f (xs @ [x]) = List.map_filter f xs @ (case f x of None \<Rightarrow> [] | Some y \<Rightarrow> [y])"
  by (simp add: List.map_filter_def split: option.splits)

definition bump_all :: "ats_version_count_bump list \<Rightarrow> registry_db \<Rightarrow> registry_db" where
  "bump_all us r = r\<lparr> kr_version_count := foldl max (kr_version_count r) (map (\<lambda>u. sint (vb_version_count u)) us) \<rparr>"

lemma bump_all_snoc: "bump_all (us @ [u]) r =
    (bump_all us r)\<lparr> kr_version_count := max (kr_version_count (bump_all us r)) (sint (vb_version_count u)) \<rparr>"
  by (simp add: bump_all_def)

lemma bumps_at:
  "t_registry (foldl (\<lambda>d u. bump_version_count sid u d) d us) (sid, sint i) =
     map_option (bump_all (filter (\<lambda>u. vb_ats_id u = i) us)) (t_registry d (sid, sint i))"
proof (induction us arbitrary: d)
  case Nil
  then show ?case by (cases "t_registry d (sid, sint i)") (simp_all add: bump_all_def)
next
  case (Cons u us)
  then show ?case
    by (cases "t_registry d (sid, sint i)"; cases "t_registry d (sid, sint (vb_ats_id u))")
      (auto simp: bump_version_count_def bump_all_def)
qed

lemma after_bumps_at:
  "t_registry (after_bumps sid b es d) (sid, sint i) =
     map_option (bump_all (filter (\<lambda>u. vb_ats_id u = i) (List.map_filter bump_row es))) (t_registry (after_inserts sid b es d) (sid, sint i))"
  by (simp add: after_bumps_def bumps_at)

text \<open>What one more event adds to the inserts.\<close>

lemma after_inserts_snoc:
  "after_inserts sid b (es @ [(x, AtsCreated i own c p)]) d = (let d0 = after_inserts sid b es d in
     d0\<lparr> t_registry := [(sid, sint i) \<mapsto> registry_of \<lparr> ca_owner = own, ca_created = (b, x), ca_versions = [(b, x, c, p)] \<rparr>] ++ t_registry d0,
         t_versions := [(sid, sint i, 0) \<mapsto> version_of (b, x, c, p)] ++ t_versions d0 \<rparr>)"
  "after_inserts sid b (es @ [(x, AtsUpdated i v c p)]) d = (let d0 = after_inserts sid b es d in
     d0\<lparr> t_versions := [(sid, sint i, sint v) \<mapsto> version_of (b, x, c, p)] ++ t_versions d0 \<rparr>)"
  "after_inserts sid b (es @ [(x, AtsRevoked i)]) d = after_inserts sid b es d"
  by (simp_all add: after_inserts_def map_filter_snoc registry_db_of_def registry_of_def version_db_of_def version_of_def Let_def)

lemma versions_map_snoc:
  "versions_map (r\<lparr> ca_versions := ca_versions r @ [w] \<rparr>) v =
     (if v = int (length (ca_versions r)) then Some (version_of w) else versions_map r v)"
  by (auto simp: versions_map_def nth_append)

lemma midway_known:
  assumes "midway sid b es d (live, used)"
  shows "dom live \<subseteq> used" and "set (List.map_filter revoked_id es) \<subseteq> used"
    and "vb_ats_id ` set (List.map_filter bump_row es) \<subseteq> used"
    and "r \<in> set (List.map_filter (version_row b) es) \<Longrightarrow> t_registry (after_inserts sid b es d) (sid, sint (vr_ats_id r)) \<noteq> None"
  using assms by (auto simp: midway_def)

lemma midway_alive:
  assumes "midway sid b es d (live, used)" and "live i = Some r"
  shows "i \<notin> set (List.map_filter revoked_id es)" and "ca_versions r \<noteq> []"
    and "t_registry (after_bumps sid b es d) (sid, sint i) = Some (registry_of r)"
    and "t_versions (after_inserts sid b es d) (sid, sint i, v) = versions_map r v"
  using assms(1)[unfolded midway_def prod.case, THEN conjunct2, THEN conjunct2, THEN conjunct2, THEN conjunct2, THEN spec, of i] assms(2)
  by simp_all

lemma midway_dead:
  assumes "midway sid b es d (live, used)" and "live i = None" and "i \<notin> set (List.map_filter revoked_id es)"
  shows "t_registry (after_inserts sid b es d) (sid, sint i) = None" and "t_versions (after_inserts sid b es d) (sid, sint i, v) = None"
  using assms(1)[unfolded midway_def prod.case, THEN conjunct2, THEN conjunct2, THEN conjunct2, THEN conjunct2, THEN spec, of i] assms(2,3)
  by simp_all

lemma midwayI:
  assumes "dom live \<subseteq> used" and "set (List.map_filter revoked_id es) \<subseteq> used"
    and "vb_ats_id ` set (List.map_filter bump_row es) \<subseteq> used"
    and "\<And>r. r \<in> set (List.map_filter (version_row b) es) \<Longrightarrow> t_registry (after_inserts sid b es d) (sid, sint (vr_ats_id r)) \<noteq> None"
    and "\<And>i r. live i = Some r \<Longrightarrow> i \<notin> set (List.map_filter revoked_id es) \<and> ca_versions r \<noteq> [] \<and>
          t_registry (after_bumps sid b es d) (sid, sint i) = Some (registry_of r) \<and>
          (\<forall>v. t_versions (after_inserts sid b es d) (sid, sint i, v) = versions_map r v)"
    and "\<And>i. live i = None \<Longrightarrow> i \<notin> set (List.map_filter revoked_id es) \<Longrightarrow>
          t_registry (after_inserts sid b es d) (sid, sint i) = None \<and>
           (\<forall>v. t_versions (after_inserts sid b es d) (sid, sint i, v) = None)"
  shows "midway sid b es d (live, used)"
proof -
  have "case live i of
        Some r \<Rightarrow> i \<notin> set (List.map_filter revoked_id es) \<and> ca_versions r \<noteq> [] \<and>
          t_registry (after_bumps sid b es d) (sid, sint i) = Some (registry_of r) \<and>
          (\<forall>v. t_versions (after_inserts sid b es d) (sid, sint i, v) = versions_map r v)
      | None \<Rightarrow> i \<in> set (List.map_filter revoked_id es) \<or>
          (t_registry (after_inserts sid b es d) (sid, sint i) = None \<and>
           (\<forall>v. t_versions (after_inserts sid b es d) (sid, sint i, v) = None))" for i
    using assms(5) [of i] assms(6) [of i] by (cases "live i") (simp, blast, simp)
  then show ?thesis using assms(1-4) unfolding midway_def by blast
qed

lemma midway_created:
  assumes "midway sid b es d (live, used)" and "i \<notin> used"
  shows "midway sid b (es @ [(x, AtsCreated i own c p)]) d
    (live(i \<mapsto> \<lparr> ca_owner = own, ca_created = (b, x), ca_versions = [(b, x, c, p)] \<rparr>), insert i used)"
proof (rule midwayI)
  let ?r = "\<lparr> ca_owner = own, ca_created = (b, x), ca_versions = [(b, x, c, p)] \<rparr>"
  let ?d0 = "after_inserts sid b es d" and ?es = "es @ [(x, AtsCreated i own c p)]"
  note known = midway_known [OF assms(1)]
  have fresh: "live i = None" "i \<notin> set (List.map_filter revoked_id es)" "i \<notin> vb_ats_id ` set (List.map_filter bump_row es)"
    using known(1-3) assms(2) by auto
  then have none: "t_registry ?d0 (sid, sint i) = None" "\<And>v. t_versions ?d0 (sid, sint i, v) = None"
    using midway_dead [OF assms(1)] by blast+
  have no_bumps: "filter (\<lambda>u. vb_ats_id u = i) (List.map_filter bump_row es) = []"
    using fresh(3) by (auto simp: filter_empty_conv)
  have reg: "t_registry (after_inserts sid b ?es d) (sid, sint j) =
      (if j = i then Some (registry_of ?r) else t_registry ?d0 (sid, sint j))" for j
    using none(1) by (simp add: after_inserts_snoc Let_def map_add_def split: option.splits)
  have ver: "t_versions (after_inserts sid b ?es d) (sid, sint j, v) =
      (if j = i then versions_map ?r v else t_versions ?d0 (sid, sint j, v))" for j v
    using none(2) by (auto simp: after_inserts_snoc Let_def map_add_def versions_map_def split: option.splits)
  have bump: "t_registry (after_bumps sid b ?es d) (sid, sint j) =
      (if j = i then Some (registry_of ?r) else t_registry (after_bumps sid b es d) (sid, sint j))" for j
    using no_bumps by (simp add: after_bumps_at reg map_filter_snoc bump_all_def)
  show "dom (live(i \<mapsto> ?r)) \<subseteq> insert i used" "set (List.map_filter revoked_id ?es) \<subseteq> insert i used"
    "vb_ats_id ` set (List.map_filter bump_row ?es) \<subseteq> insert i used"
    using known(1-3) by (auto simp: map_filter_snoc)
  show "t_registry (after_inserts sid b ?es d) (sid, sint (vr_ats_id v)) \<noteq> None"
    if "v \<in> set (List.map_filter (version_row b) ?es)" for v
    using that known(4) by (auto simp: map_filter_snoc reg)
  show "j \<notin> set (List.map_filter revoked_id ?es) \<and> ca_versions r \<noteq> [] \<and>
      t_registry (after_bumps sid b ?es d) (sid, sint j) = Some (registry_of r) \<and>
      (\<forall>v. t_versions (after_inserts sid b ?es d) (sid, sint j, v) = versions_map r v)" if "(live(i \<mapsto> ?r)) j = Some r" for j r
    using that fresh(2) midway_alive [OF assms(1), of j r] by (auto simp: map_filter_snoc ver bump split: if_splits)
  show "t_registry (after_inserts sid b ?es d) (sid, sint j) = None \<and>
      (\<forall>v. t_versions (after_inserts sid b ?es d) (sid, sint j, v) = None)"
    if "(live(i \<mapsto> ?r)) j = None" "j \<notin> set (List.map_filter revoked_id ?es)" for j
    using that midway_dead [OF assms(1), of j] by (auto simp: map_filter_snoc reg ver split: if_splits)
qed

lemma midway_updated:
  assumes "midway sid b es d (live, used)" and "live i = Some r" and "unat w = length (ca_versions r)" and "unat w < 2 ^ 31 - 1"
  shows "midway sid b (es @ [(x, AtsUpdated i w c p)]) d (live(i \<mapsto> r\<lparr> ca_versions := ca_versions r @ [(b, x, c, p)] \<rparr>), used)"
proof (rule midwayI)
  let ?r = "r\<lparr> ca_versions := ca_versions r @ [(b, x, c, p)] \<rparr>"
  let ?d0 = "after_inserts sid b es d" and ?es = "es @ [(x, AtsUpdated i w c p)]"
  note known = midway_known [OF assms(1)] and alive = midway_alive [OF assms(1)]
  have w: "sint w = int (length (ca_versions r))" using sint_u32 [of w] assms(3,4) by simp
  have w1: "sint (sat_add w 1) = int (Suc (length (ca_versions r)))"
    using sint_u32 [of "sat_add w 1"] assms(3,4) by (simp add: unat_sat_add)
  have i: "i \<in> used" using known(1) assms(2) by blast
  have reg: "t_registry (after_inserts sid b ?es d) = t_registry ?d0" by (simp add: after_inserts_snoc Let_def)
  have ver: "t_versions (after_inserts sid b ?es d) (sid, sint j, v) =
      (if j = i then versions_map ?r v else t_versions ?d0 (sid, sint j, v))" for j v
    using alive(4) [OF assms(2)] unfolding versions_map_snoc
    by (auto simp: after_inserts_snoc Let_def map_add_def w versions_map_def split: option.splits)
  have bump: "t_registry (after_bumps sid b ?es d) (sid, sint j) =
      (if j = i then Some (registry_of ?r) else t_registry (after_bumps sid b es d) (sid, sint j))" for j
  proof (cases "j = i")
    case True
    then show ?thesis using alive(3) [OF assms(2)]
      by (auto simp: after_bumps_at reg map_filter_snoc bump_all_snoc w1) (simp add: registry_of_def)
  qed (simp add: after_bumps_at reg map_filter_snoc)
  show "dom (live(i \<mapsto> ?r)) \<subseteq> used" "set (List.map_filter revoked_id ?es) \<subseteq> used"
    "vb_ats_id ` set (List.map_filter bump_row ?es) \<subseteq> used"
    using known(1-3) i by (auto simp: map_filter_snoc)
  show "t_registry (after_inserts sid b ?es d) (sid, sint (vr_ats_id v)) \<noteq> None"
    if "v \<in> set (List.map_filter (version_row b) ?es)" for v
    using that known(4) alive(3) [OF assms(2)] by (auto simp: map_filter_snoc reg after_bumps_at)
  show "j \<notin> set (List.map_filter revoked_id ?es) \<and> ca_versions r' \<noteq> [] \<and>
      t_registry (after_bumps sid b ?es d) (sid, sint j) = Some (registry_of r') \<and>
      (\<forall>v. t_versions (after_inserts sid b ?es d) (sid, sint j, v) = versions_map r' v)" if "(live(i \<mapsto> ?r)) j = Some r'" for j r'
    using that alive [of j r'] alive(1) [OF assms(2)] by (auto simp: map_filter_snoc ver bump split: if_splits)
  show "t_registry (after_inserts sid b ?es d) (sid, sint j) = None \<and>
      (\<forall>v. t_versions (after_inserts sid b ?es d) (sid, sint j, v) = None)"
    if "(live(i \<mapsto> ?r)) j = None" "j \<notin> set (List.map_filter revoked_id ?es)" for j
    using that midway_dead [OF assms(1), of j] by (auto simp: map_filter_snoc reg ver split: if_splits)
qed

lemma midway_revoked:
  assumes "midway sid b es d (live, used)" and "live i = Some r"
  shows "midway sid b (es @ [(x, AtsRevoked i)]) d (live(i := None), used)"
proof (rule midwayI)
  let ?es = "es @ [(x, AtsRevoked i)]"
  note known = midway_known [OF assms(1)] and alive = midway_alive [OF assms(1)]
  have ins: "after_inserts sid b ?es d = after_inserts sid b es d" by (simp add: after_inserts_snoc)
  then have bump: "after_bumps sid b ?es d = after_bumps sid b es d" by (simp add: after_bumps_def map_filter_snoc)
  show "dom (live(i := None)) \<subseteq> used" "set (List.map_filter revoked_id ?es) \<subseteq> used"
    "vb_ats_id ` set (List.map_filter bump_row ?es) \<subseteq> used"
    using known(1-3) assms(2) by (auto simp: map_filter_snoc)
  show "t_registry (after_inserts sid b ?es d) (sid, sint (vr_ats_id v)) \<noteq> None"
    if "v \<in> set (List.map_filter (version_row b) ?es)" for v
    using that known(4) by (simp add: map_filter_snoc ins)
  show "j \<notin> set (List.map_filter revoked_id ?es) \<and> ca_versions r' \<noteq> [] \<and>
      t_registry (after_bumps sid b ?es d) (sid, sint j) = Some (registry_of r') \<and>
      (\<forall>v. t_versions (after_inserts sid b ?es d) (sid, sint j, v) = versions_map r' v)" if "(live(i := None)) j = Some r'" for j r'
    using that alive [of j r'] by (auto simp: map_filter_snoc ins bump split: if_splits)
  show "t_registry (after_inserts sid b ?es d) (sid, sint j) = None \<and>
      (\<forall>v. t_versions (after_inserts sid b ?es d) (sid, sint j, v) = None)"
    if "(live(i := None)) j = None" "j \<notin> set (List.map_filter revoked_id ?es)" for j
    using that midway_dead [OF assms(1), of j] by (auto simp: map_filter_snoc ins split: if_splits)
qed

lemma midway_run:
  assumes "midway sid b [] d s" and "pallet_run b es s = Some s'"
  shows "midway sid b es d s'"
  using assms(2)
proof (induction es arbitrary: s' rule: rev_induct)
  case Nil
  then show ?case using assms(1) by simp
next
  case (snoc e es)
  then obtain s1 where s1: "pallet_run b es s = Some s1" "pallet_step b e s1 = Some s'"
    by (auto simp: pallet_run_snoc bind_eq_Some_conv)
  then show ?case using snoc.IH
    by (cases "(b, e, s1)" rule: pallet_step.cases)
      (auto split: option.splits if_splits intro: midway_created midway_updated midway_revoked)
qed

definition known :: "pallet \<Rightarrow> bool" where
  "known s \<longleftrightarrow> dom (fst s) \<subseteq> snd s \<and> (\<forall>r\<in>ran (fst s). ca_versions r \<noteq> [])"

text \<open>One block: the statements of its four groups succeed and the tables follow the chain.\<close>

lemma block_tracks:
  assumes "tracks sid (t_registry d) (t_versions d) (fst s)" and "known s" and "pallet_run b es s = Some s'"
  shows "\<exists>d'. apply_ats no_faults sid (ats_project es xs b) d = Inr d' \<and> tracks sid (t_registry d') (t_versions d') (fst s') \<and> known s'"
proof -
  obtain live used live' used' where s: "s = (live, used)" "s' = (live', used')" by (metis surj_pair)
  have "midway sid b [] d (live, used)"
    using assms(1,2)
    by (intro midwayI) (auto simp: s known_def tracks_def after_bumps_def after_inserts_def List.map_filter_def ran_def)
  then have m: "midway sid b es d (live', used')" using midway_run assms(3) by (simp add: s)
  note known = midway_known [OF m] and alive = midway_alive [OF m] and dead = midway_dead [OF m]
  let ?d' = "foldl (\<lambda>d i. revoke_ats sid i d) (after_bumps sid b es d) (List.map_filter revoked_id es)"
  have vers: "t_versions (after_bumps sid b es d) = t_versions (after_inserts sid b es d)"
    by (simp add: after_bumps_def bumps_frame)
  have gone: "t_registry (after_bumps sid b es d) (sid, sint i) = None" if "live' i = None" "i \<notin> set (List.map_filter revoked_id es)" for i
    using dead [OF that] by (simp add: after_bumps_at)
  have "t_registry ?d' (sid, sint i) = map_option registry_of (live' i) \<and>
      (\<forall>v. t_versions ?d' (sid, sint i, v) = Option.bind (live' i) (\<lambda>r. versions_map r v))" for i
    using alive [of i] dead [of i] gone [of i] by (cases "live' i") (auto simp: revokes_eq vers)
  moreover have "known (live', used')" using known(1) alive(2) by (auto simp: known_def ran_def)
  ultimately show ?thesis using apply_ats_no_faults [of b es sid d xs] known(4) by (auto simp: tracks_def s)
qed

lemma history_tracks:
  "tracks sid (t_registry d) (t_versions d) (fst s) \<Longrightarrow> known s \<Longrightarrow> chain_run hist s = Some s' \<Longrightarrow>
     \<exists>d'. index_ats sid hist d = Inr d' \<and> tracks sid (t_registry d') (t_versions d') (fst s') \<and> known s'"
proof (induction hist arbitrary: d s)
  case (Cons p hist)
  obtain b es where p: "p = (b, es)" by (cases p)
  with Cons.prems obtain s1 where s1: "pallet_run b es s = Some s1" "chain_run hist s1 = Some s'"
    by (auto simp: bind_eq_Some_conv)
  obtain d1 where d1: "apply_ats no_faults sid (ats_project es [] b) d = Inr d1"
    "tracks sid (t_registry d1) (t_versions d1) (fst s1)" "known s1"
    using block_tracks [OF Cons.prems(1,2) s1(1)] by blast
  show ?case using Cons.IH [OF d1(2,3) s1(2)] d1(1) by (simp add: p)
qed auto

section \<open>The reads\<close>

text \<open>The number of versions of an ATS stays below the range of the column.\<close>

definition counts_fit :: "pallet \<Rightarrow> bool" where
  "counts_fit s \<longleftrightarrow> (\<forall>i r. fst s i = Some r \<longrightarrow> length (ca_versions r) < 2 ^ 31)"

lemma pallet_step_fits: "pallet_step b e s = Some s' \<Longrightarrow> counts_fit s \<Longrightarrow> counts_fit s'"
  by (cases "(b, e, s)" rule: pallet_step.cases) (auto simp: counts_fit_def split: option.splits if_splits)

lemma pallet_run_fits: "pallet_run b es s = Some s' \<Longrightarrow> counts_fit s \<Longrightarrow> counts_fit s'"
  by (induction es arbitrary: s) (auto simp: bind_eq_Some_conv intro: pallet_step_fits)

lemma chain_run_fits: "chain_run hist s = Some s' \<Longrightarrow> counts_fit s \<Longrightarrow> counts_fit s'"
proof (induction hist arbitrary: s)
  case (Cons p hist)
  obtain b es where p: "p = (b, es)" by (cases p)
  with Cons.prems(1) obtain s1 where "pallet_run b es s = Some s1" "chain_run hist s1 = Some s'"
    by (auto simp: bind_eq_Some_conv)
  then show ?case using Cons.IH pallet_run_fits Cons.prems(2) by blast
qed simp

text \<open>A record shows an ATS of the chain: its owner, all its versions in order, and one deposit for each.\<close>

definition mirrors :: "reader \<Rightarrow> u32 \<Rightarrow> chain_ats \<Rightarrow> ats_record \<Rightarrow> bool" where
  "mirrors rd i r shown \<longleftrightarrow> ar_ats_id shown = i \<and>
     ar_owner shown = (case rd_enc rd (ca_owner r) of Some s \<Rightarrow> s | None \<Rightarrow> hex_bytes (ca_owner r)) \<and>
     unat (ar_version_count shown) = length (ca_versions r) \<and>
     unat (ar_total_deposit shown) = length (ca_versions r) * unat version_deposit \<and>
     map av_version_index (ar_versions shown) = map word_of_nat [0 ..< length (ca_versions r)] \<and>
     map av_commitment (ar_versions shown) = map (\<lambda>(b, x, c, p). hex_bytes c) (ca_versions r) \<and>
     map av_protocol_version (ar_versions shown) = map (\<lambda>(b, x, c, p). p) (ca_versions r)"

lemma uint_32_column: "uint i = sint (ucast i :: u64)" for i :: u32
proof -
  have "unat i < 2 ^ 32" using unsigned_less [of i, where 'a = nat] by simp
  then have "unat (ucast i :: u64) < 2 ^ 63" by (simp add: unat_wider)
  then show ?thesis using sint_small [of "ucast i"] by (simp add: unat_wider)
qed

lemma versions_sorted:
  assumes "\<And>v. t_versions d (sid, a, v) = versions_map r v"
  shows "sorted_list_of_set {k \<in> version_keys sid d. fst k = a} = map (\<lambda>j. (a, int j)) [0 ..< length (ca_versions r)]"
proof -
  let ?l = "map (\<lambda>j. (a, int j)) [0 ..< length (ca_versions r)]"
  have "{k \<in> version_keys sid d. fst k = a} = set ?l"
  proof (rule set_eqI)
    fix k :: "int \<times> int"
    obtain a' v where k: "k = (a', v)" by (cases k)
    show "k \<in> {k \<in> version_keys sid d. fst k = a} \<longleftrightarrow> k \<in> set ?l"
      using assms[of v] by (auto simp: k version_keys_def domIff versions_map_def image_iff split: if_splits intro!: bexI [of _ "nat v"])
  qed
  moreover have "sorted ?l" "distinct ?l"
    by (auto simp: sorted_iff_nth_mono_less distinct_map inj_on_def)
  then have "sorted_list_of_set (set ?l) = ?l" by (rule sorted_list_of_set.idem_if_sorted_distinct)
  ultimately show ?thesis by (simp only:)
qed

lemma ats_versions_map:
  assumes "\<And>v. t_versions d (rd_sid rd, i, v) = versions_map r v"
  shows "map f (ats_versions_of rd d i) =
    map (\<lambda>j. f (row_to_version rd (version_at (rd_sid rd) d (i, int j)))) [0 ..< length (ca_versions r)]"
  by (simp add: ats_versions_of_def versions_sorted [OF assms])

lemma map_upt_nth: "(\<And>j. j < length xs \<Longrightarrow> f j = g (xs ! j)) \<Longrightarrow> map f [0 ..< length xs] = map g xs"
  by (rule nth_equalityI) simp_all

lemma record_mirrors:
  assumes "tracks (rd_sid rd) (t_registry d) (t_versions d) live" and "live (ucast i) = Some r" and "length (ca_versions r) < 2 ^ 31"
  shows "mirrors rd i r (read_ats rd d (uint i))"
proof -
  let ?n = "length (ca_versions r)"
  have reg: "t_registry d (rd_sid rd, uint i) = Some (registry_of r)"
    and vers: "\<And>v. t_versions d (rd_sid rd, uint i, v) = versions_map r v"
    using assms(1,2) unfolding tracks_def uint_32_column by (metis option.simps(9), metis bind.bind_lunit)
  have "ats_id_u32 (uint i) = i" using unsigned_less [of i, where 'a = int] by (simp add: ats_id_u32_def)
  moreover have cnt: "unat (word_of_int (max (int ?n) 0) :: u32) = ?n"
    using assms(3) by (simp add: unat_word_of_int_32 max_def)
  moreover have "unat (sat_mul (ucast (word_of_int (max (int ?n) 0) :: u32)) version_deposit) = ?n * unat version_deposit"
    using assms(3) cnt by (simp add: unat_sat_mul unat_wider version_deposit_def)
  moreover have row: "av_version_index (row_to_version rd (version_at (rd_sid rd) d (uint i, int j))) = word_of_nat j \<and>
      av_commitment (row_to_version rd (version_at (rd_sid rd) d (uint i, int j))) = (\<lambda>(b, x, c, p). hex_bytes c) (ca_versions r ! j) \<and>
      av_protocol_version (row_to_version rd (version_at (rd_sid rd) d (uint i, int j))) = (\<lambda>(b, x, c, p). p) (ca_versions r ! j)"
    if "j < ?n" for j
    using that vers [of "int j"]
    by (simp add: version_at_def versions_map_def Let_def row_to_version_def version_of_def max_absorb1 split: prod.splits)
  have "map av_version_index (ats_versions_of rd d (uint i)) = map word_of_nat [0 ..< ?n]"
    "map av_commitment (ats_versions_of rd d (uint i)) = map (\<lambda>(b, x, c, p). hex_bytes c) (ca_versions r)"
    "map av_protocol_version (ats_versions_of rd d (uint i)) = map (\<lambda>(b, x, c, p). p) (ca_versions r)"
    unfolding ats_versions_map [OF vers] by (auto intro!: map_cong map_upt_nth simp: row)
  moreover have "read_ats rd d (uint i) = registry_to_record rd (uint i, registry_of r,
      case block_ms (rd_sid rd) d (kr_created_block (registry_of r)) of Some ms \<Rightarrow> ms | None \<Rightarrow> 0) (ats_versions_of rd d (uint i))"
    by (simp add: read_ats_def registry_out_def ats_row_def reg)
  ultimately show ?thesis
    by (simp add: mirrors_def registry_to_record_def registry_of_def Let_def split: option.split)
qed

section \<open>Properties\<close>

text \<open>C7: The registry follows the chain. Index the blocks of any legal history in order, on tables that
  hold no ATS of the network: every block is applied, and reading an ATS afterwards gives nothing when
  the chain has revoked it or never had it, and otherwise a record with its owner, all its versions in
  order with their commitments, and a deposit for each version.\<close>

theorem ats_record_tracks_chain:
  assumes "chain_run hist (Map.empty, {}) = Some (live, used)"
    and "\<forall>k. t_registry d (rd_sid rd, k) = None \<and> (\<forall>v. t_versions d (rd_sid rd, k, v) = None)"
  shows "\<exists>d'. index_ats (rd_sid rd) hist d = Inr d' \<and> (case live (ucast i) of
      None \<Rightarrow> ats_by_id (\<lambda>_. None) rd i d' = Inr None
    | Some r \<Rightarrow> \<exists>shown. ats_by_id (\<lambda>_. None) rd i d' = Inr (Some shown) \<and> mirrors rd i r shown)"
proof -
  have "tracks (rd_sid rd) (t_registry d) (t_versions d) (fst (Map.empty, {} :: u64 set))"
    using assms(2) by (simp add: tracks_def)
  then obtain d' where d': "index_ats (rd_sid rd) hist d = Inr d'" "tracks (rd_sid rd) (t_registry d') (t_versions d') live"
    using history_tracks [OF _ _ assms(1)] by (force simp: known_def)
  have "counts_fit (live, used)" using chain_run_fits [OF assms(1)] by (simp add: counts_fit_def)
  then have "mirrors rd i r (read_ats rd d' (uint i))" if "live (ucast i) = Some r" for r
    using record_mirrors [OF d'(2) that] that by (simp add: counts_fit_def)
  moreover have "uint i \<in> ats_ids (rd_sid rd) d' \<longleftrightarrow> live (ucast i) \<noteq> None"
    using d'(2) by (auto simp: tracks_def ats_ids_def uint_32_column domIff)
  ultimately show ?thesis using d'(1) by (cases "live (ucast i)") (simp_all add: ats_by_id_eq)
qed

text \<open>An ATS with two versions of two blocks, and one created and revoked within a block.\<close>

definition example_history :: "(u64 \<times> (u32 \<times> decoded_ats_event) list) list" where
  "example_history = [(5, [(1, AtsCreated 7 [1] [2] 1)]),
     (6, [(1, AtsCreated 8 [1] [3] 1), (2, AtsUpdated 7 1 [4] 1), (3, AtsRevoked 8)])]"

lemma ats_record_tracks_chain_witness:
  "\<exists>d'. index_ats 1 example_history empty_db = Inr d' \<and> ats_by_id (\<lambda>_. None) example_reader 8 d' = Inr None \<and>
     (\<exists>shown. ats_by_id (\<lambda>_. None) example_reader 7 d' = Inr (Some shown) \<and> map av_commitment (ar_versions shown) = [hex_bytes [2], hex_bytes [4]])"
proof -
  have run: "chain_run example_history (Map.empty, {}) = Some ([7 \<mapsto> \<lparr> ca_owner = [1], ca_created = (5, 1),
      ca_versions = [(5, 1, [2], 1), (6, 2, [4], 1)] \<rparr>], {8, 7})"
    by (auto simp: example_history_def fun_eq_iff)
  have sid: "rd_sid example_reader = 1" by (simp add: example_reader_def)
  have none: "\<forall>k. t_registry empty_db (rd_sid example_reader, k) = None \<and> (\<forall>v. t_versions empty_db (rd_sid example_reader, k, v) = None)"
    by (simp add: empty_db_def)
  note w = ats_record_tracks_chain [OF run none]
  show ?thesis using w [of 7] w [of 8] by (auto simp: sid mirrors_def)
qed

end
