(* ===== verification/Spec2Isabelle.thy ===== *)
theory Spec2Isabelle
  imports Prelude Domain Cursor Filters Merge Ss58 Buffer Chain Projections Balances Ats Sink Network Indexing Replay LiveWorker Backfill SinkFacts Keyset Reconcile Paging BlockQueries Metadata RpcExtrinsics EventQueries ExtrinsicQueries TransferQueries AccountQueries RpcProvider IndexedProvider AtsQueries AtsLifecycle
begin

text \<open>Header.\<close>

end
